(* ===== verification/Prelude.thy ===== *)
theory Prelude
  imports Complex_Main "HOL-Library.List_Lexorder" "HOL-Library.Char_ord" "HOL-Library.Sublist"
begin

text \<open>
  Shared vocabulary of the development.

  \<^item> A Rust \<open>String\<close>, \<open>&str\<close> or \<open>Vec<u8>\<close> is a HOL \<open>string\<close> whose characters are the
    bytes of the value: \<open>length\<close> is Rust's \<open>len()\<close>, the order of HOL-Library's
    \<open>List_Lexorder\<close> over \<open>Char_ord\<close> is the byte order of \<open>Ord for str\<close>, and the operations
    of \<open>std::str\<close> the program uses are defined below on the UTF-8 bytes.
  \<^item> \<open>Result<T, E>\<close> is the sum \<open>'e + 'a\<close> with \<open>Inl\<close> for \<open>Err\<close>.
  \<^item> \<open>usize\<close> and \<open>u64\<close> quantities that count bytes, tokens, texts or files are \<open>nat\<close>.
  \<^item> \<open>Duration\<close> is a number of nanoseconds, saturating at \<open>Duration::MAX\<close>.
\<close>

section \<open>Collections\<close>

named_theorems byte_string \<open>evaluation of the operations on byte strings\<close>
named_theorems result_split \<open>case splits on results and options\<close>

type_synonym bytes = "char list"
type_synonym ('e, 'a) result = "'e + 'a"
type_synonym duration = nat
type_synonym instant = nat

lemmas [result_split] = sum.splits option.splits prod.splits if_splits

section \<open>Results\<close>

text \<open>\<open>iter.map(f).collect::<Result<Vec<_>, _>>()\<close>: the first error, or all the values.\<close>

fun collect_results :: "('a \<Rightarrow> ('e, 'b) result) \<Rightarrow> 'a list \<Rightarrow> ('e, 'b list) result" where
  "collect_results f [] = Inr []"
| "collect_results f (x # xs) =
     (case f x of
        Inl e \<Rightarrow> Inl e
      | Inr y \<Rightarrow> (case collect_results f xs of Inl e \<Rightarrow> Inl e | Inr ys \<Rightarrow> Inr (y # ys)))"

lemma collect_results_Inr_iff:
  "collect_results f xs = Inr ys \<longleftrightarrow> list_all2 (\<lambda>x y. f x = Inr y) xs ys"
proof (induction xs arbitrary: ys)
  case Nil
  then show ?case by auto
next
  case (Cons x xs)
  show ?case
    by (cases ys) (auto simp: Cons.IH [symmetric] split: result_split)
qed

lemma collect_results_length: "collect_results f xs = Inr ys \<Longrightarrow> length ys = length xs"
  by (auto simp: collect_results_Inr_iff dest: list_all2_lengthD)

lemma collect_results_Inl:
  "collect_results f xs = Inl e \<Longrightarrow> \<exists>x\<in>set xs. f x = Inl e"
  by (induction xs) (auto split: result_split)

lemma collect_results_total:
  "(\<And>x. x \<in> set xs \<Longrightarrow> f x = Inr (g x)) \<Longrightarrow> collect_results f xs = Inr (map g xs)"
  by (induction xs) auto

text \<open>\<open>m?\<close> before a continuation, and \<open>if !b { return Err(e) }\<close>.\<close>

definition and_then :: "('e, 'a) result \<Rightarrow> ('a \<Rightarrow> ('e, 'b) result) \<Rightarrow> ('e, 'b) result" where
  "and_then m f = (case m of Inl e \<Rightarrow> Inl e | Inr x \<Rightarrow> f x)"

definition ensure :: "bool \<Rightarrow> 'e \<Rightarrow> ('e, unit) result" where
  "ensure b e = (if b then Inr () else Inl e)"

definition map_err :: "('e \<Rightarrow> 'g) \<Rightarrow> ('e, 'a) result \<Rightarrow> ('g, 'a) result" where
  "map_err f m = (case m of Inl e \<Rightarrow> Inl (f e) | Inr x \<Rightarrow> Inr x)"

lemma and_then_simps [simp]:
  "and_then (Inl e) f = Inl e" "and_then (Inr x) f = f x"
  by (simp_all add: and_then_def)

lemma and_then_Inr_iff: "and_then m f = Inr y \<longleftrightarrow> (\<exists>x. m = Inr x \<and> f x = Inr y)"
  by (cases m) simp_all

lemma ensure_Inr_iff [simp]: "ensure b e = Inr u \<longleftrightarrow> b"
  by (simp add: ensure_def)

lemma map_err_simps [simp]:
  "map_err f (Inl e) = Inl (f e)" "map_err f (Inr x) = Inr x"
  by (simp_all add: map_err_def)

lemma map_err_Inr_iff [simp]: "map_err f m = Inr x \<longleftrightarrow> m = Inr x"
  by (cases m) (simp_all add: map_err_def)

lemma collect_results_map_Inr: "collect_results (\<lambda>x. Inr (g x)) xs = Inr (map g xs)"
  by (rule collect_results_total) simp

section \<open>Byte strings\<close>

definition newline :: char where
  "newline = CHR 0x0A"

definition squote :: string where
  "squote = [CHR 0x27]"

definition dquote :: string where
  "dquote = [CHR 0x22]"

definition backslash :: char where
  "backslash = CHR 0x5C"

text \<open>\<open>str::starts_with\<close>, \<open>ends_with\<close>, \<open>contains\<close>, \<open>strip_prefix\<close>, \<open>strip_suffix\<close>.\<close>

definition starts_with :: "string \<Rightarrow> string \<Rightarrow> bool" where
  "starts_with s p \<longleftrightarrow> take (length p) s = p"

definition ends_with :: "string \<Rightarrow> string \<Rightarrow> bool" where
  "ends_with s p \<longleftrightarrow> length p \<le> length s \<and> drop (length s - length p) s = p"

fun contains_str :: "string \<Rightarrow> string \<Rightarrow> bool" where
  "contains_str [] p \<longleftrightarrow> p = []"
| "contains_str (c # cs) p \<longleftrightarrow> starts_with (c # cs) p \<or> contains_str cs p"

definition strip_prefix :: "string \<Rightarrow> string \<Rightarrow> string option" where
  "strip_prefix s p = (if starts_with s p then Some (drop (length p) s) else None)"

definition strip_suffix :: "string \<Rightarrow> string \<Rightarrow> string option" where
  "strip_suffix s p = (if ends_with s p then Some (take (length s - length p) s) else None)"

lemma starts_with_iff: "starts_with s p \<longleftrightarrow> (\<exists>t. s = p @ t)"
  unfolding starts_with_def by (metis append_eq_conv_conj append_take_drop_id)

lemma ends_with_iff: "ends_with s p \<longleftrightarrow> (\<exists>t. s = t @ p)"
proof
  assume "ends_with s p"
  then show "\<exists>t. s = t @ p"
    unfolding ends_with_def by (metis append_take_drop_id)
next
  assume "\<exists>t. s = t @ p"
  then show "ends_with s p"
    by (auto simp: ends_with_def)
qed

lemma starts_with_append [simp]: "starts_with (p @ t) p"
  by (auto simp: starts_with_iff)

lemma ends_with_append [simp]: "ends_with (t @ p) p"
  by (auto simp: ends_with_iff)

lemma strip_prefix_append [simp]: "strip_prefix (p @ t) p = Some t"
  by (simp add: strip_prefix_def)

lemma strip_suffix_append [simp]: "strip_suffix (t @ p) p = Some t"
  by (simp add: strip_suffix_def)

lemma strip_prefix_Some: "strip_prefix s p = Some t \<longleftrightarrow> s = p @ t"
  by (auto simp: strip_prefix_def starts_with_iff)

lemma strip_suffix_Some: "strip_suffix s p = Some t \<longleftrightarrow> s = t @ p"
  by (auto simp: strip_suffix_def ends_with_iff)

text \<open>\<open>[_]::join(sep)\<close> on strings.\<close>

fun join_str :: "string \<Rightarrow> string list \<Rightarrow> string" where
  "join_str sep [] = []"
| "join_str sep [x] = x"
| "join_str sep (x # y # ys) = x @ sep @ join_str sep (y # ys)"

text \<open>\<open>u8::is_ascii_digit\<close> and friends, and the ASCII case folding of \<open>str\<close>.\<close>

definition byte_of :: "char \<Rightarrow> nat" where
  "byte_of c = of_char c"

lemma byte_of_less [simp]: "byte_of c < 256"
  using of_char_of [where 'a = nat] by (simp add: byte_of_def)

lemma byte_of_inject: "byte_of c = byte_of d \<longleftrightarrow> c = d"
  by (simp add: byte_of_def)

definition is_ascii_digit :: "char \<Rightarrow> bool" where
  "is_ascii_digit c \<longleftrightarrow> 48 \<le> byte_of c \<and> byte_of c \<le> 57"

definition is_ascii_alphanumeric :: "char \<Rightarrow> bool" where
  "is_ascii_alphanumeric c \<longleftrightarrow>
     is_ascii_digit c \<or> (65 \<le> byte_of c \<and> byte_of c \<le> 90) \<or> (97 \<le> byte_of c \<and> byte_of c \<le> 122)"

definition ascii_lower :: "char \<Rightarrow> char" where
  "ascii_lower c = (if 65 \<le> byte_of c \<and> byte_of c \<le> 90 then char_of (byte_of c + 32) else c)"

definition to_ascii_lowercase :: "string \<Rightarrow> string" where
  "to_ascii_lowercase s = map ascii_lower s"

definition eq_ignore_ascii_case :: "string \<Rightarrow> string \<Rightarrow> bool" where
  "eq_ignore_ascii_case a b \<longleftrightarrow> to_ascii_lowercase a = to_ascii_lowercase b"

lemma ascii_lower_idem [simp]: "ascii_lower (ascii_lower c) = ascii_lower c"
  by (simp add: ascii_lower_def byte_of_def)

lemma eq_ignore_ascii_lower: "eq_ignore_ascii_case (to_ascii_lowercase a) b = eq_ignore_ascii_case a b"
  by (simp add: eq_ignore_ascii_case_def to_ascii_lowercase_def comp_def)

lemma eq_ignore_ascii_case_refl [simp]: "eq_ignore_ascii_case a a"
  by (simp add: eq_ignore_ascii_case_def)

text \<open>Decimal rendering of an unsigned integer (\<open>Display for usize\<close>) and of a \<open>bool\<close>.\<close>

definition digit_char :: "nat \<Rightarrow> char" where
  "digit_char d = char_of (48 + d)"

fun show_nat :: "nat \<Rightarrow> string" where
  "show_nat n = (if n < 10 then [digit_char n] else show_nat (n div 10) @ [digit_char (n mod 10)])"

declare show_nat.simps [simp del]

definition show_bool :: "bool \<Rightarrow> string" where
  "show_bool b = (if b then ''true'' else ''false'')"

text \<open>\<open>\{byte:02x\}\<close>, applied to every byte.\<close>

definition hex_digit :: "nat \<Rightarrow> char" where
  "hex_digit d = (if d < 10 then char_of (48 + d) else char_of (87 + d))"

definition hex_byte :: "char \<Rightarrow> string" where
  "hex_byte b = [hex_digit (byte_of b div 16), hex_digit (byte_of b mod 16)]"

definition hex :: "bytes \<Rightarrow> string" where
  "hex bs = concat (map hex_byte bs)"

text \<open>\<open>to_le_bytes()\<close> of an integer of \<open>k\<close> bytes.\<close>

fun le_bytes :: "nat \<Rightarrow> nat \<Rightarrow> bytes" where
  "le_bytes 0 n = []"
| "le_bytes (Suc k) n = char_of (n mod 256) # le_bytes k (n div 256)"

lemma le_bytes_length [simp]: "length (le_bytes k n) = k"
  by (induction k arbitrary: n) auto

lemma le_bytes_inj: "n < 256 ^ k \<Longrightarrow> m < 256 ^ k \<Longrightarrow> le_bytes k n = le_bytes k m \<Longrightarrow> n = m"
proof (induction k arbitrary: n m)
  case (Suc k)
  have "(of_char (char_of (n mod 256) :: char) :: nat) = of_char (char_of (m mod 256) :: char)" using Suc.prems(3) by simp
  then have "n mod 256 = m mod 256" by simp
  moreover have "n div 256 = m div 256"
    using Suc.IH [of "n div 256" "m div 256"] Suc.prems by (simp add: less_mult_imp_div_less mult.commute)
  ultimately show ?case by (metis mod_mult_div_eq)
qed simp

text \<open>A list of components is determined by its length-prefixed concatenation.\<close>

lemma length_prefixed_inj:
  assumes "length cs = length ds" and "\<forall>c\<in>set (cs @ ds). length c < 256 ^ 8"
    and "concat (map (\<lambda>c. le_bytes 8 (length c) @ c) cs) = concat (map (\<lambda>c. le_bytes 8 (length c) @ c) ds)"
  shows "cs = ds"
  using assms
proof (induction cs ds rule: list_induct2)
  case (Cons c cs d ds)
  from Cons.prems(2) have "le_bytes 8 (length c) = le_bytes 8 (length d)" by simp
  then have "length c = length d" using le_bytes_inj [of "length c" 8 "length d"] Cons.prems(1) by simp
  with Cons show ?case by auto
qed simp

section \<open>White space\<close>

text \<open>
  \<open>str::trim\<close> removes leading and trailing characters with the Unicode property
  \<open>White_Space\<close>. The list holds their UTF-8 encodings. UTF-8 is self-synchronising, so on
  valid UTF-8 a byte prefix (suffix) equal to an encoding is that character.
\<close>

definition white_space :: "string list" where
  "white_space =
     [[CHR 0x09], [CHR 0x0A], [CHR 0x0B], [CHR 0x0C], [CHR 0x0D], [CHR 0x20],
      [CHR 0xC2, CHR 0x85], [CHR 0xC2, CHR 0xA0], [CHR 0xE1, CHR 0x9A, CHR 0x80],
      [CHR 0xE2, CHR 0x80, CHR 0x80], [CHR 0xE2, CHR 0x80, CHR 0x81],
      [CHR 0xE2, CHR 0x80, CHR 0x82], [CHR 0xE2, CHR 0x80, CHR 0x83],
      [CHR 0xE2, CHR 0x80, CHR 0x84], [CHR 0xE2, CHR 0x80, CHR 0x85],
      [CHR 0xE2, CHR 0x80, CHR 0x86], [CHR 0xE2, CHR 0x80, CHR 0x87],
      [CHR 0xE2, CHR 0x80, CHR 0x88], [CHR 0xE2, CHR 0x80, CHR 0x89],
      [CHR 0xE2, CHR 0x80, CHR 0x8A], [CHR 0xE2, CHR 0x80, CHR 0xA8],
      [CHR 0xE2, CHR 0x80, CHR 0xA9], [CHR 0xE2, CHR 0x80, CHR 0xAF],
      [CHR 0xE2, CHR 0x81, CHR 0x9F], [CHR 0xE3, CHR 0x80, CHR 0x80]]"

definition lead_ws :: "string \<Rightarrow> nat" where
  "lead_ws s = (case find (\<lambda>w. starts_with s w) white_space of None \<Rightarrow> 0 | Some w \<Rightarrow> length w)"

definition trail_ws :: "string \<Rightarrow> nat" where
  "trail_ws s = (case find (\<lambda>w. ends_with s w) white_space of None \<Rightarrow> 0 | Some w \<Rightarrow> length w)"

lemma lead_ws_Nil [simp]: "lead_ws [] = 0"
  by (simp add: lead_ws_def white_space_def starts_with_def)

lemma trail_ws_Nil [simp]: "trail_ws [] = 0"
  by (simp add: trail_ws_def white_space_def ends_with_def)

function trim_start :: "string \<Rightarrow> string" where
  "trim_start s = (if lead_ws s = 0 then s else trim_start (drop (lead_ws s) s))"
  by pat_completeness auto
termination
proof (relation "measure length")
  fix s :: string
  assume "lead_ws s \<noteq> 0"
  then have "s \<noteq> []" by (metis lead_ws_Nil)
  with \<open>lead_ws s \<noteq> 0\<close> show "(drop (lead_ws s) s, s) \<in> measure length" by simp
qed simp

function trim_end :: "string \<Rightarrow> string" where
  "trim_end s = (if trail_ws s = 0 then s else trim_end (take (length s - trail_ws s) s))"
  by pat_completeness auto
termination
proof (relation "measure length")
  fix s :: string
  assume "trail_ws s \<noteq> 0"
  then have "s \<noteq> []" by (metis trail_ws_Nil)
  with \<open>trail_ws s \<noteq> 0\<close> show "(take (length s - trail_ws s) s, s) \<in> measure length" by simp
qed simp

declare trim_start.simps [simp del] trim_end.simps [simp del]

definition trim :: "string \<Rightarrow> string" where
  "trim s = trim_end (trim_start s)"

section \<open>UTF-8\<close>

text \<open>
  \<open>std::str::from_utf8\<close> accepts exactly the well-formed byte sequences of the Unicode
  standard (table 3-7): no overlong form, no surrogate, nothing above U+10FFFF.
\<close>

definition in_range :: "nat \<Rightarrow> nat \<Rightarrow> char \<Rightarrow> bool" where
  "in_range lo hi c \<longleftrightarrow> lo \<le> byte_of c \<and> byte_of c \<le> hi"

definition second_ok :: "char \<Rightarrow> char \<Rightarrow> bool" where
  "second_ok a b \<longleftrightarrow>
     (if byte_of a = 0xE0 then in_range 0xA0 0xBF b
      else if byte_of a = 0xED then in_range 0x80 0x9F b
      else if byte_of a = 0xF0 then in_range 0x90 0xBF b
      else if byte_of a = 0xF4 then in_range 0x80 0x8F b
      else in_range 0x80 0xBF b)"

fun utf8_valid :: "bytes \<Rightarrow> bool" where
  "utf8_valid [] \<longleftrightarrow> True"
| "utf8_valid (a # r) \<longleftrightarrow>
     (if byte_of a < 0x80 then utf8_valid r
      else if in_range 0xC2 0xDF a then
        (case r of b # r' \<Rightarrow> second_ok a b \<and> utf8_valid r' | _ \<Rightarrow> False)
      else if in_range 0xE0 0xEF a then
        (case r of b # c # r' \<Rightarrow> second_ok a b \<and> in_range 0x80 0xBF c \<and> utf8_valid r' | _ \<Rightarrow> False)
      else if in_range 0xF0 0xF4 a then
        (case r of b # c # d # r' \<Rightarrow>
           second_ok a b \<and> in_range 0x80 0xBF c \<and> in_range 0x80 0xBF d \<and> utf8_valid r' | _ \<Rightarrow> False)
      else False)"

section \<open>Durations\<close>

definition duration_max :: duration where
  "duration_max = (2 ^ 64 - 1) * 1000000000 + 999999999"

definition duration_saturating_add :: "duration \<Rightarrow> duration \<Rightarrow> duration" where
  "duration_saturating_add a b = min duration_max (a + b)"

definition from_secs :: "nat \<Rightarrow> duration" where
  "from_secs s = s * 1000000000"

section \<open>Lists\<close>

text \<open>\<open>iter.position(p)\<close>.\<close>

fun position :: "('a \<Rightarrow> bool) \<Rightarrow> 'a list \<Rightarrow> nat option" where
  "position p [] = None"
| "position p (x # xs) = (if p x then Some 0 else map_option Suc (position p xs))"

lemma position_None_iff: "position p xs = None \<longleftrightarrow> (\<forall>x\<in>set xs. \<not> p x)"
  by (induction xs) auto

lemma position_Some:
  "position p xs = Some i \<longleftrightarrow>
     i < length xs \<and> p (xs ! i) \<and> (\<forall>x\<in>set (take i xs). \<not> p x)"
proof (induction xs arbitrary: i)
  case Nil
  then show ?case by simp
next
  case (Cons x xs)
  show ?case
    by (cases i) (auto simp: Cons.IH)
qed

lemma position_Some_less: "position p xs = Some i \<Longrightarrow> i < length xs"
  by (simp add: position_Some)

section \<open>Paths\<close>

text \<open>
  A \<open>std::path::Path\<close> on Unix, by its components: what \<open>parent\<close>, \<open>join\<close>, \<open>file_name\<close> and the
  comparison of paths are defined on. \<open>parent\<close> of a root or of the empty path is \<open>None\<close>.
\<close>

record path =
  path_absolute :: bool
  path_components :: "string list"

fun split_slash :: "string \<Rightarrow> string list" where
  "split_slash [] = [[]]"
| "split_slash (c # cs) =
     (if c = CHR ''/'' then [] # split_slash cs
      else case split_slash cs of [] \<Rightarrow> [[c]] | w # ws \<Rightarrow> (c # w) # ws)"

text \<open>\<open>PathBuf::from\<close>: repeated slashes and \<open>.\<close> are dropped, but for a leading \<open>.\<close>.\<close>

definition path_of :: "string \<Rightarrow> path" where
  "path_of s =
     (let absolute = starts_with s ''/'';
          parts = filter (\<lambda>w. w \<noteq> []) (split_slash s);
          lead = (if \<not> absolute \<and> parts \<noteq> [] \<and> hd parts = ''.'' then [''.''] else [])
      in \<lparr>path_absolute = absolute, path_components = lead @ filter (\<lambda>w. w \<noteq> ''.'') parts\<rparr>)"

definition path_parent :: "path \<Rightarrow> path option" where
  "path_parent p =
     (if path_components p = [] then None else Some (p\<lparr>path_components := butlast (path_components p)\<rparr>))"

definition path_join :: "path \<Rightarrow> string \<Rightarrow> path" where
  "path_join p name = p\<lparr>path_components := path_components p @ [name]\<rparr>"

definition path_file_name :: "path \<Rightarrow> string option" where
  "path_file_name p = (if path_components p = [] then None else Some (last (path_components p)))"

definition path_display :: "path \<Rightarrow> string" where
  "path_display p = (if path_absolute p then ''/'' else []) @ join_str ''/'' (path_components p)"

lemma path_parent_join [simp]: "path_parent (path_join p n) = Some p"
  by (simp add: path_parent_def path_join_def)

lemma path_parent_neq:
  assumes "path_parent p = Some q"
  shows "q \<noteq> p"
proof
  assume "q = p"
  with assms have "path_components p \<noteq> []" "butlast (path_components p) = path_components p"
    by (auto simp: path_parent_def split: if_splits dest!: arg_cong [where f = path_components])
  then show False using length_butlast [of "path_components p"] by (cases "path_components p") simp_all
qed

lemma path_file_name_join [simp]: "path_file_name (path_join p n) = Some n"
  by (simp add: path_file_name_def path_join_def)

lemma path_join_inject [simp]: "path_join p n = path_join q m \<longleftrightarrow> p = q \<and> n = m"
  by (cases p; cases q) (auto simp: path_join_def)

end
