(* ===== verification/Text_Fit.thy ===== *)
theory Text_Fit
  imports Prelude
begin

text \<open>
  \<open>src/src/sanitize.rs\<close> and \<open>src/src/truncate.rs\<close>: the two per-text steps between a wire string
  and the tokenizer. The tokenizer itself is injected in the source (\<open>tokenize\<close>,
  \<open>detokenize\<close>), so it is a parameter here. The closures may have interior state (the engine's
  record the first tokenizer error in a \<open>RefCell\<close>), which the model threads through as \<open>'s\<close>;
  \<open>stateless\<close> lifts an ordinary function to such a closure.
\<close>

section \<open>Sanitize\<close>

definition EMPTY_PLACEHOLDER :: string where
  "EMPTY_PLACEHOLDER = ''[empty]''"

definition sanitize :: "string \<Rightarrow> string" where
  "sanitize text =
     (let stripped = filter (\<lambda>c. c \<noteq> CHR 0x00) text
      in if trim stripped = [] then EMPTY_PLACEHOLDER else stripped)"

section \<open>Truncate\<close>

definition body_budget :: "nat \<Rightarrow> nat \<Rightarrow> nat \<Rightarrow> nat" where
  "body_budget max_text_tokens eos_reserve special_token_overhead =
     max_text_tokens - (eos_reserve + special_token_overhead)"

text \<open>The \<open>while kept > 0\<close> loop of \<open>fit\<close>.\<close>

fun fit_loop ::
  "('s \<Rightarrow> string \<Rightarrow> 's \<times> 'tok list) \<Rightarrow> ('s \<Rightarrow> 'tok list \<Rightarrow> 's \<times> string) \<Rightarrow> 'tok list \<Rightarrow> nat \<Rightarrow> 's \<Rightarrow> 's \<times> string"
  where
  "fit_loop tokenize detokenize tokens 0 s = (s, '''')"
| "fit_loop tokenize detokenize tokens (Suc k) s =
     (let (s1, candidate) = detokenize s (take (Suc k) tokens);
          (s2, again) = tokenize s1 candidate
      in if again = take (Suc k) tokens then (s2, candidate)
         else fit_loop tokenize detokenize tokens k s2)"

definition fit ::
  "string \<Rightarrow> nat \<Rightarrow> nat \<Rightarrow> nat \<Rightarrow> ('s \<Rightarrow> string \<Rightarrow> 's \<times> 'tok list) \<Rightarrow> ('s \<Rightarrow> 'tok list \<Rightarrow> 's \<times> string) \<Rightarrow> 's \<Rightarrow> 's \<times> string"
  where
  "fit prefixed max_text_tokens eos_reserve special_token_overhead tokenize detokenize s =
     (let budget = body_budget max_text_tokens eos_reserve special_token_overhead;
          (s1, tokens) = tokenize s prefixed
      in if length tokens \<le> budget then (s1, prefixed)
         else fit_loop tokenize detokenize tokens budget s1)"

definition stateless :: "('a \<Rightarrow> 'b) \<Rightarrow> 's \<Rightarrow> 'a \<Rightarrow> 's \<times> 'b" where
  "stateless f = (\<lambda>s x. (s, f x))"

text \<open>A cut after \<open>k\<close> tokens is stable when its text retokenizes to exactly those tokens.\<close>

definition stable_cut :: "(string \<Rightarrow> 'tok list) \<Rightarrow> ('tok list \<Rightarrow> string) \<Rightarrow> 'tok list \<Rightarrow> nat \<Rightarrow> bool" where
  "stable_cut tokenize detokenize tokens k \<longleftrightarrow>
     tokenize (detokenize (take k tokens)) = take k tokens"

definition fit_text :: "string \<Rightarrow> nat \<Rightarrow> nat \<Rightarrow> nat \<Rightarrow> (string \<Rightarrow> 'tok list) \<Rightarrow> ('tok list \<Rightarrow> string) \<Rightarrow> string" where
  "fit_text prefixed max_text_tokens eos_reserve special_token_overhead tokenize detokenize =
     snd (fit prefixed max_text_tokens eos_reserve special_token_overhead
            (stateless tokenize) (stateless detokenize) ())"

section \<open>Sanitizing\<close>

lemma placeholder_visible: "trim EMPTY_PLACEHOLDER \<noteq> []"
  by (simp add: EMPTY_PLACEHOLDER_def trim_def trim_start.simps trim_end.simps lead_ws_def
      trail_ws_def white_space_def starts_with_def ends_with_def)

lemma placeholder_no_nul: "CHR 0x00 \<notin> set EMPTY_PLACEHOLDER"
  by (simp add: EMPTY_PLACEHOLDER_def)

lemma sanitize_no_nul: "CHR 0x00 \<notin> set (sanitize t)"
  by (simp add: sanitize_def Let_def placeholder_no_nul)

lemma sanitize_visible: "trim (sanitize t) \<noteq> []"
  by (simp add: sanitize_def Let_def placeholder_visible)

lemma trim_Nil [simp]: "trim [] = []"
  by (simp add: trim_def trim_start.simps trim_end.simps)

lemma sanitize_nonempty: "sanitize t \<noteq> []"
  using sanitize_visible [of t] by auto

lemma sanitize_fixed: "sanitize t = t \<longleftrightarrow> CHR 0x00 \<notin> set t \<and> trim t \<noteq> []"
proof
  assume "sanitize t = t"
  then show "CHR 0x00 \<notin> set t \<and> trim t \<noteq> []"
    using sanitize_no_nul [of t] sanitize_visible [of t] by simp
next
  assume "CHR 0x00 \<notin> set t \<and> trim t \<noteq> []"
  moreover from this have "filter (\<lambda>c. c \<noteq> CHR 0x00) t = t"
    by (intro filter_True) auto
  ultimately show "sanitize t = t" by (simp add: sanitize_def)
qed

section \<open>Fitting\<close>

lemma fit_loop_stateless:
  "\<exists>k \<le> n. fit_loop (stateless tok) (stateless detok) ts n s
      = (s, if k = 0 then '''' else detok (take k ts))
    \<and> (0 < k \<longrightarrow> stable_cut tok detok ts k) \<and> (\<forall>j. k < j \<and> j \<le> n \<longrightarrow> \<not> stable_cut tok detok ts j)"
proof (induction n)
  case 0
  then show ?case by simp
next
  case (Suc n)
  show ?case
  proof (cases "stable_cut tok detok ts (Suc n)")
    case True
    then show ?thesis
      by (intro exI [of _ "Suc n"]) (auto simp: stateless_def stable_cut_def)
  next
    case False
    from Suc obtain k where k: "k \<le> n"
      "fit_loop (stateless tok) (stateless detok) ts n s = (s, if k = 0 then '''' else detok (take k ts))"
      "0 < k \<longrightarrow> stable_cut tok detok ts k" "\<forall>j. k < j \<and> j \<le> n \<longrightarrow> \<not> stable_cut tok detok ts j"
      by blast
    from False have "tok (detok (take (Suc n) ts)) \<noteq> take (Suc n) ts"
      by (simp add: stable_cut_def)
    then have "fit_loop (stateless tok) (stateless detok) ts (Suc n) s
        = fit_loop (stateless tok) (stateless detok) ts n s"
      by (simp add: stateless_def)
    moreover have "\<forall>j. k < j \<and> j \<le> Suc n \<longrightarrow> \<not> stable_cut tok detok ts j"
      using k(4) False by (metis le_Suc_eq)
    ultimately show ?thesis using k by (intro exI [of _ k]) auto
  qed
qed

lemma fit_text_under:
  "length (tok p) \<le> body_budget m e o' \<Longrightarrow> fit_text p m e o' tok detok = p"
  by (simp add: fit_text_def fit_def stateless_def)

lemma fit_text_over:
  assumes "body_budget m e o' < length (tok p)"
  shows "\<exists>k \<le> body_budget m e o'. fit_text p m e o' tok detok
      = (if k = 0 then '''' else detok (take k (tok p)))
    \<and> (0 < k \<longrightarrow> stable_cut tok detok (tok p) k)
    \<and> (\<forall>j. k < j \<and> j \<le> body_budget m e o' \<longrightarrow> \<not> stable_cut tok detok (tok p) j)"
proof -
  have "fit p m e o' (stateless tok) (stateless detok) ()
      = fit_loop (stateless tok) (stateless detok) (tok p) (body_budget m e o') ()"
    using assms by (simp add: fit_def stateless_def [of tok])
  then have "fit_text p m e o' tok detok
      = snd (fit_loop (stateless tok) (stateless detok) (tok p) (body_budget m e o') ())"
    by (simp add: fit_text_def)
  moreover obtain k where k: "k \<le> body_budget m e o'"
    "fit_loop (stateless tok) (stateless detok) (tok p) (body_budget m e o') ()
      = ((), if k = 0 then '''' else detok (take k (tok p)))"
    "0 < k \<longrightarrow> stable_cut tok detok (tok p) k"
    "\<forall>j. k < j \<and> j \<le> body_budget m e o' \<longrightarrow> \<not> stable_cut tok detok (tok p) j"
    using fit_loop_stateless [of "body_budget m e o'" tok detok "tok p" "()"] by blast
  ultimately show ?thesis by (intro exI [of _ k]) simp
qed

lemma fit_text_tokens_prefix:
  assumes "tok '''' = []"
  shows "prefix (tok (fit_text p m e o' tok detok)) (tok p)
    \<and> length (tok (fit_text p m e o' tok detok)) \<le> body_budget m e o'"
proof (cases "length (tok p) \<le> body_budget m e o'")
  case True
  then show ?thesis by (simp add: fit_text_under)
next
  case False
  then obtain k where k: "k \<le> body_budget m e o'"
    "fit_text p m e o' tok detok = (if k = 0 then '''' else detok (take k (tok p)))"
    "0 < k \<longrightarrow> stable_cut tok detok (tok p) k"
    using fit_text_over [of m e o' tok p detok] by (metis not_le)
  then have "tok (fit_text p m e o' tok detok) = take k (tok p)"
    using assms by (auto simp: stable_cut_def)
  with k(1) show ?thesis by (simp add: take_is_prefix)
qed

section \<open>What the two steps guarantee\<close>

text \<open>The specification of \<open>fit\<close>: the longest nonempty stable cut within the budget.\<close>

definition stable_cuts :: "(string \<Rightarrow> 'tok list) \<Rightarrow> ('tok list \<Rightarrow> string) \<Rightarrow> 'tok list \<Rightarrow> nat \<Rightarrow> nat list" where
  "stable_cuts tokenize detokenize tokens n = filter (stable_cut tokenize detokenize tokens) [1..<Suc n]"

lemma fit_loop_longest:
  "fit_loop (stateless tok) (stateless detok) ts n s
     = (s, if stable_cuts tok detok ts n = [] then '''' else detok (take (last (stable_cuts tok detok ts n)) ts))"
  by (induction n) (auto simp: stable_cuts_def stateless_def stable_cut_def)

text \<open>C36 (equivalence). \<open>fit\<close> returns a text within the token budget unchanged; a longer one becomes
  the text of its longest prefix of tokens that fits the budget and retokenizes to itself, and
  the empty string when no nonempty prefix does. The step-by-step shrinking loop of the source
  therefore always ends with the longest stable cut.\<close>
theorem fit_longest_stable_cut:
  "fit_text p max_tokens eos special tok detok =
     (let budget = body_budget max_tokens eos special; cuts = stable_cuts tok detok (tok p) budget
      in if length (tok p) \<le> budget then p
         else if cuts = [] then '''' else detok (take (last cuts) (tok p)))"
proof (cases "length (tok p) \<le> body_budget max_tokens eos special")
  case True
  then show ?thesis by (simp add: fit_text_under)
next
  case False
  then have "fit p max_tokens eos special (stateless tok) (stateless detok) ()
      = fit_loop (stateless tok) (stateless detok) (tok p) (body_budget max_tokens eos special) ()"
    by (simp add: fit_def stateless_def [of tok])
  with False show ?thesis by (simp add: fit_text_def fit_loop_longest Let_def)
qed

text \<open>For a tokenizer that gives the empty text no tokens, the tokens of the fitted text
  are a prefix of the tokens of the input, within the body budget: with the reserved end-of-text
  marker and special tokens added back they stay within the model's window.\<close>
lemma fit_within_budget:
  assumes "tok '''' = []" "eos + special \<le> max_tokens"
  shows "prefix (tok (fit_text p max_tokens eos special tok detok)) (tok p)
    \<and> length (tok (fit_text p max_tokens eos special tok detok)) + eos + special \<le> max_tokens"
proof -
  have "prefix (tok (fit_text p max_tokens eos special tok detok)) (tok p)
    \<and> length (tok (fit_text p max_tokens eos special tok detok)) \<le> body_budget max_tokens eos special"
    using assms(1) by (rule fit_text_tokens_prefix)
  with assms(2) show ?thesis by (auto simp: body_budget_def)
qed

lemma fit_within_budget_witness:
  "prefix (id (fit_text ''abcdef'' 5 1 1 id id)) (id ''abcdef'')
    \<and> length (id (fit_text ''abcdef'' 5 1 1 id id)) + 1 + 1 \<le> 5"
  by (rule fit_within_budget) simp_all

text \<open>The text handed to the tokenizer has no NUL character and is never blank;
  exactly the texts that already satisfy both pass through unchanged (so sanitizing twice is
  sanitizing once), and a text that is blank once its NUL characters are dropped becomes the
  placeholder.\<close>
lemma sanitize_contract:
  "CHR 0x00 \<notin> set (sanitize t) \<and> trim (sanitize t) \<noteq> [] \<and> sanitize (sanitize t) = sanitize t
   \<and> (sanitize t = t \<longleftrightarrow> CHR 0x00 \<notin> set t \<and> trim t \<noteq> [])
   \<and> (trim (filter (\<lambda>c. c \<noteq> CHR 0x00) t) = [] \<longleftrightarrow> sanitize t \<noteq> filter (\<lambda>c. c \<noteq> CHR 0x00) t)"
  using sanitize_no_nul [of t] sanitize_visible [of t] sanitize_fixed [of t] sanitize_fixed [of "sanitize t"]
    placeholder_visible
  by (auto simp: sanitize_def Let_def)

end
