(* ===== verification/Broker_Queue.thy ===== *)
theory Broker_Queue
  imports Prelude "HOL-Library.Multiset"
begin

text \<open>
  \<open>src/src/broker/queue.rs\<close>: the bounded two-class queue between the connection threads and the
  scheduler. The mutex makes every operation atomic, so the queue is a record and an operation a
  function on it; \<open>dequeue\<close> on an empty queue waits on the condition variable, which is the
  value \<open>None\<close> of the model. The interface a client relies on is the locale \<open>class_queue\<close>: the
  queue's contents per class, first in first out. The order in which classes are served and
  the starvation bounds are shown for arbitrary interleavings of operations.
\<close>

section \<open>Definitions\<close>

definition INTERACTIVE_BURST :: nat where
  "INTERACTIVE_BURST = 8"

datatype request_class = Interactive | Batch

datatype queue_error = Full

datatype 't dequeued = DeqReady 't | DeqExpired 't

record 't queued =
  q_value :: 't
  q_deadline :: instant

record 't queue_state =
  interactive :: "'t queued list"
  batch :: "'t queued list"
  interactive_since_batch_waited :: nat

record 't broker_queue =
  q_capacity :: nat
  q_state :: "'t queue_state"

definition queue_new :: "nat \<Rightarrow> 't broker_queue" where
  "queue_new capacity =
     \<lparr>q_capacity = capacity,
      q_state = \<lparr>interactive = [], batch = [], interactive_since_batch_waited = 0\<rparr>\<rparr>"

definition try_enqueue ::
  "request_class \<Rightarrow> 't \<Rightarrow> instant \<Rightarrow> 't broker_queue \<Rightarrow> 't broker_queue \<times> (queue_error, unit) result" where
  "try_enqueue cls v deadline q =
     (let st = q_state q
      in if q_capacity q \<le> length (interactive st) + length (batch st) then (q, Inl Full)
         else
           (let queued = \<lparr>q_value = v, q_deadline = deadline\<rparr>
            in case cls of
                 Interactive \<Rightarrow> (q\<lparr>q_state := st\<lparr>interactive := interactive st @ [queued]\<rparr>\<rparr>, Inr ())
               | Batch \<Rightarrow> (q\<lparr>q_state := st\<lparr>batch := batch st @ [queued]\<rparr>\<rparr>, Inr ())))"

text \<open>\<open>VecDeque::pop_front\<close>.\<close>

definition pop_front :: "'a list \<Rightarrow> 'a list \<times> 'a option" where
  "pop_front xs = (case xs of [] \<Rightarrow> ([], None) | x # xs' \<Rightarrow> (xs', Some x))"

definition take_next :: "'t queue_state \<Rightarrow> 't queue_state \<times> 't queued option" where
  "take_next st =
     (if batch st \<noteq> [] then
        (if interactive st \<noteq> [] \<and> interactive_since_batch_waited st < INTERACTIVE_BURST then
           (case pop_front (interactive st) of (rest, queued) \<Rightarrow>
              (st\<lparr>interactive := rest,
                  interactive_since_batch_waited := interactive_since_batch_waited st + 1\<rparr>, queued))
         else
           (case pop_front (batch st) of (rest, queued) \<Rightarrow>
              (st\<lparr>batch := rest, interactive_since_batch_waited := 0\<rparr>, queued)))
      else
        (case pop_front (interactive st) of (rest, queued) \<Rightarrow>
           (st\<lparr>interactive := rest, interactive_since_batch_waited := 0\<rparr>, queued)))"

text \<open>One turn of the loop of \<open>dequeue\<close>, at time \<open>now\<close>; \<open>None\<close> is the wait for a request.\<close>

definition dequeue :: "instant \<Rightarrow> 't broker_queue \<Rightarrow> 't broker_queue \<times> 't dequeued option" where
  "dequeue now q =
     (case take_next (q_state q) of
        (st, None) \<Rightarrow> (q\<lparr>q_state := st\<rparr>, None)
      | (st, Some queued) \<Rightarrow>
          (q\<lparr>q_state := st\<rparr>,
           Some (if q_deadline queued \<le> now then DeqExpired (q_value queued) else DeqReady (q_value queued))))"

section \<open>The interface\<close>

text \<open>Operations on a queue, in the order in which the mutex serialises them.\<close>

datatype ('c, 'v) queue_op = Push 'c 'v | Pop

text \<open>What a run of operations leaves, accepts and serves.\<close>

fun run_ops ::
  "('c \<Rightarrow> 'v \<Rightarrow> 's \<Rightarrow> 's option) \<Rightarrow> ('s \<Rightarrow> ('s \<times> 'c \<times> 'v) option) \<Rightarrow> ('c, 'v) queue_op list \<Rightarrow> 's
     \<Rightarrow> 's \<times> ('c \<times> 'v) list \<times> ('c \<times> 'v) list" where
  "run_ops push pop [] s = (s, [], [])"
| "run_ops push pop (Push c v # ops) s =
     (case push c v s of
        None \<Rightarrow> run_ops push pop ops s
      | Some s1 \<Rightarrow> (case run_ops push pop ops s1 of (s2, ins, outs) \<Rightarrow> (s2, (c, v) # ins, outs)))"
| "run_ops push pop (Pop # ops) s =
     (case pop s of
        None \<Rightarrow> run_ops push pop ops s
      | Some (s1, cv) \<Rightarrow> (case run_ops push pop ops s1 of (s2, ins, outs) \<Rightarrow> (s2, ins, cv # outs)))"

lemma run_ops_preserves:
  assumes "\<And>c v s s'. P s \<Longrightarrow> push c v s = Some s' \<Longrightarrow> P s'"
    and "\<And>s s' c v. P s \<Longrightarrow> pop s = Some (s', c, v) \<Longrightarrow> P s'"
    and "P s" and "run_ops push pop ops s = (s', ins, outs)"
  shows "P s'"
  using assms(3,4)
proof (induction ops arbitrary: s ins outs)
  case (Cons op ops)
  show ?case
  proof (cases op)
    case (Push c v)
    with Cons assms(1) [of s c v] show ?thesis by (auto split: option.splits prod.splits)
  next
    case Pop
    with Cons assms(2) [of s] show ?thesis by (auto split: option.splits prod.splits)
  qed
qed auto

definition of_class :: "'c \<Rightarrow> ('c \<times> 'v) list \<Rightarrow> 'v list" where
  "of_class c cvs = map snd (filter (\<lambda>cv. fst cv = c) cvs)"

lemma of_class_simps [simp]:
  "of_class c [] = []"
  "of_class c (cv # cvs) = (if fst cv = c then snd cv # of_class c cvs else of_class c cvs)"
  by (simp_all add: of_class_def)

fun pops :: "('c, 'v) queue_op list \<Rightarrow> nat" where
  "pops [] = 0"
| "pops (Push c v # ops) = pops ops"
| "pops (Pop # ops) = Suc (pops ops)"

locale class_queue =
  fixes push :: "'c \<Rightarrow> 'v \<Rightarrow> 's \<Rightarrow> 's option"
    and pop :: "'s \<Rightarrow> ('s \<times> 'c \<times> 'v) option"
    and contents :: "'s \<Rightarrow> 'c \<Rightarrow> 'v list"
  assumes push_contents: "push c v s = Some s' \<Longrightarrow> contents s' = (contents s)(c := contents s c @ [v])"
    and pop_contents: "pop s = Some (s', c, v) \<Longrightarrow> contents s = (contents s')(c := v # contents s' c)"
begin

lemma run_fifo:
  "run_ops push pop ops s = (s', ins, outs) \<Longrightarrow> of_class c outs @ contents s' c = contents s c @ of_class c ins"
proof (induction ops arbitrary: s s' ins outs)
  case (Cons op ops)
  show ?case
  proof (cases op)
    case (Push d v)
    with Cons show ?thesis
      using push_contents [of d v s] by (auto split: option.splits prod.splits)
  next
    case Pop
    with Cons show ?thesis
      using pop_contents [of s] by (fastforce split: option.splits prod.splits)
  qed
qed auto

end

text \<open>
  A queue that also measures how long the element at a position of a class has to wait: pushes
  never lengthen the wait, and a pop serves the element or shortens it.
\<close>

locale fair_class = class_queue +
  fixes k :: 'c and wait :: "'s \<Rightarrow> nat \<Rightarrow> nat"
  assumes push_wait: "push c v s = Some s' \<Longrightarrow> wait s' p = wait s p"
    and pop_serves: "p < length (contents s k) \<Longrightarrow> \<exists>s' c v. pop s = Some (s', c, v)"
    and pop_other: "p < length (contents s k) \<Longrightarrow> pop s = Some (s', c, v) \<Longrightarrow> c \<noteq> k \<Longrightarrow> wait s' p < wait s p"
    and pop_same: "Suc p < length (contents s k) \<Longrightarrow> pop s = Some (s', k, v) \<Longrightarrow> wait s' p < wait s (Suc p)"
begin

lemma served_within:
  assumes "p < length (contents s k)" and "wait s p < pops ops" and "run_ops push pop ops s = (s', ins, outs)"
  shows "p < length (of_class k outs)"
  using assms
proof (induction ops arbitrary: s p s' ins outs)
  case (Cons op ops)
  show ?case
  proof (cases op)
    case (Push d v)
    show ?thesis
    proof (cases "push d v s")
      case None
      with Cons Push show ?thesis by auto
    next
      case (Some s1)
      obtain ins1 where r: "run_ops push pop ops s1 = (s', ins1, outs)"
        using Cons.prems(3) Push Some by (auto split: prod.splits)
      show ?thesis
        by (rule Cons.IH [OF _ _ r])
          (use Cons.prems Push push_contents [OF Some] push_wait [OF Some] in auto)
    qed
  next
    case Pop
    obtain s1 d v where q: "pop s = Some (s1, d, v)" using pop_serves [OF Cons.prems(1)] by blast
    obtain outs1 where r: "run_ops push pop ops s1 = (s', ins, outs1)" and outs: "outs = (d, v) # outs1"
      using Cons.prems(3) Pop q by (auto split: prod.splits)
    note c = pop_contents [OF q]
    show ?thesis
    proof (cases "d = k")
      case True
      show ?thesis
      proof (cases p)
        case 0
        with True outs show ?thesis by simp
      next
        case (Suc p')
        have "wait s1 p' < wait s p" using pop_same [of p' s s1 v] Cons.prems(1) q True Suc by simp
        then have "wait s1 p' < pops ops" using Cons.prems(2) Pop by simp
        moreover have "p' < length (contents s1 k)" using Cons.prems(1) c True Suc by simp
        ultimately have "p' < length (of_class k outs1)" using Cons.IH r by blast
        with outs True Suc show ?thesis by simp
      qed
    next
      case False
      have "wait s1 p < pops ops" using pop_other [OF Cons.prems(1) q False] Cons.prems(2) Pop by simp
      moreover have "p < length (contents s1 k)" using Cons.prems(1) c False by simp
      ultimately show ?thesis using Cons.IH [OF _ _ r] outs False by simp
    qed
  qed
qed auto

lemma served_in_order:
  assumes "p < length (contents s k)" and "wait s p < pops ops" and "run_ops push pop ops s = (s', ins, outs)"
  shows "p < length (of_class k outs) \<and> of_class k outs ! p = contents s k ! p"
proof -
  have l: "p < length (of_class k outs)" using assms by (rule served_within)
  have "(of_class k outs @ contents s' k) ! p = (contents s k @ of_class k ins) ! p"
    using run_fifo [OF assms(3)] by simp
  with l assms(1) show ?thesis by (simp add: nth_append)
qed

end

section \<open>The queue implements it\<close>

definition queue_of :: "'t queue_state \<Rightarrow> request_class \<Rightarrow> 't queued list" where
  "queue_of st c = (case c of Interactive \<Rightarrow> interactive st | Batch \<Rightarrow> batch st)"

text \<open>The class \<open>take_next\<close> serves.\<close>

definition served_class :: "'t queue_state \<Rightarrow> request_class" where
  "served_class st =
     (if batch st \<noteq> [] \<and> (interactive st = [] \<or> INTERACTIVE_BURST \<le> interactive_since_batch_waited st)
      then Batch else Interactive)"

definition q_push :: "request_class \<Rightarrow> 't queued \<Rightarrow> 't broker_queue \<Rightarrow> 't broker_queue option" where
  "q_push c v q = (case try_enqueue c (q_value v) (q_deadline v) q of (q', Inr _) \<Rightarrow> Some q' | _ \<Rightarrow> None)"

definition q_pop :: "'t broker_queue \<Rightarrow> ('t broker_queue \<times> request_class \<times> 't queued) option" where
  "q_pop q =
     (case take_next (q_state q) of
        (st, None) \<Rightarrow> None
      | (st, Some queued) \<Rightarrow> Some (q\<lparr>q_state := st\<rparr>, served_class (q_state q), queued))"

lemmas queue_defs = try_enqueue_def take_next_def pop_front_def queue_of_def served_class_def Let_def

lemma q_push_contents:
  "q_push c v q = Some q' \<Longrightarrow> queue_of (q_state q') = (queue_of (q_state q))(c := queue_of (q_state q) c @ [v])"
  by (cases v) (auto simp: q_push_def queue_defs fun_eq_iff split: if_splits request_class.splits)

lemma take_next_contents:
  "take_next st = (st', Some v) \<Longrightarrow>
     queue_of st = (queue_of st')(served_class st := v # queue_of st' (served_class st))"
  by (auto simp: queue_defs fun_eq_iff split: if_splits list.splits request_class.splits)

interpretation bq: class_queue q_push q_pop "\<lambda>q. queue_of (q_state q)"
proof unfold_locales
  show "q_push c v q = Some q' \<Longrightarrow> queue_of (q_state q') = (queue_of (q_state q))(c := queue_of (q_state q) c @ [v])"
    for c v and q q' :: "'a broker_queue"
    by (rule q_push_contents)
  show "q_pop q = Some (q', c, v) \<Longrightarrow> queue_of (q_state q) = (queue_of (q_state q'))(c := v # queue_of (q_state q') c)"
    for q q' :: "'a broker_queue" and c v
    using take_next_contents [of "q_state q"] by (auto simp: q_pop_def split: prod.splits option.splits)
qed

text \<open>The waits: at most eight interactive requests pass a batch, at most one batch an interactive one.\<close>

definition batch_wait :: "'t broker_queue \<Rightarrow> nat \<Rightarrow> nat" where
  "batch_wait q p = 9 * p + (8 - interactive_since_batch_waited (q_state q))"

definition interactive_wait :: "'t broker_queue \<Rightarrow> nat \<Rightarrow> nat" where
  "interactive_wait q p = 2 * p + (if 8 \<le> interactive_since_batch_waited (q_state q) then 1 else 0)"

lemma q_push_counter:
  "q_push c v q = Some q' \<Longrightarrow>
     interactive_since_batch_waited (q_state q') = interactive_since_batch_waited (q_state q)"
  by (auto simp: q_push_def queue_defs split: if_splits request_class.splits)

lemma q_pop_None_iff: "q_pop q = None \<longleftrightarrow> interactive (q_state q) = [] \<and> batch (q_state q) = []"
  by (auto simp: q_pop_def queue_defs split: list.splits)

lemma q_pop_nonempty: "p < length (queue_of (q_state q) c) \<Longrightarrow> \<exists>q' d v. q_pop q = Some (q', d, v)"
  using q_pop_None_iff [of q] by (cases "q_pop q") (auto simp: queue_of_def split: request_class.splits)

interpretation bq_batch: fair_class q_push q_pop "\<lambda>q. queue_of (q_state q)" Batch batch_wait
  by unfold_locales
    (auto simp: batch_wait_def q_push_counter q_pop_nonempty q_pop_def queue_defs INTERACTIVE_BURST_def
      split: if_splits list.splits request_class.splits)

interpretation bq_interactive: fair_class q_push q_pop "\<lambda>q. queue_of (q_state q)" Interactive interactive_wait
  by unfold_locales
    (auto simp: interactive_wait_def q_push_counter q_pop_nonempty q_pop_def queue_defs INTERACTIVE_BURST_def
      split: if_splits list.splits request_class.splits)

section \<open>Capacity\<close>

definition queue_len :: "'t broker_queue \<Rightarrow> nat" where
  "queue_len q = length (interactive (q_state q)) + length (batch (q_state q))"

definition queue_inv :: "'t broker_queue \<Rightarrow> bool" where
  "queue_inv q \<longleftrightarrow> queue_len q \<le> q_capacity q \<and> interactive_since_batch_waited (q_state q) \<le> INTERACTIVE_BURST"

lemma queue_new_inv: "queue_inv (queue_new n)"
  by (simp add: queue_inv_def queue_new_def queue_len_def)

lemma try_enqueue_inv: "queue_inv q \<Longrightarrow> queue_inv (fst (try_enqueue c v d q))"
  by (auto simp: queue_inv_def queue_len_def try_enqueue_def Let_def split: request_class.split)

lemma try_enqueue_len:
  "try_enqueue c v d q = (q', Inr ()) \<Longrightarrow> queue_len q' = Suc (queue_len q)"
  by (auto simp: queue_len_def try_enqueue_def Let_def split: request_class.splits if_splits)

lemma take_next_inv:
  "queue_inv q \<Longrightarrow> queue_inv (q\<lparr>q_state := fst (take_next (q_state q))\<rparr>)"
  by (auto simp: queue_inv_def queue_len_def take_next_def pop_front_def split: list.split)

lemma dequeue_inv: "queue_inv q \<Longrightarrow> queue_inv (fst (dequeue now q))"
  using take_next_inv [of q] by (auto simp: dequeue_def split: prod.splits option.splits)

lemma q_push_inv: "queue_inv q \<Longrightarrow> q_push c v q = Some q' \<Longrightarrow> queue_inv q' \<and> q_capacity q' = q_capacity q"
  using try_enqueue_inv [of q c "q_value v" "q_deadline v"]
  by (auto simp: q_push_def try_enqueue_def Let_def split: prod.splits sum.splits if_splits request_class.splits)

lemma q_pop_inv: "queue_inv q \<Longrightarrow> q_pop q = Some (q', c, v) \<Longrightarrow> queue_inv q' \<and> q_capacity q' = q_capacity q"
  using take_next_inv [of q] by (auto simp: q_pop_def split: prod.splits option.splits)

lemma run_ops_inv:
  assumes "queue_inv q" and "run_ops q_push q_pop ops q = (q', ins, outs)"
  shows "queue_inv q' \<and> q_capacity q' = q_capacity q"
  by (rule run_ops_preserves [OF _ _ _ assms(2), where P = "\<lambda>r. queue_inv r \<and> q_capacity r = q_capacity q"])
    (auto simp: assms(1) dest: q_push_inv q_pop_inv)

section \<open>Properties of the queue\<close>

text \<open>
  C31 (refinement). First in, first out, nothing lost and nothing made up: over any interleaving
  of enqueues and dequeues, for each class, what has been served followed by what still waits
  is what was waiting followed by what was accepted, in order.
\<close>

theorem queue_fifo_no_loss:
  "case run_ops q_push q_pop ops q of (q', ins, outs) \<Rightarrow>
     of_class c outs @ queue_of (q_state q') c = queue_of (q_state q) c @ of_class c ins"
  using bq.run_fifo [of ops q] by (auto split: prod.splits)

text \<open>
  C13 (liveness). No batch request starves: whatever arrives meanwhile, the batch request with
  \<open>p\<close> batches before it is among those served after \<open>9 * (p + 1)\<close> dequeues, and it is the one
  served in its turn.
\<close>

theorem batch_not_starved:
  assumes "p < length (batch (q_state q))" and "9 * (p + 1) \<le> pops ops"
  shows "case run_ops q_push q_pop ops q of (q', ins, outs) \<Rightarrow>
    p < length (of_class Batch outs) \<and> of_class Batch outs ! p = batch (q_state q) ! p"
proof -
  have "batch_wait q p < pops ops" using assms(2) by (simp add: batch_wait_def)
  then show ?thesis
    using bq_batch.served_in_order [of p q ops] assms(1) by (auto simp: queue_of_def split: prod.splits)
qed

definition sample_queue :: "nat broker_queue" where
  "sample_queue =
     \<lparr>q_capacity = 4,
      q_state = \<lparr>interactive = [\<lparr>q_value = 1, q_deadline = 10\<rparr>],
                 batch = [\<lparr>q_value = 2, q_deadline = 10\<rparr>], interactive_since_batch_waited = 8\<rparr>\<rparr>"

theorem batch_not_starved_witness:
  "case run_ops q_push q_pop (replicate 9 Pop) sample_queue of (q', ins, outs) \<Rightarrow>
    0 < length (of_class Batch outs) \<and> of_class Batch outs ! 0 = \<lparr>q_value = 2, q_deadline = 10\<rparr>"
  using batch_not_starved [of 0 sample_queue "replicate 9 Pop"]
  by (simp add: sample_queue_def numeral_eq_Suc)

text \<open>
  Interactive requests go first, one batch at most between two of them: the
  interactive request with \<open>p\<close> interactive ones before it is served within \<open>2 * (p + 1)\<close>
  dequeues, in its turn, whatever arrives meanwhile.
\<close>

lemma interactive_served_promptly:
  assumes "p < length (interactive (q_state q))" and "2 * (p + 1) \<le> pops ops"
  shows "case run_ops q_push q_pop ops q of (q', ins, outs) \<Rightarrow>
    p < length (of_class Interactive outs) \<and> of_class Interactive outs ! p = interactive (q_state q) ! p"
proof -
  have "interactive_wait q p < pops ops" using assms(2) by (simp add: interactive_wait_def)
  then show ?thesis
    using bq_interactive.served_in_order [of p q ops] assms(1) by (auto simp: queue_of_def split: prod.splits)
qed

lemma interactive_served_promptly_witness:
  "case run_ops q_push q_pop [Pop, Pop] sample_queue of (q', ins, outs) \<Rightarrow>
    0 < length (of_class Interactive outs) \<and> of_class Interactive outs ! 0 = \<lparr>q_value = 1, q_deadline = 10\<rparr>"
  using interactive_served_promptly [of 0 sample_queue "[Pop, Pop]"]
  by (simp add: sample_queue_def)

text \<open>
  The queue is bounded: however it is used after \<open>new\<close>, it never holds more
  requests than its capacity, and the burst counter never exceeds the burst.
\<close>

lemma queue_bounded:
  "case run_ops q_push q_pop ops (queue_new n) of (q', ins, outs) \<Rightarrow> queue_inv q' \<and> queue_len q' \<le> n"
  using run_ops_inv [OF queue_new_inv, of ops n]
  by (auto simp: queue_inv_def queue_new_def split: prod.splits)

text \<open>
  An enqueue is refused exactly at capacity and then changes nothing; a dequeue
  waits exactly on an empty queue, and hands a request out as expired exactly when its deadline
  has come.
\<close>

lemma queue_answers:
  "(if q_capacity q \<le> queue_len q then try_enqueue c v d q = (q, Inl Full)
    else snd (try_enqueue c v d q) = Inr ())
   \<and> (snd (dequeue now q) = None \<longleftrightarrow> queue_len q = 0)
   \<and> (case q_pop q of
        None \<Rightarrow> snd (dequeue now q) = None
      | Some (q', cls, x) \<Rightarrow> fst (dequeue now q) = q'
          \<and> (snd (dequeue now q) = Some (DeqExpired (q_value x)) \<longleftrightarrow> q_deadline x \<le> now)
          \<and> (snd (dequeue now q) = Some (DeqReady (q_value x)) \<longleftrightarrow> now < q_deadline x))"
proof (intro conjI)
  show "if q_capacity q \<le> queue_len q then try_enqueue c v d q = (q, Inl Full)
    else snd (try_enqueue c v d q) = Inr ()"
    by (auto simp: try_enqueue_def queue_len_def Let_def split: request_class.split)
  show "snd (dequeue now q) = None \<longleftrightarrow> queue_len q = 0"
    using q_pop_None_iff [of q]
    by (auto simp: dequeue_def q_pop_def queue_len_def split: prod.splits option.splits)
qed (auto simp: dequeue_def q_pop_def split: prod.split option.split)

end
