(* ===== verification/Json.thy ===== *)
theory Json
  imports Prelude
begin

text \<open>
  The JSON values the program exchanges, as \<open>serde_json::Value\<close> represents them.
  \<open>serde_json\<close> is a dependency and not part of the repository: its parser and its printers
  are fields of the record \<open>json_codec\<close>, which every definition that calls them takes as an
  argument. The data type, \<open>Map::get\<close> and \<open>Map::insert\<close> are the documented interface the
  sources are written against: without the \<open>preserve_order\<close> feature (the crate does not
  enable it) a \<open>Map\<close> is a \<open>BTreeMap\<close>, so an object is a list of entries with strictly
  increasing keys.
\<close>

section \<open>Numbers\<close>

text \<open>A \<open>Number\<close> is a \<open>u64\<close>, a negative \<open>i64\<close> or a finite \<open>f64\<close>.\<close>

datatype json_number = PosInt nat | NegInt int | Float rat

fun bit_length :: "nat \<Rightarrow> nat" where
  "bit_length n = (if n = 0 then 0 else Suc (bit_length (n div 2)))"

declare bit_length.simps [simp del]

text \<open>\<open>n as f64\<close>: exact up to 53 significant bits, otherwise rounded to the nearest, ties to even.\<close>

definition nat_as_f64 :: "nat \<Rightarrow> rat" where
  "nat_as_f64 n =
     (if bit_length n \<le> 53 then of_nat n
      else let e = bit_length n - 53; q = n div 2 ^ e; r = n mod 2 ^ e; half = 2 ^ (e - 1)
           in of_nat ((if half < r \<or> r = half \<and> odd q then Suc q else q) * 2 ^ e))"

fun as_f64 :: "json_number \<Rightarrow> rat option" where
  "as_f64 (PosInt n) = Some (nat_as_f64 n)"
| "as_f64 (NegInt i) = Some (- nat_as_f64 (nat (- i)))"
| "as_f64 (Float x) = Some x"

section \<open>Values\<close>

datatype json =
    JNull
  | JBool bool
  | JNumber json_number
  | JString string
  | JArray "json list"
  | JObject "(string \<times> json) list"

type_synonym json_map = "(string \<times> json) list"

definition obj_get :: "json_map \<Rightarrow> string \<Rightarrow> json option" where
  "obj_get m k = map_of m k"

fun obj_insert :: "string \<Rightarrow> json \<Rightarrow> json_map \<Rightarrow> json_map" where
  "obj_insert k v [] = [(k, v)]"
| "obj_insert k v ((k', v') # m) =
     (if k = k' then (k, v) # m
      else if k < k' then (k, v) # (k', v') # m
      else (k', v') # obj_insert k v m)"

definition obj_wf :: "json_map \<Rightarrow> bool" where
  "obj_wf m \<longleftrightarrow> sorted_wrt (<) (map fst m)"

text \<open>The object \<open>json!\<close> builds: one insertion per entry, in source order.\<close>

definition obj_of :: "(string \<times> json) list \<Rightarrow> json_map" where
  "obj_of kvs = foldl (\<lambda>m (k, v). obj_insert k v m) [] kvs"

definition json_obj :: "(string \<times> json) list \<Rightarrow> json" where
  "json_obj kvs = JObject (obj_of kvs)"

text \<open>\<open>json!(n)\<close> for an unsigned integer, and \<open>json!(o)\<close> for an \<open>Option<String>\<close>.\<close>

definition json_nat :: "nat \<Rightarrow> json" where
  "json_nat n = JNumber (PosInt n)"

definition json_opt_str :: "string option \<Rightarrow> json" where
  "json_opt_str x = (case x of None \<Rightarrow> JNull | Some s \<Rightarrow> JString s)"

text \<open>\<open>Value::get\<close> on a string key, and \<open>Value::as_str\<close>.\<close>

definition value_get :: "json \<Rightarrow> string \<Rightarrow> json option" where
  "value_get v k = (case v of JObject m \<Rightarrow> obj_get m k | _ \<Rightarrow> None)"

definition value_as_str :: "json \<Rightarrow> string option" where
  "value_as_str v = (case v of JString s \<Rightarrow> Some s | _ \<Rightarrow> None)"

text \<open>
  The entry points of \<open>serde_json\<close> the program calls: \<open>from_str\<close> and \<open>from_slice\<close> (an error is
  its \<open>Display\<close> text), \<open>Display for Value\<close>, \<open>to_string\<close> on a \<open>#[derive(Serialize)]\<close> structure,
  given as its serialised fields in declaration order, and the value \<open>json!\<close> makes of a vector
  component.
\<close>

record 'f json_codec =
  codec_from_str :: "string \<Rightarrow> (string, json) result"
  codec_from_slice :: "bytes \<Rightarrow> (string, json) result"
  codec_display :: "json \<Rightarrow> string"
  codec_to_string :: "(string \<times> json) list \<Rightarrow> (string, string) result"
  codec_f32 :: "'f \<Rightarrow> json"

section \<open>Objects as maps\<close>

text \<open>
  The interface of an insertion-based map: looking a key up after an insertion, and the
  invariant of the representation. What a whole sequence of insertions gives is proved once
  for every such map.
\<close>

locale object_map =
  fixes empty :: 'm
    and insert :: "'k \<Rightarrow> 'v \<Rightarrow> 'm \<Rightarrow> 'm"
    and get :: "'m \<Rightarrow> 'k \<Rightarrow> 'v option"
    and wf :: "'m \<Rightarrow> bool"
  assumes get_empty: "get empty k = None"
    and get_insert: "get (insert k v m) = (get m)(k \<mapsto> v)"
    and wf_empty: "wf empty"
    and wf_insert: "wf m \<Longrightarrow> wf (insert k v m)"
begin

definition insert_all :: "('k \<times> 'v) list \<Rightarrow> 'm \<Rightarrow> 'm" where
  "insert_all kvs m = foldl (\<lambda>m (k, v). insert k v m) m kvs"

lemma insert_all_Cons: "insert_all ((k, v) # kvs) m = insert_all kvs (insert k v m)"
  by (simp add: insert_all_def)

lemma get_insert_all: "get (insert_all kvs m) = get m ++ map_of (rev kvs)"
proof (induction kvs arbitrary: m)
  case Nil
  then show ?case by (simp add: insert_all_def)
next
  case (Cons kv kvs)
  obtain k v where kv: "kv = (k, v)" by (cases kv)
  show ?case
    by (rule ext) (simp add: kv insert_all_Cons Cons.IH get_insert map_add_def split: option.split)
qed

lemma wf_insert_all: "wf m \<Longrightarrow> wf (insert_all kvs m)"
proof (induction kvs arbitrary: m)
  case Nil
  then show ?case by (simp add: insert_all_def)
next
  case (Cons kv kvs)
  then show ?case by (cases kv) (simp add: insert_all_Cons wf_insert)
qed

lemma get_insert_all_empty: "get (insert_all kvs empty) k = map_of (rev kvs) k"
  by (simp add: get_insert_all map_add_def get_empty split: option.split)

end

lemma fst_obj_insert: "fst ` set (obj_insert k v m) = insert k (fst ` set m)"
  by (induction k v m rule: obj_insert.induct) auto

lemma obj_insert_wf: "obj_wf m \<Longrightarrow> obj_wf (obj_insert k v m)"
proof (induction k v m rule: obj_insert.induct)
  case (1 k v)
  then show ?case by (simp add: obj_wf_def)
next
  case (2 k v k' v' m)
  then have tl: "obj_wf m" and hd: "\<forall>x\<in>fst ` set m. k' < x"
    by (auto simp: obj_wf_def)
  consider "k = k'" | "k < k'" | "k' < k" by (rule linorder_cases)
  then show ?case
  proof cases
    case 1
    with "2.prems" show ?thesis by (simp add: obj_wf_def)
  next
    case c: 2
    then have "\<forall>x\<in>fst ` set m. k < x" using hd by (meson less_trans)
    with c "2.prems" show ?thesis by (simp add: obj_wf_def)
  next
    case c: 3
    then have ne: "k \<noteq> k'" "\<not> k < k'" by auto
    with "2.IH" tl have "obj_wf (obj_insert k v m)" by blast
    moreover have "\<forall>x\<in>fst ` set (obj_insert k v m). k' < x"
      using hd c by (simp add: fst_obj_insert)
    ultimately show ?thesis using ne by (simp add: obj_wf_def)
  qed
qed

lemma obj_get_insert: "obj_get (obj_insert k v m) = (obj_get m)(k \<mapsto> v)"
  by (induction k v m rule: obj_insert.induct) (auto simp: obj_get_def fun_eq_iff)

interpretation btree: object_map "[]" obj_insert obj_get obj_wf
proof unfold_locales
  show "obj_get [] k = None" for k by (simp add: obj_get_def)
  show "obj_get (obj_insert k v m) = (obj_get m)(k \<mapsto> v)" for k v m by (rule obj_get_insert)
  show "obj_wf []" by (simp add: obj_wf_def)
  show "obj_wf m \<Longrightarrow> obj_wf (obj_insert k v m)" for k v m by (rule obj_insert_wf)
qed

lemma obj_of_insert_all: "obj_of kvs = btree.insert_all kvs []"
  by (simp add: obj_of_def btree.insert_all_def)

lemma obj_get_obj_of [simp]: "obj_get (obj_of kvs) k = map_of (rev kvs) k"
  by (simp add: obj_of_insert_all btree.get_insert_all_empty)

lemma obj_wf_obj_of [simp]: "obj_wf (obj_of kvs)"
  by (simp add: obj_of_insert_all btree.wf_insert_all btree.wf_empty)

lemma value_get_json_obj [simp]: "value_get (json_obj kvs) k = map_of (rev kvs) k"
  by (simp add: value_get_def json_obj_def)

section \<open>Numbers equal to one\<close>

lemma nat_as_f64_nonneg: "0 \<le> nat_as_f64 n"
  by (simp add: nat_as_f64_def Let_def del: of_nat_mult of_nat_Suc)

lemma nat_as_f64_one: "nat_as_f64 n = 1 \<longleftrightarrow> n = 1"
proof (cases "bit_length n \<le> 53")
  case True
  then show ?thesis by (simp add: nat_as_f64_def)
next
  case False
  then obtain e where e: "bit_length n - 53 = Suc e" by (cases "bit_length n - 53") auto
  have "\<exists>q'. nat_as_f64 n = of_nat (q' * 2 ^ Suc e)"
    using False e by (auto simp: nat_as_f64_def Let_def)
  then obtain q' where q': "nat_as_f64 n = of_nat (q' * 2 ^ Suc e)" by blast
  have "even (q' * 2 ^ Suc e)" by simp
  then have "q' * 2 ^ Suc e \<noteq> 1" by (metis odd_one)
  then have "nat_as_f64 n \<noteq> 1" unfolding q' by (metis of_nat_1 of_nat_eq_iff)
  moreover have "n \<noteq> 1"
  proof
    assume "n = 1"
    then have "bit_length n = 1" by (simp add: bit_length.simps)
    with False show False by simp
  qed
  ultimately show ?thesis by simp
qed

end
