(* ===== verification/Engine_Trait.thy ===== *)
theory Engine_Trait
  imports Json
begin

text \<open>
  \<open>src/src/engine_trait.rs\<close>: the interface between the wire protocol and an embedding backend.
  The trait \<open>EmbedEngine\<close> is a record of its three methods over a state \<open>'s\<close>, because an
  implementation may have interior mutability (\<open>BrokerEngine\<close> has). \<open>'f\<close> is the type of a
  vector component (\<open>f32\<close> in the program). The contract the trait's comments state, one vector
  of the declared dimension per input, is the locale \<open>honest_engine\<close>.
\<close>

section \<open>Definitions\<close>

datatype role = Query | Document

record 'f embed_output =
  out_dims :: nat
  out_vectors :: "'f list list"

datatype engine_failure_class = Application | ResourceExhausted

record engine_error =
  err_kind :: string
  err_message :: string
  failure_class :: engine_failure_class

definition engine_error_new :: "string \<Rightarrow> string \<Rightarrow> engine_error" where
  "engine_error_new kind message =
     \<lparr>err_kind = kind, err_message = message, failure_class = Application\<rparr>"

definition engine_error_resource_exhausted :: "string \<Rightarrow> string \<Rightarrow> engine_error" where
  "engine_error_resource_exhausted kind message =
     \<lparr>err_kind = kind, err_message = message, failure_class = ResourceExhausted\<rparr>"

definition engine_error_display :: "engine_error \<Rightarrow> string" where
  "engine_error_display e = err_kind e @ '': '' @ err_message e"

record ('s, 'f) embed_engine =
  health_facts :: "'s \<Rightarrow> (engine_error, json) result"
  is_accelerated :: "'s \<Rightarrow> bool"
  embed :: "'s \<Rightarrow> string list \<Rightarrow> role \<Rightarrow> 's \<times> (engine_error, 'f embed_output) result"

text \<open>The default method body of the trait.\<close>

definition is_accelerated_default :: "'s \<Rightarrow> bool" where
  "is_accelerated_default s = False"

text \<open>\<open>UnreadyEngine\<close>: its state is the reason it was built with.\<close>

record unready_engine =
  unready_reason :: string

definition unready_new :: "string \<Rightarrow> unready_engine" where
  "unready_new reason = \<lparr>unready_reason = reason\<rparr>"

definition unready_health_facts :: "unready_engine \<Rightarrow> (engine_error, json) result" where
  "unready_health_facts e =
     Inr (json_obj [(''ready'', JBool False), (''degraded_reason'', JString (unready_reason e))])"

definition unready_embed ::
  "unready_engine \<Rightarrow> string list \<Rightarrow> role \<Rightarrow> unready_engine \<times> (engine_error, 'f embed_output) result" where
  "unready_embed e texts r = (e, Inl (engine_error_new ''EngineNotReady'' (unready_reason e)))"

definition unready_ops :: "(unready_engine, 'f) embed_engine" where
  "unready_ops =
     \<lparr>health_facts = unready_health_facts, is_accelerated = is_accelerated_default, embed = unready_embed\<rparr>"

section \<open>The contract of an engine\<close>

definition output_honest :: "string list \<Rightarrow> 'f embed_output \<Rightarrow> bool" where
  "output_honest texts out \<longleftrightarrow>
     length (out_vectors out) = length texts \<and> list_all (\<lambda>v. length v = out_dims out) (out_vectors out)"

definition health_object :: "json \<Rightarrow> bool" where
  "health_object v \<longleftrightarrow> (case v of JObject m \<Rightarrow> obj_wf m | _ \<Rightarrow> False)"

locale honest_engine =
  fixes E :: "('s, 'f) embed_engine"
    and ok :: "'s \<Rightarrow> bool"
  assumes embed_honest: "ok s \<Longrightarrow> embed E s texts r = (s', Inr out) \<Longrightarrow> output_honest texts out"
    and embed_keeps: "ok s \<Longrightarrow> ok (fst (embed E s texts r))"
    and health_is_object: "ok s \<Longrightarrow> health_facts E s = Inr v \<Longrightarrow> health_object v"
begin

lemma embed_result:
  assumes "ok s" and "embed E s texts r = (s', res)"
  shows "ok s' \<and> (\<forall>out. res = Inr out \<longrightarrow> output_honest texts out)"
  using assms embed_keeps [of s texts r] embed_honest [of s texts r] by auto

lemma embed_query_single:
  assumes "ok s" and "embed E s [t] r = (s', Inr out)"
  shows "\<exists>v. out_vectors out = [v] \<and> length v = out_dims out"
proof -
  have "output_honest [t] out" using assms by (rule embed_honest)
  then have "length (out_vectors out) = 1" by (simp add: output_honest_def)
  then obtain v where "out_vectors out = [v]" by (metis One_nat_def length_0_conv length_Suc_conv)
  with \<open>output_honest [t] out\<close> show ?thesis by (simp add: output_honest_def)
qed

end

interpretation unready: honest_engine unready_ops "\<lambda>_. True"
  by unfold_locales
    (auto simp: unready_ops_def unready_embed_def unready_health_facts_def health_object_def json_obj_def)

end
