(* ===== verification/Encode.thy ===== *)
theory Encode
  imports Engine_Trait
begin

text \<open>
  The model-independent part of \<open>src/src/engine.rs\<close>: grouping the tokenized inputs under the
  context-cell budget, isolating the inputs of a failed group by bisection, and the arithmetic
  of the served lane. An encode operation may act on the outside world (it allocates a context
  in native memory), so it is a function that threads a state \<open>'x\<close>; \<open>f32\<close> arithmetic is the
  record \<open>float_ops\<close>, instantiated by the reals where a claim is about exact arithmetic.
\<close>

section \<open>Definitions\<close>

type_synonym llama_token = int

definition group_step ::
  "nat \<Rightarrow> nat \<Rightarrow> 'a list list list \<times> 'a list list \<times> nat \<Rightarrow> 'a list \<Rightarrow> 'a list list list \<times> 'a list list \<times> nat" where
  "group_step budget max_sequences acc tokens =
     (case acc of (groups, current, current_max) \<Rightarrow>
        let next_max = max current_max (length tokens);
            (groups, current, current_max) =
              (if current \<noteq> [] \<and> (max_sequences \<le> length current \<or> budget < next_max * (length current + 1))
               then (groups @ [current], [], 0)
               else (groups, current, current_max))
        in (groups, current @ [tokens], max current_max (length tokens)))"

definition group_by_cell_budget :: "'a list list \<Rightarrow> nat \<Rightarrow> nat \<Rightarrow> 'a list list list" where
  "group_by_cell_budget inputs budget max_sequences =
     (case foldl (group_step budget (max max_sequences 1)) ([], [], 0) inputs of
        (groups, current, current_max) \<Rightarrow> if current \<noteq> [] then groups @ [current] else groups)"

datatype encode_failure = ItemFailure | Systemic engine_error

definition systemic :: "string \<Rightarrow> string \<Rightarrow> encode_failure" where
  "systemic kind message = Systemic (engine_error_new kind message)"

definition resource_exhausted :: "string \<Rightarrow> string \<Rightarrow> encode_failure" where
  "resource_exhausted kind message = Systemic (engine_error_resource_exhausted kind message)"

record encode_shape =
  shape_total_tokens :: nat
  shape_n_ctx :: nat
  shape_n_batch :: nat
  shape_n_ubatch :: nat
  shape_n_seq :: nat

definition encode_shape_display :: "encode_shape \<Rightarrow> string" where
  "encode_shape_display s =
     ''tokens='' @ show_nat (shape_total_tokens s) @ '' n_ctx='' @ show_nat (shape_n_ctx s)
     @ '' n_batch='' @ show_nat (shape_n_batch s) @ '' n_ubatch='' @ show_nat (shape_n_ubatch s)
     @ '' n_seq='' @ show_nat (shape_n_seq s)"

text \<open>The errors of \<open>llama_encode\<close> and \<open>llama_decode\<close>; every other one is its \<open>Display\<close> text.\<close>

datatype llama_run_error = NoKvCacheSlot | NTokensZero | OtherRunError string

definition decode_failure :: "llama_run_error \<Rightarrow> encode_shape \<Rightarrow> encode_failure" where
  "decode_failure err shape =
     (case err of
        NoKvCacheSlot \<Rightarrow> ItemFailure
      | NTokensZero \<Rightarrow> ItemFailure
      | OtherRunError other \<Rightarrow> systemic ''Decode'' (other @ '' ('' @ encode_shape_display shape @ '')''))"

definition encode_failure_of :: "llama_run_error \<Rightarrow> encode_shape \<Rightarrow> encode_failure" where
  "encode_failure_of err shape =
     (case err of
        NoKvCacheSlot \<Rightarrow> ItemFailure
      | NTokensZero \<Rightarrow> ItemFailure
      | OtherRunError other \<Rightarrow> systemic ''Encode'' (other @ '' ('' @ encode_shape_display shape @ '')''))"

text \<open>The match of \<open>isolate\<close> on the result of an attempt: return, propagate, or fall through.\<close>

datatype 'f attempt = Encoded "'f list list" | Abort engine_error | Bisect

definition attempt_of :: "nat \<Rightarrow> (encode_failure, 'f list list) result \<Rightarrow> 'f attempt" where
  "attempt_of n res =
     (case res of
        Inr vectors \<Rightarrow> if length vectors = n then Encoded vectors else Bisect
      | Inl ItemFailure \<Rightarrow> Bisect
      | Inl (Systemic err) \<Rightarrow> Abort err)"

function isolate ::
  "'f \<Rightarrow> ('x \<Rightarrow> 'a list \<Rightarrow> 'x \<times> (encode_failure, 'f list list) result) \<Rightarrow> nat \<Rightarrow> 'a list \<Rightarrow> 'x
     \<Rightarrow> 'x \<times> (engine_error, 'f list list) result" where
  "isolate zero encode dims items x =
     (if items = [] then (x, Inr [])
      else
        case encode x items of
          (x1, res) \<Rightarrow>
            (case attempt_of (length items) res of
               Encoded vectors \<Rightarrow> (x1, Inr vectors)
             | Abort err \<Rightarrow> (x1, Inl err)
             | Bisect \<Rightarrow>
                 if length items = 1 then (x1, Inr [replicate dims zero])
                 else
                   (let mid = length items div 2
                    in case isolate zero encode dims (take mid items) x1 of
                         (x2, Inl err) \<Rightarrow> (x2, Inl err)
                       | (x2, Inr vectors) \<Rightarrow>
                           (case isolate zero encode dims (drop mid items) x2 of
                              (x3, Inl err) \<Rightarrow> (x3, Inl err)
                            | (x3, Inr rest) \<Rightarrow> (x3, Inr (vectors @ rest))))))"
  by pat_completeness auto
termination
proof (relation "measure (\<lambda>(zero, encode, dims, items, x). length items)", goal_cases)
  case (2 zero encode dims items x)
  then show ?case by (cases items) (auto simp: Suc_le_eq min_def)
next
  case 3
  then show ?case by (auto simp: neq_Nil_conv)
qed simp

declare isolate.simps [simp del]

record 'f float_ops =
  f_zero :: 'f
  f_add :: "'f \<Rightarrow> 'f \<Rightarrow> 'f"
  f_mul :: "'f \<Rightarrow> 'f \<Rightarrow> 'f"
  f_div :: "'f \<Rightarrow> 'f \<Rightarrow> 'f"
  f_sqrt :: "'f \<Rightarrow> 'f"
  f_is_finite :: "'f \<Rightarrow> bool"
  f_le :: "'f \<Rightarrow> 'f \<Rightarrow> bool"

definition l2_norm :: "'f float_ops \<Rightarrow> 'f list \<Rightarrow> 'f" where
  "l2_norm F v = f_sqrt F (foldl (f_add F) (f_zero F) (map (\<lambda>x. f_mul F x x) v))"

definition l2_normalize :: "'f float_ops \<Rightarrow> 'f list \<Rightarrow> 'f list option" where
  "l2_normalize F v =
     (let norm = l2_norm F v
      in if \<not> f_is_finite F norm \<or> f_le F norm (f_zero F) then None
         else Some (map (\<lambda>x. f_div F x norm) v))"

text \<open>\<open>serve_lane\<close>, with the pin's \<open>serve_dims\<close> as an argument.\<close>

definition serve_lane :: "'f float_ops \<Rightarrow> nat \<Rightarrow> 'f list \<Rightarrow> 'f list option" where
  "serve_lane F dims raw =
     (if length raw < dims then None
      else
        case l2_normalize F raw of
          None \<Rightarrow> None
        | Some vector \<Rightarrow> l2_normalize F (take dims vector))"

section \<open>Grouping\<close>

definition longest :: "'a list list \<Rightarrow> nat" where
  "longest g = foldr max (map length g) 0"

lemma longest_simps [simp]: "longest [] = 0" "longest (t # g) = max (length t) (longest g)"
  by (simp_all add: longest_def)

lemma longest_append [simp]: "longest (g @ h) = max (longest g) (longest h)"
  by (induction g) (auto simp: max.assoc)

lemma longest_member: "t \<in> set g \<Longrightarrow> length t \<le> longest g"
  by (induction g) auto

text \<open>What the encoder can accept: within the cell budget and the sequence limit, or a lone input.\<close>

definition group_ok :: "nat \<Rightarrow> nat \<Rightarrow> 'a list list \<Rightarrow> bool" where
  "group_ok budget ms g \<longleftrightarrow>
     g \<noteq> [] \<and> length g \<le> ms \<and> (length g = 1 \<or> longest g * length g \<le> budget)"

definition group_acc_ok :: "nat \<Rightarrow> nat \<Rightarrow> 'a list list \<Rightarrow> 'a list list list \<times> 'a list list \<times> nat \<Rightarrow> bool" where
  "group_acc_ok budget ms seen acc \<longleftrightarrow>
     (case acc of (groups, current, m) \<Rightarrow>
        concat groups @ current = seen \<and> (\<forall>g\<in>set groups. group_ok budget ms g)
        \<and> m = longest current \<and> (current \<noteq> [] \<longrightarrow> group_ok budget ms current))"

lemma group_step_ok:
  assumes "group_acc_ok budget ms seen acc" and "0 < ms"
  shows "group_acc_ok budget ms (seen @ [t]) (group_step budget ms acc t)"
proof -
  obtain groups current m where acc: "acc = (groups, current, m)" using prod_cases3 by blast
  show ?thesis
    using assms unfolding acc
    by (cases "current = []")
      (auto simp: group_acc_ok_def group_step_def group_ok_def Let_def not_less not_le max.commute)
qed

lemma group_fold_ok:
  "0 < ms \<Longrightarrow> group_acc_ok budget ms seen acc \<Longrightarrow>
     group_acc_ok budget ms (seen @ inputs) (foldl (group_step budget ms) acc inputs)"
proof (induction inputs arbitrary: seen acc)
  case (Cons t inputs)
  then show ?case using group_step_ok [of budget ms seen acc t] by fastforce
qed simp

lemma group_by_cell_budget_ok:
  "concat (group_by_cell_budget inputs budget ms) = inputs
   \<and> (\<forall>g\<in>set (group_by_cell_budget inputs budget ms). group_ok budget (max ms 1) g)"
proof -
  have "group_acc_ok budget (max ms 1) ([] @ inputs) (foldl (group_step budget (max ms 1)) ([], [], 0) inputs)"
    by (rule group_fold_ok) (auto simp: group_acc_ok_def)
  then show ?thesis
    by (auto simp: group_acc_ok_def group_by_cell_budget_def split: prod.splits)
qed

section \<open>Isolation\<close>

text \<open>
  The cases of \<open>isolate\<close>, as a rule for statements about its result: nothing to do, a group
  encoded as a whole, a systemic failure, a lone poison input, and the two halves.
\<close>

lemma isolate_rule [consumes 1, case_names empty encoded abort poison left right]:
  assumes "isolate zero encode dims items x = (x', r)"
    and "\<And>x. P [] x x (Inr [])"
    and "\<And>items x x1 res vs. items \<noteq> [] \<Longrightarrow> encode x items = (x1, res) \<Longrightarrow>
      attempt_of (length items) res = Encoded vs \<Longrightarrow> P items x x1 (Inr vs)"
    and "\<And>items x x1 res e. items \<noteq> [] \<Longrightarrow> encode x items = (x1, res) \<Longrightarrow>
      attempt_of (length items) res = Abort e \<Longrightarrow> P items x x1 (Inl e)"
    and "\<And>a x x1 res. encode x [a] = (x1, res) \<Longrightarrow> attempt_of 1 res = Bisect \<Longrightarrow>
      P [a] x x1 (Inr [replicate dims zero])"
    and "\<And>items x x1 x2 res e. 2 \<le> length items \<Longrightarrow> encode x items = (x1, res) \<Longrightarrow>
      attempt_of (length items) res = Bisect \<Longrightarrow> P (take (length items div 2) items) x1 x2 (Inl e) \<Longrightarrow>
      P items x x2 (Inl e)"
    and "\<And>items x x1 x2 x3 res vs r. 2 \<le> length items \<Longrightarrow> encode x items = (x1, res) \<Longrightarrow>
      attempt_of (length items) res = Bisect \<Longrightarrow> P (take (length items div 2) items) x1 x2 (Inr vs) \<Longrightarrow>
      P (drop (length items div 2) items) x2 x3 r \<Longrightarrow>
      P items x x3 (case r of Inl e \<Rightarrow> Inl e | Inr ws \<Rightarrow> Inr (vs @ ws))"
  shows "P items x x' r"
  using assms(1)
proof (induction "length items" arbitrary: items x x' r rule: less_induct)
  case less
  note run = less.prems [unfolded isolate.simps [of zero encode dims items x]]
  show ?case
  proof (cases "items = []")
    case True
    with run assms(2) [of x] show ?thesis by simp
  next
    case ne: False
    obtain x1 res where e: "encode x items = (x1, res)" by (cases "encode x items")
    show ?thesis
    proof (cases "attempt_of (length items) res")
      case (Encoded vs)
      with run ne e assms(3) [OF ne e Encoded] show ?thesis by simp
    next
      case (Abort err)
      with run ne e assms(4) [OF ne e Abort] show ?thesis by simp
    next
      case Bisect
      show ?thesis
      proof (cases "length items = 1")
        case True
        then obtain a where "items = [a]" by (cases items) auto
        with run e Bisect assms(5) [of x a x1 res] show ?thesis by simp
      next
        case False
        with ne have two: "2 \<le> length items" by (cases items) (auto simp: Suc_le_eq)
        obtain x2 r1 where l: "isolate zero encode dims (take (length items div 2) items) x1 = (x2, r1)"
          by (cases "isolate zero encode dims (take (length items div 2) items) x1")
        have "length (take (length items div 2) items) < length items"
          "length (drop (length items div 2) items) < length items" using two by auto
        note IH = less.hyps [OF this(1) l] less.hyps [OF this(2)]
        show ?thesis
        proof (cases r1)
          case (Inl err)
          then have "x' = x2 \<and> r = Inl err" using run ne e Bisect False l by simp
          with assms(6) [OF two e Bisect IH(1) [unfolded Inl]] show ?thesis by simp
        next
          case (Inr vs)
          obtain x3 r2 where rt: "isolate zero encode dims (drop (length items div 2) items) x2 = (x3, r2)"
            by (cases "isolate zero encode dims (drop (length items div 2) items) x2")
          have "P items x x3 (case r2 of Inl e \<Rightarrow> Inl e | Inr ws \<Rightarrow> Inr (vs @ ws))"
            using assms(7) [OF two e Bisect IH(1) [unfolded Inr] IH(2) [OF rt]] .
          moreover have "x' = x3 \<and> r = (case r2 of Inl e \<Rightarrow> Inl e | Inr ws \<Rightarrow> Inr (vs @ ws))"
            using run ne e Bisect False l Inr rt by (auto split: sum.splits)
          ultimately show ?thesis by simp
        qed
      qed
    qed
  qed
qed

lemma attempt_of_simps:
  "attempt_of n res = Encoded vs \<longleftrightarrow> res = Inr vs \<and> length vs = n"
  "attempt_of n res = Abort e \<longleftrightarrow> res = Inl (Systemic e)"
  "attempt_of n res = Bisect \<longleftrightarrow> res = Inl ItemFailure \<or> (\<exists>vs. res = Inr vs \<and> length vs \<noteq> n)"
  by (auto simp: attempt_of_def split: sum.splits encode_failure.splits if_splits)

lemma isolate_length:
  assumes "isolate zero encode dims items x = (x', r)"
  shows "case r of Inr vs \<Rightarrow> length vs = length items | Inl e \<Rightarrow> True"
  using assms
  by (induction rule: isolate_rule) (auto simp: attempt_of_simps split: sum.splits)

text \<open>Vectors of the declared dimension come out when the encoder only makes such vectors.\<close>

lemma isolate_dims:
  assumes "isolate zero encode dims items x = (x', r)"
    and "\<And>x gs x1 vs. encode x gs = (x1, Inr vs) \<Longrightarrow> list_all (\<lambda>v. length v = dims) vs"
  shows "case r of Inr vs \<Rightarrow> list_all (\<lambda>v. length v = dims) vs | Inl e \<Rightarrow> True"
  using assms(1)
  by (induction rule: isolate_rule) (auto simp: attempt_of_simps assms(2) split: sum.splits)

text \<open>An error is one the encoder raised as systemic.\<close>

lemma isolate_error:
  assumes "isolate zero encode dims items x = (x', r)"
  shows "case r of Inl e \<Rightarrow> (\<exists>y gs y1. gs \<noteq> [] \<and> set gs \<subseteq> set items \<and> encode y gs = (y1, Inl (Systemic e))) | Inr vs \<Rightarrow> True"
  using assms
proof (induction rule: isolate_rule)
  case (abort items x x1 res e)
  then show ?case by (auto simp: attempt_of_simps)
next
  case (left items x x1 x2 res e)
  then show ?case by simp (meson in_set_takeD order_trans subsetI)
next
  case (right items x x1 x2 x3 res vs r)
  then show ?case by (cases r) (simp, meson in_set_dropD order_trans subsetI, simp)
qed auto

lemma length_take_le: "length (take n xs) \<le> length xs"
  by simp

lemma length_drop_le: "length (drop n xs) \<le> length xs"
  by simp

text \<open>What every attempt on a part of the items keeps, the whole search keeps.\<close>

lemma isolate_preserves:
  assumes "isolate zero encode dims items x = (x', r)"
    and "\<And>x gs. P x \<Longrightarrow> set gs \<subseteq> set items \<Longrightarrow> length gs \<le> length items \<Longrightarrow> P (fst (encode x gs))"
    and "P x"
  shows "P x'"
  using assms
proof (induction rule: isolate_rule)
  case (encoded items x x1 res vs)
  then show ?case using encoded(4) [of x items] by simp
next
  case (abort items x x1 res e)
  then show ?case using abort(4) [of x items] by simp
next
  case (poison a x x1 res)
  then show ?case using poison(3) [of x "[a]"] by simp
next
  case (left items x x1 x2 res e)
  have "P x1" using left(5) [of x items] left(2,6) by simp
  then show ?case
    using left(4) left(5) set_take_subset [of "length items div 2" items] by (meson dual_order.trans length_take_le)
next
  case (right items x x1 x2 x3 res vs r)
  have "P x1" using right(6) [of x items] right(2,7) by simp
  then have "P x2"
    using right(4) right(6) set_take_subset [of "length items div 2" items] by (meson dual_order.trans length_take_le)
  then show ?case
    using right(5) right(6) set_drop_subset [of "length items div 2" items] by (meson dual_order.trans length_drop_le)
qed

text \<open>
  The reference: one encode per input, a zero vector for a poison one. A group of an item-wise
  encoder fails exactly when it holds a poison input.
\<close>

definition itemwise ::
  "('a \<Rightarrow> bool) \<Rightarrow> ('a \<Rightarrow> 'f list) \<Rightarrow> 'x \<Rightarrow> 'a list \<Rightarrow> 'x \<times> (encode_failure, 'f list list) result" where
  "itemwise poison vec x items = (x, if list_ex poison items then Inl ItemFailure else Inr (map vec items))"

lemma isolate_itemwise:
  "isolate zero (itemwise poison vec) dims items x
     = (x, Inr (map (\<lambda>a. if poison a then replicate dims zero else vec a) items))"
proof -
  obtain x' r where run: "isolate zero (itemwise poison vec) dims items x = (x', r)"
    by (cases "isolate zero (itemwise poison vec) dims items x")
  then have "x' = x \<and> r = Inr (map (\<lambda>a. if poison a then replicate dims zero else vec a) items)"
  proof (induction rule: isolate_rule)
    case (encoded items x x1 res vs)
    then have "\<not> list_ex poison items" "x1 = x" "vs = map vec items"
      by (auto simp: itemwise_def attempt_of_simps split: if_splits)
    then show ?case by (auto simp: list_ex_iff)
  next
    case (abort items x x1 res e)
    then show ?case by (auto simp: itemwise_def attempt_of_simps split: if_splits)
  next
    case (right items x x1 x2 x3 res vs r)
    have "x1 = x" using right(2) by (simp add: itemwise_def)
    with right(4,5) show ?case by (simp flip: map_append)
  qed (auto simp: itemwise_def attempt_of_simps split: if_splits)
  with run show ?thesis by simp
qed

text \<open>Counting the encodes: the state is the number of calls so far.\<close>

definition counted ::
  "('a list \<Rightarrow> (encode_failure, 'f list list) result) \<Rightarrow> nat \<Rightarrow> 'a list \<Rightarrow> nat \<times> (encode_failure, 'f list list) result" where
  "counted encode n items = (Suc n, encode items)"

definition poison_encode :: "('a \<Rightarrow> bool) \<Rightarrow> ('a \<Rightarrow> 'f list) \<Rightarrow> 'a list \<Rightarrow> (encode_failure, 'f list list) result" where
  "poison_encode poison vec items = snd (itemwise poison vec () items)"

lemma isolate_counted_ok:
  "\<exists>m vs. isolate zero (counted (poison_encode poison vec)) dims items n = (m, Inr vs)"
proof -
  obtain m r where run: "isolate zero (counted (poison_encode poison vec)) dims items n = (m, r)"
    by (cases "isolate zero (counted (poison_encode poison vec)) dims items n")
  with isolate_error [OF run] show ?thesis
    by (cases r) (auto simp: counted_def poison_encode_def itemwise_def split: if_splits)
qed

lemma isolate_counted_clean:
  assumes "items \<noteq> []" and "\<not> list_ex poison items"
  shows "fst (isolate zero (counted (poison_encode poison vec)) dims items n) = Suc n"
  using assms
  by (subst isolate.simps) (simp add: counted_def poison_encode_def itemwise_def attempt_of_def)

lemma isolate_counted_split:
  assumes "2 \<le> length items" and "list_ex poison items"
  shows "fst (isolate zero (counted (poison_encode poison vec)) dims items n)
    = fst (isolate zero (counted (poison_encode poison vec)) dims (drop (length items div 2) items)
        (fst (isolate zero (counted (poison_encode poison vec)) dims (take (length items div 2) items) (Suc n))))"
proof -
  let ?iso = "isolate zero (counted (poison_encode poison vec)) dims"
  obtain m1 v1 where l: "?iso (take (length items div 2) items) (Suc n) = (m1, Inr v1)"
    using isolate_counted_ok [of zero poison vec dims "take (length items div 2) items" "Suc n"] by fast
  obtain m2 v2 where r: "?iso (drop (length items div 2) items) m1 = (m2, Inr v2)"
    using isolate_counted_ok [of zero poison vec dims "drop (length items div 2) items" m1] by fast
  have "items \<noteq> []" "length items \<noteq> 1" using assms(1) by auto
  moreover have "attempt_of (length items) (poison_encode poison vec items) = Bisect"
    using assms(2) by (simp add: poison_encode_def itemwise_def attempt_of_def)
  ultimately show ?thesis
    using l r by (subst isolate.simps) (simp add: counted_def [of "poison_encode poison vec" n])
qed

lemma isolate_counted:
  assumes "length (filter poison items) \<le> 1" and "length items \<le> 2 ^ L"
  shows "fst (isolate zero (counted (poison_encode poison vec)) dims items n) \<le> n + 2 * L + 1"
  using assms
proof (induction L arbitrary: items n)
  case 0
  then show ?case
    by (cases items) (auto simp: isolate.simps counted_def poison_encode_def itemwise_def attempt_of_def)
next
  case (Suc L)
  let ?iso = "isolate zero (counted (poison_encode poison vec)) dims"
  let ?mid = "length items div 2"
  consider "items = []" | "items \<noteq> []" "\<not> list_ex poison items" | "length items = 1"
    | "2 \<le> length items" "list_ex poison items"
    by (cases items) (auto simp: Suc_le_eq)
  then show ?case
  proof cases
    case 1
    then show ?thesis by (simp add: isolate.simps)
  next
    case 2
    then show ?thesis by (simp add: isolate_counted_clean)
  next
    case 3
    then have "length items \<le> 2 ^ L" by simp
    then show ?thesis using Suc.IH [of items n] Suc.prems(1) by simp
  next
    case 4
    define A where "A = take ?mid items"
    define B where "B = drop ?mid items"
    have AB: "A @ B = items" by (simp add: A_def B_def)
    have len: "length A \<le> 2 ^ L" "length B \<le> 2 ^ L" and ne: "A \<noteq> []" "B \<noteq> []"
      using 4(1) Suc.prems(2) by (auto simp: A_def B_def)
    have le: "length (filter poison A) + length (filter poison B) \<le> 1"
      using Suc.prems(1) by (simp add: AB [symmetric])
    note split = isolate_counted_split [OF 4, of zero vec dims n, folded A_def B_def]
    show ?thesis
    proof (cases "list_ex poison A")
      case True
      then have "length (filter poison A) \<noteq> 0" by (auto simp: list_ex_iff filter_empty_conv)
      with le have "length (filter poison B) = 0" by linarith
      then have "\<not> list_ex poison B" by (auto simp: list_ex_iff filter_empty_conv)
      then have "fst (?iso items n) = Suc (fst (?iso A (Suc n)))"
        using split isolate_counted_clean [OF ne(2)] by simp
      with Suc.IH [of A "Suc n"] le len show ?thesis by simp
    next
      case False
      then have "fst (?iso items n) = fst (?iso B (Suc (Suc n)))"
        using split by (simp only: isolate_counted_clean [OF ne(1) False])
      with Suc.IH [of B "Suc (Suc n)"] le len show ?thesis by simp
    qed
  qed
qed

section \<open>The served lane in exact arithmetic\<close>

definition real_ops :: "real float_ops" where
  "real_ops =
     \<lparr>f_zero = 0, f_add = (+), f_mul = (*), f_div = (/), f_sqrt = sqrt, f_is_finite = (\<lambda>x. True), f_le = (\<le>)\<rparr>"

definition norm2 :: "real list \<Rightarrow> real" where
  "norm2 v = sqrt (\<Sum>x\<leftarrow>v. x * x)"

lemma foldl_add: "foldl (+) (a::real) xs = a + sum_list xs"
  by (induction xs arbitrary: a) auto

lemma l2_norm_real: "l2_norm real_ops v = norm2 v"
  by (simp add: l2_norm_def real_ops_def norm2_def foldl_add)

lemma squares_nonneg [simp]: "0 \<le> (\<Sum>x\<leftarrow>v. x * x :: real)"
  by (induction v) auto

lemma norm2_nonneg [simp]: "0 \<le> norm2 v"
  by (simp add: norm2_def)

lemma norm2_scale: "0 < c \<Longrightarrow> norm2 (map (\<lambda>x. x / c) v) = norm2 v / c"
proof -
  assume c: "0 < c"
  have "(\<Sum>x\<leftarrow>v. x / c * (x / c)) = (\<Sum>x\<leftarrow>v. x * x) / (c * c)"
    by (induction v) (simp_all add: add_divide_distrib)
  with c show ?thesis by (simp add: norm2_def o_def real_sqrt_divide real_sqrt_mult)
qed

lemma l2_normalize_real:
  "l2_normalize real_ops v = (if norm2 v = 0 then None else Some (map (\<lambda>x. x / norm2 v) v))"
proof -
  have "norm2 v \<le> 0 \<longleftrightarrow> norm2 v = 0" using norm2_nonneg [of v] by linarith
  then show ?thesis by (simp add: l2_normalize_def l2_norm_real Let_def) (simp add: real_ops_def)
qed

lemma norm2_take: "norm2 (take n v) \<le> norm2 v"
proof -
  have "(\<Sum>x\<leftarrow>v. x * x) = (\<Sum>x\<leftarrow>take n v. x * x) + (\<Sum>x\<leftarrow>drop n v. x * x)"
    by (metis append_take_drop_id map_append sum_list_append)
  moreover have "0 \<le> (\<Sum>x\<leftarrow>drop n v. x * x)" by simp
  ultimately show ?thesis by (simp add: norm2_def)
qed

lemma serve_lane_real:
  assumes "dims \<le> length raw" and "norm2 (take dims raw) \<noteq> 0"
  shows "serve_lane real_ops dims raw = Some (map (\<lambda>x. x / norm2 (take dims raw)) (take dims raw))"
proof -
  have pos: "0 < norm2 (take dims raw)" using assms(2) norm2_nonneg [of "take dims raw"] by linarith
  then have pos': "0 < norm2 raw" using norm2_take [of dims raw] by linarith
  then show ?thesis
    using assms pos norm2_scale [OF pos', of "take dims raw"]
    by (simp add: serve_lane_def l2_normalize_real take_map)
qed

lemma serve_lane_length: "serve_lane F dims raw = Some v \<Longrightarrow> length v = dims"
  by (auto simp: serve_lane_def l2_normalize_def Let_def split: if_splits option.splits)

section \<open>Properties of grouping and isolation\<close>

text \<open>
  Grouping loses, repeats and reorders nothing, and every group can be given
  to the encoder: it is not empty, it has at most \<open>max_sequences\<close> members (at least one is
  allowed), and either it is a lone input or its context cells, the longest member times the
  number of members, stay within the budget.
\<close>

lemma grouping_partitions:
  "concat (group_by_cell_budget inputs budget ms) = inputs
   \<and> list_all (group_ok budget (max ms 1)) (group_by_cell_budget inputs budget ms)"
  using group_by_cell_budget_ok [of inputs budget ms] by (simp add: list_all_iff)

text \<open>
  C16 (equivalence). Bisection is an optimisation only: for an encoder that fails on a group
  exactly when the group holds a poison input, \<open>isolate\<close> returns what encoding the inputs one
  by one would, with a zero vector of the declared dimension for each poison input.
\<close>

theorem isolate_is_itemwise:
  "isolate zero (itemwise poison vec) dims items x
     = (x, Inr (map (\<lambda>a. if poison a then replicate dims zero else vec a) items))"
  by (rule isolate_itemwise)

text \<open>
  For any encoder whatever, deterministic or not, \<open>isolate\<close> answers one vector per
  input or an error that the encoder itself raised as systemic on some of these inputs: a
  broken backend is never reported as a batch of zero vectors at the attempt that shows it,
  and no input is dropped.
\<close>

lemma isolate_complete_or_systemic:
  "case snd (isolate zero encode dims items x) of
     Inr vs \<Rightarrow> length vs = length items
   | Inl e \<Rightarrow> \<exists>y gs y1. gs \<noteq> [] \<and> set gs \<subseteq> set items \<and> encode y gs = (y1, Inl (Systemic e))"
  using isolate_length [of zero encode dims items x] isolate_error [of zero encode dims items x]
  by (cases "isolate zero encode dims items x") (auto split: sum.splits)

text \<open>
  The cost of one poison input is logarithmic: at most \<open>2 * L + 1\<close> encodes for a
  batch of at most \<open>2 ^ L\<close> inputs with at most one poison among them.
\<close>

lemma isolate_cost:
  assumes "length (filter poison items) \<le> 1" and "length items \<le> 2 ^ L"
  shows "fst (isolate zero (counted (poison_encode poison vec)) dims items 0) \<le> 2 * L + 1"
  using isolate_counted [OF assms, of zero vec dims 0] by simp

lemma isolate_cost_witness:
  "fst (isolate (0::nat) (counted (poison_encode (\<lambda>a. a = (2::nat)) (\<lambda>a. [a]))) 1 [0, 1, 2, 3] 0) \<le> 5"
  using isolate_cost [of "\<lambda>a. a = (2::nat)" "[0, 1, 2, 3]" 2 "0::nat" "\<lambda>a. [a]" 1] by simp

text \<open>
  In exact arithmetic, normalising, slicing to the served lane and
  renormalising gives the slice of the raw vector scaled to unit length: the first
  normalisation changes nothing, and what is served is a unit vector.
\<close>

lemma serve_lane_unit:
  assumes "dims \<le> length raw" and "norm2 (take dims raw) \<noteq> 0"
  shows "serve_lane real_ops dims raw = Some (map (\<lambda>x. x / norm2 (take dims raw)) (take dims raw))
    \<and> norm2 (map (\<lambda>x. x / norm2 (take dims raw)) (take dims raw)) = 1"
proof -
  have "0 < norm2 (take dims raw)" using assms(2) norm2_nonneg [of "take dims raw"] by linarith
  then show ?thesis by (simp add: serve_lane_real [OF assms] norm2_scale)
qed

lemma serve_lane_unit_witness:
  "serve_lane real_ops 2 [3, 4, 12] = Some [3 / 5, 4 / 5]"
proof -
  have n: "norm2 [3, 4] = 5" by (simp add: norm2_def real_sqrt_unique)
  show ?thesis using serve_lane_unit [of 2 "[3, 4, 12]"] by (simp add: n numeral_2_eq_2)
qed

end
