(* ===== verification/Manifest.thy ===== *)
theory Manifest
  imports Prelude
begin

text \<open>
  \<open>src/src/manifest.rs\<close>: the embedded table of pinned models, and \<open>DEFAULT_MODEL_ID\<close> of
  \<open>src/src/lib.rs\<close>. The table is data of the program, so the facts below are evaluated: ids
  and file names are unique, there is exactly one default pin and it is the one
  \<open>DEFAULT_MODEL_ID\<close> names, the served lane is one of the model's lanes, every digest is a
  lowercase hex SHA-256.
\<close>

section \<open>Definitions\<close>

datatype pooling = Last | Cls

definition pooling_as_str :: "pooling \<Rightarrow> string" where
  "pooling_as_str p = (case p of Last \<Rightarrow> ''last'' | Cls \<Rightarrow> ''cls'')"

datatype tier = DefaultTier | FallbackTier

definition tier_as_str :: "tier \<Rightarrow> string" where
  "tier_as_str t = (case t of DefaultTier \<Rightarrow> ''default'' | FallbackTier \<Rightarrow> ''fallback'')"

record model_pin =
  pin_id :: string
  pin_model :: string
  pin_file :: string
  pin_url :: string
  pin_sha256 :: string
  pin_size_bytes :: nat
  native_dims :: nat
  mrl_lanes :: "nat list"
  serve_dims :: nat
  pin_pooling :: pooling
  eos_marker :: "string option"
  query_instruction :: string
  document_instruction :: string
  max_text_tokens :: nat
  model_revision :: string
  pin_tier :: tier

definition qwen3_pin :: model_pin where
  "qwen3_pin =
     \<lparr>pin_id = ''qwen3-0.6b-f16'',
      pin_model = ''Qwen3-Embedding-0.6B'',
      pin_file = ''Qwen3-Embedding-0.6B-f16.gguf'',
      pin_url = ''https://huggingface.co/Qwen/Qwen3-Embedding-0.6B-GGUF/resolve/main/Qwen3-Embedding-0.6B-f16.gguf'',
      pin_sha256 = ''421a27e58d165478cc7acb984a688c2aa41404968b0203e7cd743ece44c54340'',
      pin_size_bytes = 1197629632,
      native_dims = 1024,
      mrl_lanes = [256, 512, 1024],
      serve_dims = 512,
      pin_pooling = Last,
      eos_marker = Some ''<|endoftext|>'',
      query_instruction = ''Instruct: Given a code search query, retrieve the code or documentation that answers it'' @ [newline] @ ''Query: '',
      document_instruction = '''',
      max_text_tokens = 32768,
      model_revision = ''main'',
      pin_tier = FallbackTier\<rparr>"

definition bge_pin :: model_pin where
  "bge_pin =
     \<lparr>pin_id = ''bge-small-en-v1.5-f32'',
      pin_model = ''bge-small-en-v1.5'',
      pin_file = ''bge-small-en-v1.5-f32.gguf'',
      pin_url = ''https://huggingface.co/CompendiumLabs/bge-small-en-v1.5-gguf/resolve/main/bge-small-en-v1.5-f32.gguf'',
      pin_sha256 = ''bf40c42ad7d89382e9ba7376d5c4b73f6b556cb541fab37aaa1da9c320149b65'',
      pin_size_bytes = 133609568,
      native_dims = 384,
      mrl_lanes = [384],
      serve_dims = 384,
      pin_pooling = Cls,
      eos_marker = None,
      query_instruction = ''Represent this sentence for searching relevant passages: '',
      document_instruction = '''',
      max_text_tokens = 512,
      model_revision = ''main'',
      pin_tier = DefaultTier\<rparr>"

definition PINS :: "model_pin list" where
  "PINS = [qwen3_pin, bge_pin]"

definition manifest :: "model_pin list" where
  "manifest = PINS"

definition by_id :: "string \<Rightarrow> model_pin option" where
  "by_id i = find (\<lambda>pin. pin_id pin = i) PINS"

text \<open>\<open>expect(...)\<close> panics on \<open>None\<close>; the model keeps the option.\<close>

definition default_model :: "model_pin option" where
  "default_model = find (\<lambda>pin. pin_tier pin = DefaultTier) PINS"

definition DEFAULT_MODEL_ID :: string where
  "DEFAULT_MODEL_ID = ''bge-small-en-v1.5-f32''"

definition VERSION :: string where
  "VERSION = ''0.1.0''"

text \<open>A well-formed pin, as the comments on the fields of \<open>ModelPin\<close> describe it.\<close>

definition is_sha256_hex :: "string \<Rightarrow> bool" where
  "is_sha256_hex s \<longleftrightarrow>
     length s = 64 \<and> list_all (\<lambda>c. is_ascii_digit c \<or> 97 \<le> byte_of c \<and> byte_of c \<le> 102) s"

definition pin_wf :: "model_pin \<Rightarrow> bool" where
  "pin_wf pin \<longleftrightarrow>
     pin_id pin \<noteq> [] \<and> is_sha256_hex (pin_sha256 pin) \<and> 0 < pin_size_bytes pin \<and>
     serve_dims pin \<in> set (mrl_lanes pin) \<and> list_all (\<lambda>l. 0 < l \<and> l \<le> native_dims pin) (mrl_lanes pin) \<and>
     native_dims pin \<in> set (mrl_lanes pin) \<and> 0 < max_text_tokens pin \<and>
     (pin_pooling pin = Last \<longleftrightarrow> eos_marker pin \<noteq> None)"

section \<open>Properties\<close>

lemma pins_ids: "map pin_id PINS = [''qwen3-0.6b-f16'', ''bge-small-en-v1.5-f32'']"
  by (simp add: PINS_def qwen3_pin_def bge_pin_def)

lemma by_id_Some: "by_id i = Some pin \<Longrightarrow> pin \<in> set manifest \<and> pin_id pin = i"
  by (auto simp: by_id_def manifest_def find_Some_iff)

lemma qwen3_wf: "pin_wf qwen3_pin"
  by (simp add: pin_wf_def qwen3_pin_def is_sha256_hex_def is_ascii_digit_def byte_of_def)

lemma bge_wf: "pin_wf bge_pin"
  by (simp add: pin_wf_def bge_pin_def is_sha256_hex_def is_ascii_digit_def byte_of_def)

lemma manifest_wf: "pin \<in> set manifest \<Longrightarrow> pin_wf pin"
  by (auto simp: manifest_def PINS_def qwen3_wf bge_wf)

lemma manifest_cases: "pin \<in> set manifest \<Longrightarrow> pin = qwen3_pin \<or> pin = bge_pin"
  by (simp add: manifest_def PINS_def)

lemma default_model_bge: "default_model = Some bge_pin"
  by (simp add: default_model_def PINS_def qwen3_pin_def bge_pin_def)

text \<open>The pinned manifest: every pin is well formed (a SHA-256 in lowercase hex, a served
  dimension among the model's lanes, an end marker exactly for last-token pooling), the ids are
  distinct so that \<open>by_id\<close> finds every pin by its id, and the default pin the health and
  command-line code names by id is the one \<open>default_model\<close> finds by tier.\<close>
lemma manifest_is_well_formed:
  "list_all pin_wf manifest \<and> distinct (map pin_id manifest)
   \<and> map (by_id \<circ> pin_id) manifest = map Some manifest
   \<and> default_model = by_id DEFAULT_MODEL_ID \<and> default_model \<noteq> None"
  by (simp add: manifest_def PINS_def by_id_def default_model_def DEFAULT_MODEL_ID_def)
    (simp add: qwen3_wf bge_wf, simp add: qwen3_pin_def bge_pin_def)

end
