(* ===== verification/Health.thy ===== *)
theory Health
  imports Engine_Trait Manifest
begin

text \<open>
  \<open>src/src/health.rs\<close>: the assembly of the \<open>health\<close> result and the request limits it advertises.
  The lemmas show that the degradation rule of the comment on \<open>build\<close> holds whatever the engine
  reports, that \<open>dims\<close> is present exactly for a ready model, and that the broker's additions
  change nothing but the fields they name.
\<close>

section \<open>Definitions\<close>

definition MAX_BATCH_ITEMS :: nat where
  "MAX_BATCH_ITEMS = 250"

definition MAX_REQUEST_BYTES :: nat where
  "MAX_REQUEST_BYTES = 32 * 1024 * 1024"

definition INSTRUCTION_POLICY_VERSION :: nat where
  "INSTRUCTION_POLICY_VERSION = 1"

definition NORMALIZATION :: string where
  "NORMALIZATION = ''l2''"

definition BACKEND_FALLBACK_REASON :: string where
  "BACKEND_FALLBACK_REASON = ''requested_backend_unavailable''"

definition MODEL_NOT_PREPARED :: string where
  "MODEL_NOT_PREPARED = ''model_not_prepared''"

definition ACCELERATOR_RESOURCE_EXHAUSTED :: string where
  "ACCELERATOR_RESOURCE_EXHAUSTED = ''accelerator resource exhausted; permanently demoted to CPU''"

record backend_capabilities =
  cap_cpu :: bool
  cap_cuda :: bool
  cap_directml :: bool
  cap_mps :: bool
  cap_metal :: bool
  cap_vulkan :: bool

definition capabilities_default :: backend_capabilities where
  "capabilities_default =
     \<lparr>cap_cpu = False, cap_cuda = False, cap_directml = False, cap_mps = False, cap_metal = False, cap_vulkan = False\<rparr>"

definition cpu_only :: backend_capabilities where
  "cpu_only = capabilities_default\<lparr>cap_cpu := True\<rparr>"

definition capabilities_to_value :: "backend_capabilities \<Rightarrow> json" where
  "capabilities_to_value c =
     json_obj
       [(''cpu'', json_obj [(''available'', JBool (cap_cpu c))]),
        (''cuda'', json_obj [(''available'', JBool (cap_cuda c))]),
        (''directml'', json_obj [(''available'', JBool (cap_directml c))]),
        (''mps'', json_obj [(''available'', JBool (cap_mps c))]),
        (''metal'', json_obj [(''available'', JBool (cap_metal c))]),
        (''vulkan'', json_obj [(''available'', JBool (cap_vulkan c))])]"

record engine_facts =
  fact_runtime :: string
  fact_device :: string
  requested_backend :: string
  resolved_backend :: string
  fact_accelerated :: bool
  fact_degraded_reason :: "string option"
  fact_capabilities :: backend_capabilities
  llama_cpp_build :: string

datatype model_state = Ready model_pin nat | NotPrepared model_pin

definition state_pin :: "model_state \<Rightarrow> model_pin" where
  "state_pin m = (case m of Ready pin dims \<Rightarrow> pin | NotPrepared pin \<Rightarrow> pin)"

definition state_dims :: "model_state \<Rightarrow> nat option" where
  "state_dims m = (case m of Ready pin dims \<Rightarrow> Some dims | NotPrepared pin \<Rightarrow> None)"

record limits =
  max_batch_items :: nat
  max_request_bytes :: nat

definition limits_default :: limits where
  "limits_default = \<lparr>max_batch_items = MAX_BATCH_ITEMS, max_request_bytes = MAX_REQUEST_BYTES\<rparr>"

definition resolve_degraded_reason :: "model_state \<Rightarrow> engine_facts \<Rightarrow> string option" where
  "resolve_degraded_reason model engine =
     (case model of
        NotPrepared pin \<Rightarrow> Some MODEL_NOT_PREPARED
      | Ready pin dims \<Rightarrow>
          (case fact_degraded_reason engine of
             Some reason \<Rightarrow> Some reason
           | None \<Rightarrow>
               if requested_backend engine \<noteq> resolved_backend engine then Some BACKEND_FALLBACK_REASON
               else None))"

definition health_build :: "model_state \<Rightarrow> engine_facts \<Rightarrow> limits \<Rightarrow> string \<Rightarrow> json" where
  "health_build model engine lims sidecar_version =
     (let pin = state_pin model;
          ready = (state_dims model \<noteq> None);
          degraded_reason = resolve_degraded_reason model engine
      in json_obj
           ([(''ready'', JBool ready)] @
            (case state_dims model of Some dims \<Rightarrow> [(''dims'', json_nat dims)] | None \<Rightarrow> []) @
            [(''model_id'', JString (pin_id pin)),
             (''model_sha256'', JString (pin_sha256 pin)),
             (''model_revision'', JString (model_revision pin)),
             (''runtime'', JString (fact_runtime engine)),
             (''device'', JString (fact_device engine)),
             (''resolved_backend'', JString (resolved_backend engine)),
             (''accelerated'', JBool (fact_accelerated engine)),
             (''degraded_reason'', json_opt_str degraded_reason),
             (''capabilities'', capabilities_to_value (fact_capabilities engine)),
             (''load_policy'',
                json_obj
                  [(''requested_device_backend'', JString (requested_backend engine)),
                   (''resolved_device_backend'', JString (resolved_backend engine)),
                   (''accelerated'', JBool (fact_accelerated engine)),
                   (''degraded_reason'', json_opt_str degraded_reason)]),
             (''pooling'', JString (pooling_as_str (pin_pooling pin))),
             (''normalization'', JString NORMALIZATION),
             (''instruction_policy_version'', json_nat INSTRUCTION_POLICY_VERSION),
             (''max_text_tokens'', json_nat (max_text_tokens pin)),
             (''max_batch_items'', json_nat (max_batch_items lims)),
             (''max_request_bytes'', json_nat (max_request_bytes lims)),
             (''native_dims'', json_nat (native_dims pin)),
             (''mrl_lanes'', JArray (map json_nat (mrl_lanes pin))),
             (''llama_cpp_build'', JString (llama_cpp_build engine)),
             (''sidecar_version'', JString sidecar_version)]))"

definition apply_broker_runtime_facts :: "json \<Rightarrow> bool \<Rightarrow> string option \<Rightarrow> json" where
  "apply_broker_runtime_facts health lease_held degraded_reason =
     (case health of
        JObject result \<Rightarrow>
          (let r1 = obj_insert ''accelerator_lease_held'' (JBool lease_held) result
           in case degraded_reason of
                None \<Rightarrow> JObject r1
              | Some reason \<Rightarrow>
                  (let r2 = obj_insert ''degraded_reason'' (JString reason) r1
                   in case obj_get r2 ''load_policy'' of
                        Some (JObject load_policy) \<Rightarrow>
                          JObject (obj_insert ''load_policy''
                            (JObject (obj_insert ''degraded_reason'' (JString reason) load_policy)) r2)
                      | _ \<Rightarrow> JObject r2))
      | _ \<Rightarrow> health)"

section \<open>Properties\<close>

text \<open>The degradation reason of a health object and the copy of it in \<open>load_policy\<close>.\<close>

definition policy_field :: "json \<Rightarrow> string \<Rightarrow> json option" where
  "policy_field v k = (case value_get v ''load_policy'' of None \<Rightarrow> None | Some p \<Rightarrow> value_get p k)"

lemma health_build_object: "health_object (health_build m e l v)"
  by (simp add: health_build_def health_object_def json_obj_def Let_def)

lemma resolve_degraded_reason_None_iff:
  "resolve_degraded_reason m e = None \<longleftrightarrow>
     state_dims m \<noteq> None \<and> fact_degraded_reason e = None \<and> requested_backend e = resolved_backend e"
  by (auto simp: resolve_degraded_reason_def state_dims_def split: model_state.splits option.splits)

lemma health_build_degraded:
  "value_get (health_build m e l v) ''degraded_reason'' = Some (json_opt_str (resolve_degraded_reason m e))
   \<and> policy_field (health_build m e l v) ''degraded_reason'' = Some (json_opt_str (resolve_degraded_reason m e))"
  by (simp add: health_build_def Let_def policy_field_def)

lemma health_build_dims:
  "value_get (health_build m e l v) ''dims'' = map_option json_nat (state_dims m)
   \<and> value_get (health_build m e l v) ''ready'' = Some (JBool (state_dims m \<noteq> None))"
  by (cases "state_dims m") (simp_all add: health_build_def Let_def)

lemma apply_broker_other_keys:
  assumes "k \<notin> {''accelerator_lease_held'', ''degraded_reason'', ''load_policy''}"
  shows "value_get (apply_broker_runtime_facts h lease r) k = value_get h k"
  using assms
  by (auto simp: apply_broker_runtime_facts_def value_get_def obj_get_insert Let_def
      split: json.split option.split)

lemma apply_broker_object: "health_object h \<Longrightarrow> health_object (apply_broker_runtime_facts h lease r)"
  by (auto simp: apply_broker_runtime_facts_def health_object_def Let_def obj_insert_wf
      split: json.split option.split)

lemma apply_broker_reason:
  assumes "value_get h ''load_policy'' = Some (JObject pol)"
  shows "value_get (apply_broker_runtime_facts h lease (Some r)) ''degraded_reason'' = Some (JString r)
    \<and> policy_field (apply_broker_runtime_facts h lease (Some r)) ''degraded_reason'' = Some (JString r)"
  using assms
  by (auto simp: apply_broker_runtime_facts_def policy_field_def value_get_def obj_get_insert Let_def
      split: json.splits)

lemma health_build_policy:
  "\<exists>pol. value_get (health_build m e l v) ''load_policy'' = Some (JObject pol)"
  by (simp add: health_build_def Let_def) (simp add: json_obj_def)

text \<open>C39 (functional). The degradation rule of \<open>build\<close>: the health object reports no degradation
  exactly when the model is ready, the engine reports none, and the resolved backend is the
  requested one, whatever the engine claims; the copy in \<open>load_policy\<close> always agrees; and
  \<open>dims\<close> is present exactly when \<open>ready\<close> is true.\<close>
theorem health_never_hides_degradation:
  "(value_get (health_build m e l v) ''degraded_reason'' = Some JNull \<longleftrightarrow>
      value_get (health_build m e l v) ''ready'' = Some (JBool True) \<and> fact_degraded_reason e = None
      \<and> requested_backend e = resolved_backend e)
   \<and> policy_field (health_build m e l v) ''degraded_reason'' = value_get (health_build m e l v) ''degraded_reason''
   \<and> (value_get (health_build m e l v) ''dims'' \<noteq> None
      \<longleftrightarrow> value_get (health_build m e l v) ''ready'' = Some (JBool True))"
proof -
  have "json_opt_str (resolve_degraded_reason m e) = JNull \<longleftrightarrow> resolve_degraded_reason m e = None"
    by (cases "resolve_degraded_reason m e") (simp_all add: json_opt_str_def)
  then show ?thesis
    by (simp add: health_build_degraded health_build_dims resolve_degraded_reason_None_iff)
qed

text \<open>The broker's additions to a health object: a reason it supplies shows in both
  places the engine reported one, the lease flag is set, and every field other than these three
  keys is the engine's.\<close>
lemma broker_facts_mirrored:
  "value_get (apply_broker_runtime_facts (health_build m e l v) lease (Some r)) ''degraded_reason'' = Some (JString r)
   \<and> policy_field (apply_broker_runtime_facts (health_build m e l v) lease (Some r)) ''degraded_reason'' = Some (JString r)
   \<and> value_get (apply_broker_runtime_facts (health_build m e l v) lease reason) ''accelerator_lease_held''
       = Some (JBool lease)
   \<and> (k \<in> {''accelerator_lease_held'', ''degraded_reason'', ''load_policy''}
      \<or> value_get (apply_broker_runtime_facts (health_build m e l v) lease reason) k
          = value_get (health_build m e l v) k)"
proof -
  obtain pol where pol: "value_get (health_build m e l v) ''load_policy'' = Some (JObject pol)"
    using health_build_policy by blast
  have "\<exists>ob. health_build m e l v = JObject ob"
    by (simp add: health_build_def Let_def json_obj_def)
  then have "value_get (apply_broker_runtime_facts (health_build m e l v) lease reason)
      ''accelerator_lease_held'' = Some (JBool lease)"
    by (auto simp: apply_broker_runtime_facts_def value_get_def obj_get_insert Let_def
        split: json.splits option.splits)
  with apply_broker_reason [OF pol] apply_broker_other_keys [of k "health_build m e l v" lease reason]
  show ?thesis by blast
qed

end
