(* ===== verification/Backend_Select.thy ===== *)
theory Backend_Select
  imports Health
begin

text \<open>
  \<open>src/src/backend_select.rs\<close>, the decision: which declared backends have a device, how the
  candidates are timed, which one wins, and the cache of verdicts on disk. Discovery and the
  benchmark are injected in the source and parameters here; a benchmark may have effects, so it
  threads a state \<open>'x\<close>. The cache is the content of one file (\<open>None\<close> when there is none); what the
  operating system answers to the steps of an update is the record \<open>cache_io\<close>, and the encoding
  of the store, which \<open>serde_json\<close> provides, the record \<open>store_codec\<close>.
\<close>

section \<open>Backends and devices\<close>

definition FORCE_BACKEND_ENV :: string where
  "FORCE_BACKEND_ENV = ''JULIE_SIDECAR_FORCE_BACKEND''"

definition CPU :: string where
  "CPU = ''cpu''"

definition METAL :: string where
  "METAL = ''metal''"

definition VULKAN :: string where
  "VULKAN = ''vulkan''"

definition CUDA :: string where
  "CUDA = ''cuda''"

definition SELECTION_CACHE_FILE :: string where
  "SELECTION_CACHE_FILE = ''backend-selection.json''"

lemmas backend_names = CPU_def METAL_def VULKAN_def CUDA_def

record declared_backends =
  decl_metal :: bool
  decl_vulkan :: bool
  decl_cuda :: bool
  decl_rocm :: bool
  decl_dynamic :: bool

text \<open>\<open>cfg!(feature = ..)\<close> is fixed by the build: \<open>feature\<close> says which ones are on.\<close>

definition declared_build :: "(string \<Rightarrow> bool) \<Rightarrow> declared_backends" where
  "declared_build feature =
     \<lparr>decl_metal = feature ''metal'', decl_vulkan = feature ''vulkan'', decl_cuda = feature ''cuda'',
      decl_rocm = feature ''rocm'', decl_dynamic = feature ''dynamic-backends''\<rparr>"

definition declared_identity :: "declared_backends \<Rightarrow> string" where
  "declared_identity d =
     ''metal='' @ show_bool (decl_metal d) @ '';vulkan='' @ show_bool (decl_vulkan d)
     @ '';cuda='' @ show_bool (decl_cuda d) @ '';rocm='' @ show_bool (decl_rocm d)
     @ '';dynamic='' @ show_bool (decl_dynamic d)"

definition supports :: "declared_backends \<Rightarrow> string \<Rightarrow> bool" where
  "supports d backend =
     (if backend = METAL then decl_metal d
      else if backend = VULKAN then decl_vulkan d
      else if backend = CUDA then decl_cuda d
      else backend = CPU)"

definition stable_accelerators :: "declared_backends \<Rightarrow> string list" where
  "stable_accelerators d =
     map fst (filter snd [(METAL, decl_metal d), (VULKAN, decl_vulkan d), (CUDA, decl_cuda d)])"

record runtime_device =
  dev_backend :: string
  dev_index :: nat
  dev_name :: string
  dev_description :: string
  dev_memory_total :: nat
  dev_driver :: string
  dev_driver_cacheable :: bool

record backend_candidate =
  cand_backend :: string
  cand_device :: string
  cand_device_index :: "nat option"

record machine =
  gpu :: string
  driver :: string
  cacheable :: bool

definition machine_none :: machine where
  "machine_none = \<lparr>gpu = ''none'', driver = ''none'', cacheable = True\<rparr>"

record discovery =
  disc_candidates :: "backend_candidate list"
  disc_capabilities :: backend_capabilities
  disc_machine :: machine
  accelerator_failures :: "string list"
  declared_accelerators :: "string list"

record selection_context =
  ctx_sidecar_version :: string
  ctx_model_sha256 :: string
  ctx_native_build_identity :: string
  ctx_packaged_backend_identity :: string

record probe_timing =
  batch_1 :: duration
  batch_16 :: duration

definition timing_total :: "probe_timing \<Rightarrow> duration" where
  "timing_total t = duration_saturating_add (batch_1 t) (batch_16 t)"

record selection =
  sel_requested :: string
  sel_resolved :: string
  sel_accelerated :: bool
  sel_degraded_reason :: "string option"

definition selection_new :: "string \<Rightarrow> string \<Rightarrow> string option \<Rightarrow> selection" where
  "selection_new requested resolved degraded_reason =
     \<lparr>sel_requested = requested, sel_resolved = resolved, sel_accelerated = (resolved \<noteq> CPU),
      sel_degraded_reason = degraded_reason\<rparr>"

definition selection_cpu :: selection where
  "selection_cpu = selection_new CPU CPU None"

definition degraded_to_cpu :: "string \<Rightarrow> string \<Rightarrow> selection" where
  "degraded_to_cpu requested reason = selection_new requested CPU (Some reason)"

record runtime_selection =
  rs_selection :: selection
  rs_capabilities :: backend_capabilities
  rs_device :: string
  rs_device_index :: "nat option"
  rs_cache_key :: "string option"

definition normalize_backend :: "string \<Rightarrow> string option" where
  "normalize_backend backend =
     (if eq_ignore_ascii_case backend CPU then Some CPU
      else if eq_ignore_ascii_case backend METAL \<or> eq_ignore_ascii_case backend ''MTL'' then Some METAL
      else if eq_ignore_ascii_case backend VULKAN then Some VULKAN
      else if eq_ignore_ascii_case backend CUDA then Some CUDA
      else None)"

definition set_capability :: "backend_capabilities \<Rightarrow> string \<Rightarrow> bool \<Rightarrow> backend_capabilities" where
  "set_capability c backend available =
     (if backend = METAL then c\<lparr>cap_metal := available\<rparr>
      else if backend = VULKAN then c\<lparr>cap_vulkan := available\<rparr>
      else if backend = CUDA then c\<lparr>cap_cuda := available\<rparr>
      else c)"

definition cpu_candidate :: backend_candidate where
  "cpu_candidate = \<lparr>cand_backend = CPU, cand_device = CPU, cand_device_index = None\<rparr>"

text \<open>The state of the two nested loops of \<open>discover_candidates\<close>.\<close>

record discover_acc =
  acc_candidates :: "backend_candidate list"
  acc_capabilities :: backend_capabilities
  acc_identity_parts :: "string list"
  acc_driver_parts :: "string list"
  acc_cacheable :: bool

definition discover_device :: "string \<Rightarrow> discover_acc \<Rightarrow> runtime_device \<Rightarrow> discover_acc" where
  "discover_device backend acc d =
     \<lparr>acc_candidates = acc_candidates acc @
        [\<lparr>cand_backend = backend,
          cand_device = (if trim (dev_description d) = [] then dev_name d else dev_description d),
          cand_device_index = Some (dev_index d)\<rparr>],
      acc_capabilities = set_capability (acc_capabilities acc) backend True,
      acc_identity_parts = acc_identity_parts acc @
        [backend @ '':'' @ show_nat (dev_index d) @ '':'' @ dev_name d @ '':'' @ dev_description d
           @ '':'' @ show_nat (dev_memory_total d)],
      acc_driver_parts = acc_driver_parts acc @
        [backend @ '':'' @ show_nat (dev_index d) @ '':'' @ dev_driver d],
      acc_cacheable = (acc_cacheable acc \<and> dev_driver_cacheable d)\<rparr>"

definition discover_backend :: "declared_backends \<Rightarrow> runtime_device list \<Rightarrow> discover_acc \<Rightarrow> string \<Rightarrow> discover_acc" where
  "discover_backend declared devices acc backend =
     (if \<not> supports declared backend then acc
      else foldl (discover_device backend) acc
             (filter (\<lambda>d. normalize_backend (dev_backend d) = Some backend) devices))"

definition discover_candidates :: "declared_backends \<Rightarrow> runtime_device list \<Rightarrow> discovery" where
  "discover_candidates declared devices =
     (let acc = foldl (discover_backend declared devices)
                  \<lparr>acc_candidates = [cpu_candidate], acc_capabilities = cpu_only, acc_identity_parts = [],
                   acc_driver_parts = [], acc_cacheable = True\<rparr>
                  [METAL, VULKAN, CUDA]
      in \<lparr>disc_candidates = acc_candidates acc,
          disc_capabilities = acc_capabilities acc,
          disc_machine =
            (if acc_identity_parts acc = [] then machine_none
             else \<lparr>gpu = join_str '','' (acc_identity_parts acc), driver = join_str '','' (acc_driver_parts acc),
                   cacheable = acc_cacheable acc\<rparr>),
          accelerator_failures = [],
          declared_accelerators = stable_accelerators declared\<rparr>)"

section \<open>The verdict cache\<close>

record cached_choice =
  cc_requested :: string
  cc_resolved :: string
  cc_degraded_reason :: "string option"
  cc_cuda :: bool
  cc_metal :: bool
  cc_vulkan :: bool
  cc_device :: string
  cc_device_index :: "nat option"

type_synonym runtime_cache = "string \<rightharpoonup> cached_choice"

definition from_runtime :: "runtime_selection \<Rightarrow> cached_choice" where
  "from_runtime r =
     \<lparr>cc_requested = sel_requested (rs_selection r), cc_resolved = sel_resolved (rs_selection r),
      cc_degraded_reason = sel_degraded_reason (rs_selection r),
      cc_cuda = cap_cuda (rs_capabilities r), cc_metal = cap_metal (rs_capabilities r),
      cc_vulkan = cap_vulkan (rs_capabilities r),
      cc_device = rs_device r, cc_device_index = rs_device_index r\<rparr>"

definition into_runtime :: "cached_choice \<Rightarrow> runtime_selection" where
  "into_runtime c =
     \<lparr>rs_selection = selection_new (cc_requested c) (cc_resolved c) (cc_degraded_reason c),
      rs_capabilities =
        capabilities_default\<lparr>cap_cpu := True, cap_cuda := cc_cuda c, cap_metal := cc_metal c, cap_vulkan := cc_vulkan c\<rparr>,
      rs_device = cc_device c, rs_device_index = cc_device_index c, rs_cache_key = None\<rparr>"

text \<open>The bytes the key is the digest of: every component behind its length.\<close>

definition key_preimage :: "selection_context \<Rightarrow> machine \<Rightarrow> bytes" where
  "key_preimage context m =
     concat (map (\<lambda>component. le_bytes 8 (length component) @ component)
       [ctx_sidecar_version context, ctx_model_sha256 context, ctx_native_build_identity context,
        ctx_packaged_backend_identity context, gpu m, driver m])"

definition runtime_cache_key :: "(bytes \<Rightarrow> bytes) \<Rightarrow> selection_context \<Rightarrow> machine \<Rightarrow> string" where
  "runtime_cache_key sha256 context m = hex (sha256 (key_preimage context m))"

record store_codec =
  store_to_vec :: "runtime_cache \<Rightarrow> bytes option"
  store_from_slice :: "bytes \<Rightarrow> runtime_cache option"

text \<open>Whether each fallible step of an update succeeds.\<close>

record cache_io =
  io_create_dir :: bool
  io_open_lock :: bool
  io_lock :: bool
  io_temp_file :: bool
  io_write_all :: bool
  io_sync_all :: bool
  io_persist :: bool

type_synonym cache_file = "bytes option"

definition read_runtime_store :: "store_codec \<Rightarrow> cache_file \<Rightarrow> runtime_cache" where
  "read_runtime_store codec file =
     (case file of
        None \<Rightarrow> Map.empty
      | Some raw \<Rightarrow> (case store_from_slice codec raw of None \<Rightarrow> Map.empty | Some store \<Rightarrow> store))"

definition read_runtime_cache :: "store_codec \<Rightarrow> cache_file \<Rightarrow> string \<Rightarrow> runtime_selection option" where
  "read_runtime_cache codec file key =
     (case read_runtime_store codec file key of
        None \<Rightarrow> None
      | Some choice \<Rightarrow> Some ((into_runtime choice)\<lparr>rs_cache_key := Some key\<rparr>))"

definition mutate_runtime_cache ::
  "store_codec \<Rightarrow> cache_io \<Rightarrow> (runtime_cache \<Rightarrow> runtime_cache) \<Rightarrow> cache_file \<Rightarrow> cache_file" where
  "mutate_runtime_cache codec io mutate file =
     (if \<not> io_create_dir io then file
      else if \<not> io_open_lock io then file
      else if \<not> io_lock io then file
      else
        (case store_to_vec codec (mutate (read_runtime_store codec file)) of
           None \<Rightarrow> file
         | Some encoded \<Rightarrow>
             if \<not> io_temp_file io then file
             else if \<not> io_write_all io \<or> \<not> io_sync_all io then file
             else if io_persist io then Some encoded
             else file))"

definition write_runtime_cache ::
  "store_codec \<Rightarrow> cache_io \<Rightarrow> string \<Rightarrow> runtime_selection \<Rightarrow> cache_file \<Rightarrow> cache_file" where
  "write_runtime_cache codec io key r file =
     mutate_runtime_cache codec io (\<lambda>store. store(key \<mapsto> from_runtime r)) file"

definition invalidate_cached_selection ::
  "store_codec \<Rightarrow> cache_io \<Rightarrow> runtime_selection \<Rightarrow> cache_file \<Rightarrow> cache_file" where
  "invalidate_cached_selection codec io r file =
     (case rs_cache_key r of
        None \<Rightarrow> file
      | Some key \<Rightarrow> mutate_runtime_cache codec io (\<lambda>store. store(key := None)) file)"

section \<open>The decision\<close>

definition degraded_runtime :: "string \<Rightarrow> string \<Rightarrow> runtime_selection" where
  "degraded_runtime requested reason =
     \<lparr>rs_selection = degraded_to_cpu requested reason, rs_capabilities = cpu_only, rs_device = CPU,
      rs_device_index = None, rs_cache_key = None\<rparr>"

definition cpu_runtime :: "selection \<Rightarrow> backend_capabilities \<Rightarrow> runtime_selection" where
  "cpu_runtime sel caps =
     \<lparr>rs_selection = sel, rs_capabilities = caps, rs_device = CPU, rs_device_index = None, rs_cache_key = None\<rparr>"

text \<open>The loop over the accelerated candidates: the fastest so far, failures, usable and failed backends.\<close>

record probe_acc =
  fastest :: "(backend_candidate \<times> probe_timing) option"
  failures :: "string list"
  usable_backends :: "string set"
  failed_backends :: "string set"

definition probe_step ::
  "backend_candidate \<Rightarrow> (string, probe_timing) result \<Rightarrow> probe_acc \<Rightarrow> probe_acc" where
  "probe_step c res acc =
     (case res of
        Inr timing \<Rightarrow>
          (let acc1 = acc\<lparr>usable_backends := insert (cand_backend c) (usable_backends acc)\<rparr>
           in if (case fastest acc of None \<Rightarrow> True | Some (_, current) \<Rightarrow> timing_total timing < timing_total current)
              then acc1\<lparr>fastest := Some (c, timing)\<rparr> else acc1)
      | Inl reason \<Rightarrow>
          acc\<lparr>failed_backends := insert (cand_backend c) (failed_backends acc),
              failures := failures acc @ [cand_backend c @ '' probe failed: '' @ reason]\<rparr>)"

fun probe_loop ::
  "('x \<Rightarrow> backend_candidate \<Rightarrow> 'x \<times> (string, probe_timing) result) \<Rightarrow> backend_candidate list
     \<Rightarrow> 'x \<Rightarrow> probe_acc \<Rightarrow> 'x \<times> probe_acc" where
  "probe_loop benchmark [] x acc = (x, acc)"
| "probe_loop benchmark (c # cs) x acc =
     (case benchmark x c of (x1, res) \<Rightarrow> probe_loop benchmark cs x1 (probe_step c res acc))"

text \<open>\<open>for backend in failed_backends.difference(&usable_backends)\<close>; the order does not matter.\<close>

definition drop_failed :: "probe_acc \<Rightarrow> backend_capabilities \<Rightarrow> backend_capabilities" where
  "drop_failed acc caps =
     foldl (\<lambda>c backend. if backend \<in> failed_backends acc \<and> backend \<notin> usable_backends acc
                        then set_capability c backend False else c)
       caps [METAL, VULKAN, CUDA]"

definition verdict ::
  "probe_timing \<Rightarrow> string option \<Rightarrow> probe_acc \<Rightarrow> backend_capabilities \<Rightarrow> runtime_selection" where
  "verdict cpu_timing requested acc caps =
     (case fastest acc of
        Some (winner, timing) \<Rightarrow>
          if timing_total timing < timing_total cpu_timing then
            \<lparr>rs_selection = selection_new (cand_backend winner) (cand_backend winner) None,
             rs_capabilities = caps, rs_device = cand_device winner,
             rs_device_index = cand_device_index winner, rs_cache_key = None\<rparr>
          else
            cpu_runtime
              (degraded_to_cpu (case requested of Some b \<Rightarrow> b | None \<Rightarrow> CPU) ''accelerated backend did not beat cpu'') caps
      | None \<Rightarrow>
          (case requested of
             Some b \<Rightarrow>
               cpu_runtime
                 (degraded_to_cpu b
                   (if failures acc = [] then ''requested backend is unavailable'' else join_str ''; '' (failures acc)))
                 caps
           | None \<Rightarrow> cpu_runtime selection_cpu caps))"

definition cached_selection ::
  "store_codec \<Rightarrow> discovery \<Rightarrow> string \<Rightarrow> cache_file \<Rightarrow> runtime_selection option" where
  "cached_selection codec disc key file =
     (case read_runtime_cache codec file key of
        None \<Rightarrow> None
      | Some cached \<Rightarrow>
          Some (if rs_device_index cached = None \<and> sel_resolved (rs_selection cached) \<noteq> CPU
                then cached\<lparr>rs_device_index :=
                       (case find (\<lambda>c. cand_backend c = sel_resolved (rs_selection cached)) (disc_candidates disc) of
                          None \<Rightarrow> None | Some c \<Rightarrow> cand_device_index c)\<rparr>
                else cached))"

text \<open>
  The part of \<open>select_runtime_with\<close> after the cache was missed or bypassed. \<open>candidates[0]\<close>
  panics on an empty list, which \<open>discover_candidates\<close> never returns; the model has the error
  \<open>panic\<close> there.
\<close>

definition accelerated_candidates :: "string option \<Rightarrow> backend_candidate list \<Rightarrow> backend_candidate list" where
  "accelerated_candidates forced others =
     filter (\<lambda>c. case forced of None \<Rightarrow> True | Some requested \<Rightarrow> cand_backend c = requested) others"

definition requested_of :: "string option \<Rightarrow> backend_candidate list \<Rightarrow> discovery \<Rightarrow> string option" where
  "requested_of forced accelerated disc =
     (case forced of
        Some b \<Rightarrow> Some b
      | None \<Rightarrow>
          (case accelerated of
             c # _ \<Rightarrow> Some (cand_backend c)
           | [] \<Rightarrow> (case declared_accelerators disc of b # _ \<Rightarrow> Some b | [] \<Rightarrow> None)))"

definition probe_start :: "discovery \<Rightarrow> probe_acc" where
  "probe_start disc =
     \<lparr>fastest = None, failures = accelerator_failures disc, usable_backends = {}, failed_backends = {}\<rparr>"

definition benchmark_runtime ::
  "store_codec \<Rightarrow> cache_io \<Rightarrow> string \<Rightarrow> string option \<Rightarrow> discovery
     \<Rightarrow> ('x \<Rightarrow> backend_candidate \<Rightarrow> 'x \<times> (string, probe_timing) result) \<Rightarrow> cache_file \<Rightarrow> 'x
     \<Rightarrow> cache_file \<times> 'x \<times> (string, runtime_selection) result" where
  "benchmark_runtime codec io key forced disc benchmark file x =
     (case disc_candidates disc of
        [] \<Rightarrow> (file, x, Inl ''panic: index out of bounds'')
      | cpu # others \<Rightarrow>
          (case benchmark x cpu of
             (x1, Inl reason) \<Rightarrow> (file, x1, Inl (''cpu probe failed: '' @ reason))
           | (x1, Inr cpu_timing) \<Rightarrow>
               (let accelerated = accelerated_candidates forced others;
                    requested = requested_of forced accelerated disc
                in case probe_loop benchmark accelerated x1 (probe_start disc) of
                     (x2, acc) \<Rightarrow>
                       (let result = verdict cpu_timing requested acc (drop_failed acc (disc_capabilities disc))
                        in if forced = None \<and> cacheable (disc_machine disc) \<and> failures acc = []
                           then (let result' = result\<lparr>rs_cache_key := Some key\<rparr>
                                 in (write_runtime_cache codec io key result' file, x2, Inr result'))
                           else (file, x2, Inr result)))))"

text \<open>\<open>forced.map(|value| value.trim().to_ascii_lowercase())\<close>.\<close>

definition normalize_forced :: "string option \<Rightarrow> string option" where
  "normalize_forced forced = map_option (\<lambda>v. to_ascii_lowercase (trim v)) forced"

definition select_runtime_with ::
  "(bytes \<Rightarrow> bytes) \<Rightarrow> store_codec \<Rightarrow> cache_io \<Rightarrow> selection_context \<Rightarrow> string option \<Rightarrow> (unit \<Rightarrow> discovery)
     \<Rightarrow> ('x \<Rightarrow> backend_candidate \<Rightarrow> 'x \<times> (string, probe_timing) result) \<Rightarrow> cache_file \<Rightarrow> 'x
     \<Rightarrow> cache_file \<times> 'x \<times> (string, runtime_selection) result" where
  "select_runtime_with sha256 codec io context forced0 discover benchmark file x =
     (let forced = normalize_forced forced0
      in if forced = Some CPU then (file, x, Inr (cpu_runtime selection_cpu cpu_only))
         else
           (let disc = discover ()
            in if (case forced of Some b \<Rightarrow> b \<notin> {METAL, VULKAN, CUDA} | None \<Rightarrow> False)
               then (file, x, Inr (degraded_runtime (the forced) ''unknown forced backend''))
               else if (case forced of Some b \<Rightarrow> \<not> list_ex (\<lambda>c. cand_backend c = b) (disc_candidates disc) | None \<Rightarrow> False)
               then (file, x,
                     Inr (degraded_runtime (the forced)
                       (if accelerator_failures disc = [] then ''requested backend is unavailable''
                        else join_str ''; '' (accelerator_failures disc))))
               else
                 (let key = runtime_cache_key sha256 context (disc_machine disc)
                  in case (if forced = None \<and> cacheable (disc_machine disc) \<and> accelerator_failures disc = []
                           then cached_selection codec disc key file else None) of
                       Some cached \<Rightarrow> (file, x, Inr cached)
                     | None \<Rightarrow> benchmark_runtime codec io key forced disc benchmark file x)))"

text \<open>\<open>forced_backend\<close> reads the variable; its value is the argument.\<close>

definition forced_backend :: "string option \<Rightarrow> string option" where
  "forced_backend value =
     (case value of None \<Rightarrow> None | Some v \<Rightarrow> if trim v \<noteq> [] then Some (trim v) else None)"

section \<open>Discovery\<close>

lemma backend_names_distinct [simp]:
  "METAL \<noteq> CPU" "VULKAN \<noteq> CPU" "CUDA \<noteq> CPU" "METAL \<noteq> VULKAN" "METAL \<noteq> CUDA" "VULKAN \<noteq> CUDA"
  "CPU \<noteq> METAL" "CPU \<noteq> VULKAN" "CPU \<noteq> CUDA" "VULKAN \<noteq> METAL" "CUDA \<noteq> METAL" "CUDA \<noteq> VULKAN"
  by (simp_all add: backend_names)

text \<open>The part of the capabilities a stored verdict does not record.\<close>

definition caps_base :: "backend_capabilities \<Rightarrow> bool" where
  "caps_base c \<longleftrightarrow> cap_cpu c \<and> \<not> cap_directml c \<and> \<not> cap_mps c"

lemma caps_base_set [simp]: "caps_base (set_capability c b v) = caps_base c"
  by (simp add: caps_base_def set_capability_def)

definition accelerator_candidate :: "backend_candidate \<Rightarrow> bool" where
  "accelerator_candidate c \<longleftrightarrow> cand_backend c \<in> {METAL, VULKAN, CUDA} \<and> cand_device_index c \<noteq> None"

definition discovery_wf :: "discovery \<Rightarrow> bool" where
  "discovery_wf d \<longleftrightarrow>
     (\<exists>others. disc_candidates d = cpu_candidate # others \<and> list_all accelerator_candidate others)
     \<and> caps_base (disc_capabilities d) \<and> set (declared_accelerators d) \<subseteq> {METAL, VULKAN, CUDA}"

definition discover_acc_ok :: "discover_acc \<Rightarrow> bool" where
  "discover_acc_ok a \<longleftrightarrow>
     (\<exists>others. acc_candidates a = cpu_candidate # others \<and> list_all accelerator_candidate others)
     \<and> caps_base (acc_capabilities a)"

lemma discover_device_ok:
  "discover_acc_ok a \<Longrightarrow> b \<in> {METAL, VULKAN, CUDA} \<Longrightarrow> discover_acc_ok (discover_device b a d)"
  by (auto simp: discover_acc_ok_def discover_device_def accelerator_candidate_def)

lemma discover_backend_ok:
  assumes "discover_acc_ok a" and "b \<in> {METAL, VULKAN, CUDA}"
  shows "discover_acc_ok (discover_backend decl devs a b)"
proof -
  have "discover_acc_ok (foldl (discover_device b) a ds)" for ds
    using assms(1)
  proof (induction ds arbitrary: a)
    case (Cons d ds)
    then show ?case using discover_device_ok [OF Cons.prems assms(2)] by simp
  qed simp
  with assms(1) show ?thesis by (simp add: discover_backend_def)
qed

lemma discover_candidates_wf:
  "discovery_wf ((discover_candidates decl devs)\<lparr>accelerator_failures := fs\<rparr>)"
proof -
  have "discover_acc_ok \<lparr>acc_candidates = [cpu_candidate], acc_capabilities = cpu_only, acc_identity_parts = [],
      acc_driver_parts = [], acc_cacheable = True\<rparr>"
    by (simp add: discover_acc_ok_def caps_base_def cpu_only_def capabilities_default_def)
  then have "discover_acc_ok (foldl (discover_backend decl devs)
      \<lparr>acc_candidates = [cpu_candidate], acc_capabilities = cpu_only, acc_identity_parts = [],
      acc_driver_parts = [], acc_cacheable = True\<rparr> [METAL, VULKAN, CUDA])"
    by (simp add: discover_backend_ok)
  then show ?thesis
    by (auto simp: discovery_wf_def discover_acc_ok_def discover_candidates_def Let_def stable_accelerators_def)
qed

section \<open>Probing\<close>

text \<open>Timings of a deterministic benchmark \<open>b\<close>.\<close>

definition fixed_timing :: "(backend_candidate \<Rightarrow> (string, probe_timing) result) \<Rightarrow> 'x \<Rightarrow> backend_candidate \<Rightarrow> 'x \<times> (string, probe_timing) result" where
  "fixed_timing b x c = (x, b c)"

definition is_fastest ::
  "(backend_candidate \<Rightarrow> (string, probe_timing) result) \<Rightarrow> backend_candidate set \<Rightarrow> (backend_candidate \<times> probe_timing) option \<Rightarrow> bool" where
  "is_fastest b C best \<longleftrightarrow>
     (case best of
        None \<Rightarrow> \<forall>c\<in>C. \<forall>t. b c \<noteq> Inr t
      | Some (w, tw) \<Rightarrow> w \<in> C \<and> b w = Inr tw \<and> (\<forall>c\<in>C. \<forall>t. b c = Inr t \<longrightarrow> timing_total tw \<le> timing_total t))"

lemma probe_step_fastest:
  "is_fastest b C (fastest acc) \<Longrightarrow> is_fastest b (insert c C) (fastest (probe_step c (b c) acc))"
  by (auto simp: is_fastest_def probe_step_def Let_def not_less split: sum.splits option.splits if_splits)

lemma probe_loop_fastest:
  assumes "is_fastest b C (fastest acc)" and "probe_loop (fixed_timing b) cs x acc = (x', acc')"
  shows "is_fastest b (C \<union> set cs) (fastest acc')"
  using assms
proof (induction cs arbitrary: C acc)
  case (Cons c cs)
  then show ?case
    using Cons.IH [of "insert c C" "probe_step c (b c) acc"] probe_step_fastest [OF Cons.prems(1)]
    by (simp add: fixed_timing_def)
qed simp

lemma probe_loop_candidates:
  assumes "probe_loop benchmark cs x acc = (x', acc')" and "fastest acc' = Some (w, t)"
  shows "w \<in> set cs \<or> fastest acc = Some (w, t)"
  using assms
proof (induction cs arbitrary: x acc)
  case (Cons c cs)
  obtain x1 res where b: "benchmark x c = (x1, res)" by (cases "benchmark x c")
  with Cons.IH [of x1 "probe_step c res acc"] Cons.prems show ?case
    by (auto simp: probe_step_def Let_def split: sum.splits if_splits)
qed simp

lemma probe_loop_fixed_state: "probe_loop (fixed_timing b) cs x acc = (x', acc') \<Longrightarrow> x' = x"
  by (induction cs arbitrary: acc) (auto simp: fixed_timing_def)

lemma probe_loop_failures:
  "probe_loop benchmark cs x acc = (x', acc') \<Longrightarrow> failures acc' = [] \<Longrightarrow> failures acc = []"
proof (induction cs arbitrary: x acc)
  case (Cons c cs)
  obtain x1 res where b: "benchmark x c = (x1, res)" by (cases "benchmark x c")
  with Cons.IH [of x1 "probe_step c res acc"] Cons.prems show ?case
    by (auto simp: probe_step_def Let_def split: sum.splits if_splits)
qed simp

lemma probe_loop_fixed_failures:
  "probe_loop (fixed_timing b) cs x acc = (x', acc') \<Longrightarrow> failures acc' = [] \<Longrightarrow> c \<in> set cs \<Longrightarrow> b c \<noteq> Inl e"
proof (induction cs arbitrary: acc)
  case (Cons d cs)
  have "probe_loop (fixed_timing b) cs x (probe_step d (b d) acc) = (x', acc')"
    using Cons.prems(1) by (simp add: fixed_timing_def [of b x d])
  with Cons probe_loop_failures [OF this Cons.prems(2)] show ?case
    by (auto simp: probe_step_def split: sum.splits)
qed simp

lemma caps_base_drop_failed [simp]: "caps_base (drop_failed acc c) = caps_base c"
  by (simp add: drop_failed_def)

section \<open>Honest verdicts\<close>

definition selection_honest :: "selection \<Rightarrow> bool" where
  "selection_honest s \<longleftrightarrow>
     (sel_accelerated s \<longleftrightarrow> sel_resolved s \<noteq> CPU) \<and> (sel_degraded_reason s = None \<longleftrightarrow> sel_requested s = sel_resolved s)"

lemma honest_new [simp]: "selection_honest (selection_new b b None)" "selection_honest selection_cpu"
  by (simp_all add: selection_honest_def selection_new_def selection_cpu_def)

lemma honest_degraded [simp]: "selection_honest (degraded_to_cpu b r) \<longleftrightarrow> b \<noteq> CPU"
  by (simp add: selection_honest_def degraded_to_cpu_def selection_new_def)

text \<open>What a stored verdict must allow: to be read back as it was written.\<close>

definition storable :: "runtime_selection \<Rightarrow> bool" where
  "storable r \<longleftrightarrow>
     caps_base (rs_capabilities r) \<and> (sel_accelerated (rs_selection r) \<longleftrightarrow> sel_resolved (rs_selection r) \<noteq> CPU)
     \<and> (sel_resolved (rs_selection r) \<noteq> CPU \<longrightarrow> rs_device_index r \<noteq> None)"

lemma into_from_runtime: "storable r \<Longrightarrow> (into_runtime (from_runtime r))\<lparr>rs_cache_key := rs_cache_key r\<rparr> = r"
  by (cases r; cases "rs_selection r"; cases "rs_capabilities r")
    (auto simp: storable_def caps_base_def into_runtime_def from_runtime_def selection_new_def capabilities_default_def)

lemma verdict_honest:
  assumes "caps_base caps"
    and "case fastest acc of None \<Rightarrow> True | Some (w, t) \<Rightarrow> accelerator_candidate w \<and> requested \<noteq> None"
    and "requested \<noteq> Some CPU"
  shows "selection_honest (rs_selection (verdict tc requested acc caps)) \<and> storable (verdict tc requested acc caps)"
  using assms
  by (auto simp: verdict_def cpu_runtime_def storable_def accelerator_candidate_def degraded_to_cpu_def
      selection_new_def selection_cpu_def selection_honest_def split: option.splits prod.splits)

lemma verdict_no_key: "rs_cache_key (verdict tc requested acc caps) = None"
  by (auto simp: verdict_def cpu_runtime_def split: option.split prod.split)

lemma benchmark_runtime_unfold:
  assumes "disc_candidates disc = cpu # others" and "benchmark x cpu = (x1, Inr tc)"
    and "probe_loop benchmark (accelerated_candidates forced others) x1 (probe_start disc) = (x2, acc)"
    and "v = verdict tc (requested_of forced (accelerated_candidates forced others) disc) acc
           (drop_failed acc (disc_capabilities disc))"
  shows "benchmark_runtime codec io key forced disc benchmark file x =
    (if forced = None \<and> cacheable (disc_machine disc) \<and> failures acc = []
     then (write_runtime_cache codec io key (v\<lparr>rs_cache_key := Some key\<rparr>) file, x2, Inr (v\<lparr>rs_cache_key := Some key\<rparr>))
     else (file, x2, Inr v))"
  using assms by (simp add: benchmark_runtime_def Let_def)

lemma requested_not_cpu:
  assumes "forced \<noteq> Some CPU" and "\<forall>c\<in>set accs. accelerator_candidate c"
    and "set (declared_accelerators disc) \<subseteq> {METAL, VULKAN, CUDA}"
  shows "requested_of forced accs disc \<noteq> Some CPU"
  using assms by (auto simp: requested_of_def accelerator_candidate_def split: option.split list.split)

lemma benchmark_runtime_result:
  assumes wf: "discovery_wf disc" and fr: "forced \<noteq> Some CPU"
    and run: "benchmark_runtime codec io key forced disc benchmark file x = (file', x', Inr r)"
  shows "selection_honest (rs_selection r) \<and> storable r
    \<and> (file' = file \<and> rs_cache_key r = None
       \<or> forced = None \<and> cacheable (disc_machine disc) \<and> accelerator_failures disc = []
         \<and> rs_cache_key r = Some key \<and> file' = write_runtime_cache codec io key r file)"
proof -
  obtain others where c: "disc_candidates disc = cpu_candidate # others" "list_all accelerator_candidate others"
    and caps: "caps_base (disc_capabilities disc)" and decl: "set (declared_accelerators disc) \<subseteq> {METAL, VULKAN, CUDA}"
    using wf by (auto simp: discovery_wf_def)
  let ?accs = "accelerated_candidates forced others"
  obtain x1 tc where cb: "benchmark x cpu_candidate = (x1, Inr tc)"
    using run c by (auto simp: benchmark_runtime_def split: prod.splits sum.splits)
  obtain x2 acc where pl: "probe_loop benchmark ?accs x1 (probe_start disc) = (x2, acc)"
    by (cases "probe_loop benchmark ?accs x1 (probe_start disc)")
  define v where "v = verdict tc (requested_of forced ?accs disc) acc (drop_failed acc (disc_capabilities disc))"
  have acand: "\<forall>c\<in>set ?accs. accelerator_candidate c"
    using c(2) by (auto simp: accelerated_candidates_def list_all_iff)
  have "case fastest acc of None \<Rightarrow> True | Some (w, t) \<Rightarrow> accelerator_candidate w \<and> requested_of forced ?accs disc \<noteq> None"
    using probe_loop_candidates [OF pl] acand
    by (fastforce simp: requested_of_def probe_start_def split: option.split list.split)
  then have v: "selection_honest (rs_selection v) \<and> storable v" "rs_cache_key v = None"
    using caps requested_not_cpu [OF fr acand decl] by (simp_all add: v_def verdict_honest verdict_no_key)
  have "failures acc = [] \<longrightarrow> accelerator_failures disc = []"
    using probe_loop_failures [OF pl] by (simp add: probe_start_def)
  with run v show ?thesis
    unfolding benchmark_runtime_unfold [OF c(1) cb pl v_def] by (auto simp: storable_def split: if_splits)
qed

text \<open>
  The law \<open>serde_json\<close> gives for the derived \<open>Serialize\<close> and \<open>Deserialize\<close> of the store: what is
  written is read back as it was.
\<close>

definition codec_roundtrip :: "store_codec \<Rightarrow> bool" where
  "codec_roundtrip codec \<longleftrightarrow> (\<forall>m e. store_to_vec codec m = Some e \<longrightarrow> store_from_slice codec e = Some m)"

definition store_honest :: "store_codec \<Rightarrow> cache_file \<Rightarrow> bool" where
  "store_honest codec file \<longleftrightarrow>
     (\<forall>k c. read_runtime_store codec file k = Some c \<longrightarrow> selection_honest (rs_selection (into_runtime c)))"

lemma mutate_runtime_cache_cases:
  assumes "codec_roundtrip codec"
  shows "mutate_runtime_cache codec io f fl = fl
    \<or> read_runtime_store codec (mutate_runtime_cache codec io f fl) = f (read_runtime_store codec fl)"
  using assms
  by (auto simp: mutate_runtime_cache_def codec_roundtrip_def read_runtime_store_def [of codec "Some _"]
      split: option.splits)

lemma write_runtime_cache_honest:
  assumes "codec_roundtrip codec" and "store_honest codec file" and "storable r" and "selection_honest (rs_selection r)"
  shows "store_honest codec (write_runtime_cache codec io key r file)"
proof -
  have "selection_honest (rs_selection (into_runtime (from_runtime r)))"
    using into_from_runtime [OF assms(3)] assms(4)
    by (metis runtime_selection.select_convs(1) runtime_selection.surjective runtime_selection.update_convs(5))
  with assms(2) mutate_runtime_cache_cases [OF assms(1), where f = "\<lambda>s. s(key \<mapsto> from_runtime r)" and fl = "file" and io = io]
  show ?thesis by (auto simp: store_honest_def write_runtime_cache_def split: if_splits)
qed

lemma invalidate_honest:
  assumes "codec_roundtrip codec" and "store_honest codec file"
  shows "store_honest codec (invalidate_cached_selection codec io r file)"
proof (cases "rs_cache_key r")
  case (Some key)
  with assms(2) mutate_runtime_cache_cases [OF assms(1), where f = "\<lambda>s. s(key := None)" and fl = "file" and io = io]
  show ?thesis by (auto simp: store_honest_def invalidate_cached_selection_def split: if_splits)
qed (use assms(2) in \<open>simp add: invalidate_cached_selection_def\<close>)

lemma cached_selection_honest:
  "store_honest codec file \<Longrightarrow> cached_selection codec disc key file = Some r \<Longrightarrow> selection_honest (rs_selection r)"
  by (auto simp: store_honest_def cached_selection_def read_runtime_cache_def split: option.splits if_splits)

lemma select_runtime_cases:
  assumes run: "select_runtime_with sha codec io context f discover benchmark file x = (file', x', res)"
  obtains (cpu) "normalize_forced f = Some CPU" "file' = file" "x' = x" "res = Inr (cpu_runtime selection_cpu cpu_only)"
  | (refused) b reason where "normalize_forced f = Some b" "b \<noteq> CPU" "file' = file" "x' = x"
      "res = Inr (degraded_runtime b reason)"
  | (cached) r where "normalize_forced f = None" "cacheable (disc_machine (discover ()))"
      "accelerator_failures (discover ()) = []"
      "cached_selection codec (discover ()) (runtime_cache_key sha context (disc_machine (discover ()))) file = Some r"
      "file' = file" "x' = x" "res = Inr r"
  | (benched) "normalize_forced f \<noteq> Some CPU"
      "benchmark_runtime codec io (runtime_cache_key sha context (disc_machine (discover ()))) (normalize_forced f)
         (discover ()) benchmark file x = (file', x', res)"
proof (cases "normalize_forced f")
  case None
  note def = run [unfolded select_runtime_with_def Let_def None, simplified]
  show ?thesis
  proof (cases "if cacheable (disc_machine (discover ())) \<and> accelerator_failures (discover ()) = []
      then cached_selection codec (discover ()) (runtime_cache_key sha context (disc_machine (discover ()))) file else None")
    case n: None
    with def None show ?thesis by (intro benched) simp_all
  next
    case (Some r)
    with def None show ?thesis by (intro cached [of r]) (simp_all split: if_splits)
  qed
next
  case (Some b)
  note def = run [unfolded select_runtime_with_def Let_def Some, simplified]
  consider "b = CPU" | "b \<noteq> CPU" "b \<notin> {METAL, VULKAN, CUDA}"
    | "b \<noteq> CPU" "b \<in> {METAL, VULKAN, CUDA}" "\<not> list_ex (\<lambda>c. cand_backend c = b) (disc_candidates (discover ()))"
    | "b \<noteq> CPU" "b \<in> {METAL, VULKAN, CUDA}" "list_ex (\<lambda>c. cand_backend c = b) (disc_candidates (discover ()))"
    by blast
  then show ?thesis
  proof cases
    case 1
    with def Some show ?thesis by (intro cpu) simp_all
  next
    case 2
    with def Some show ?thesis by (intro refused [of b "''unknown forced backend''"]) simp_all
  next
    case 3
    with def Some show ?thesis
      by (intro refused [of b "if accelerator_failures (discover ()) = [] then ''requested backend is unavailable''
                        else join_str ''; '' (accelerator_failures (discover ()))"]) auto
  next
    case 4
    with def Some show ?thesis by (intro benched) auto
  qed
qed

text \<open>What a verdict says of the timings \<open>b\<close> of the candidates \<open>C\<close> and \<open>tc\<close> of the CPU.\<close>

definition verdict_fastest ::
  "(backend_candidate \<Rightarrow> (string, probe_timing) result) \<Rightarrow> probe_timing \<Rightarrow> backend_candidate set \<Rightarrow> runtime_selection \<Rightarrow> bool" where
  "verdict_fastest b tc C r \<longleftrightarrow>
     (if sel_accelerated (rs_selection r)
      then (\<exists>w\<in>C. \<exists>t. b w = Inr t \<and> timing_total t < timing_total tc
             \<and> sel_resolved (rs_selection r) = cand_backend w \<and> rs_device r = cand_device w
             \<and> rs_device_index r = cand_device_index w
             \<and> (\<forall>c\<in>C. \<forall>t'. b c = Inr t' \<longrightarrow> timing_total t \<le> timing_total t'))
      else sel_resolved (rs_selection r) = CPU
           \<and> (\<forall>c\<in>C. \<forall>t. b c = Inr t \<longrightarrow> timing_total tc \<le> timing_total t))"

lemma verdict_fastest_key [simp]: "verdict_fastest b tc C (r\<lparr>rs_cache_key := k\<rparr>) = verdict_fastest b tc C r"
  by (simp add: verdict_fastest_def)

lemma verdict_fastestI:
  assumes "is_fastest b C (fastest acc)" and "\<forall>c\<in>C. accelerator_candidate c"
  shows "verdict_fastest b tc C (verdict tc req acc caps)"
proof (cases "fastest acc")
  case None
  with assms(1) have "\<forall>c\<in>C. \<forall>t. b c \<noteq> Inr t" by (simp add: is_fastest_def)
  with None show ?thesis
    by (simp add: verdict_fastest_def verdict_def cpu_runtime_def degraded_to_cpu_def selection_new_def selection_cpu_def
        split: option.split)
next
  case (Some wt)
  obtain w t where wt: "wt = (w, t)" by (cases wt)
  with assms(1) Some have w: "w \<in> C" "b w = Inr t" "\<forall>c\<in>C. \<forall>t'. b c = Inr t' \<longrightarrow> timing_total t \<le> timing_total t'"
    by (simp_all add: is_fastest_def)
  with assms(2) have "cand_backend w \<noteq> CPU" by (auto simp: accelerator_candidate_def)
  with w Some wt show ?thesis
    by (fastforce simp: verdict_fastest_def verdict_def cpu_runtime_def degraded_to_cpu_def selection_new_def)
qed

lemma select_runtime_honest:
  assumes "codec_roundtrip codec" and "store_honest codec file"
    and "discover () = (discover_candidates decl devs)\<lparr>accelerator_failures := fs\<rparr>"
    and "select_runtime_with sha codec io context f discover benchmark file x = (file', x', Inr r)"
  shows "selection_honest (rs_selection r) \<and> store_honest codec file'"
  using assms(4)
proof (cases rule: select_runtime_cases)
  case cpu
  with assms(2) show ?thesis by (simp add: cpu_runtime_def)
next
  case (refused b reason)
  with assms(2) show ?thesis by (simp add: degraded_runtime_def)
next
  case (cached r')
  with assms(2) show ?thesis using cached_selection_honest by simp
next
  case benched
  have "discovery_wf (discover ())" using discover_candidates_wf assms(3) by simp
  from benchmark_runtime_result [OF this benched] show ?thesis
    using assms(1,2) write_runtime_cache_honest by blast
qed

section \<open>Where the device of a verdict comes from\<close>

definition device_candidate :: "string \<Rightarrow> runtime_device \<Rightarrow> backend_candidate" where
  "device_candidate b d =
     \<lparr>cand_backend = b, cand_device = (if trim (dev_description d) = [] then dev_name d else dev_description d),
      cand_device_index = Some (dev_index d)\<rparr>"

text \<open>The devices listed for a backend the build supports.\<close>

definition listed_devices :: "declared_backends \<Rightarrow> runtime_device list \<Rightarrow> string \<Rightarrow> runtime_device list" where
  "listed_devices decl devs b =
     (if b \<in> {METAL, VULKAN, CUDA} \<and> supports decl b then filter (\<lambda>d. normalize_backend (dev_backend d) = Some b) devs else [])"

text \<open>
  The device of a verdict: the CPU; a device now listed for the backend, by its description or name and
  its index; or the one a stored verdict names, whose index, when the store has none, is that of the
  first device now listed for the backend.
\<close>

definition device_known ::
  "declared_backends \<Rightarrow> store_codec \<Rightarrow> cache_file \<Rightarrow> runtime_device list \<Rightarrow> string \<Rightarrow> string \<Rightarrow> nat option \<Rightarrow> bool" where
  "device_known decl codec file devs backend device index \<longleftrightarrow>
     backend = CPU \<and> device = CPU \<and> index = None
     \<or> (\<exists>d\<in>set (listed_devices decl devs backend).
          device_candidate backend d = \<lparr>cand_backend = backend, cand_device = device, cand_device_index = index\<rparr>)
     \<or> (\<exists>k c. read_runtime_store codec file k = Some c \<and> cc_resolved c = backend \<and> cc_device c = device
          \<and> index = (case cc_device_index c of
               Some i \<Rightarrow> Some i
             | None \<Rightarrow> (case listed_devices decl devs backend of [] \<Rightarrow> None | d # _ \<Rightarrow> Some (dev_index d))))"

lemma discover_devices_candidates:
  "acc_candidates (foldl (discover_device b) a ds) = acc_candidates a @ map (device_candidate b) ds"
  by (induction ds arbitrary: a) (simp_all add: discover_device_def device_candidate_def)

lemma discover_backend_candidates:
  "b \<in> {METAL, VULKAN, CUDA} \<Longrightarrow>
     acc_candidates (discover_backend decl devs a b) = acc_candidates a @ map (device_candidate b) (listed_devices decl devs b)"
  by (simp add: discover_backend_def listed_devices_def discover_devices_candidates)

lemma discovered_candidates:
  "disc_candidates (discover_candidates decl devs) =
     cpu_candidate # concat (map (\<lambda>b. map (device_candidate b) (listed_devices decl devs b)) [METAL, VULKAN, CUDA])"
  by (simp add: discover_candidates_def Let_def discover_backend_candidates)

lemma discovered_backend:
  assumes "b \<noteq> CPU"
  shows "filter (\<lambda>c. cand_backend c = b) (disc_candidates (discover_candidates decl devs))
    = map (device_candidate b) (listed_devices decl devs b)"
proof -
  have c: "filter (\<lambda>c. cand_backend c = x) (map (device_candidate b') ds) = (if b' = x then map (device_candidate b') ds else [])" for x b' ds
    by (induction ds) (simp_all add: device_candidate_def)
  consider "b = METAL" | "b = VULKAN" | "b = CUDA" | "b \<notin> {METAL, VULKAN, CUDA}" by blast
  then show ?thesis
    using assms by cases (auto simp: discovered_candidates c cpu_candidate_def listed_devices_def)
qed

lemma find_filter: "List.find P xs = (case filter P xs of [] \<Rightarrow> None | x # _ \<Rightarrow> Some x)"
  by (induction xs) auto

lemma discovered_known:
  assumes "c \<in> set (disc_candidates (discover_candidates decl devs))"
  shows "device_known decl codec file devs (cand_backend c) (cand_device c) (cand_device_index c)"
proof (cases "c = cpu_candidate")
  case False
  with assms obtain b d where "d \<in> set (listed_devices decl devs b)" "c = device_candidate b d"
    by (auto simp: discovered_candidates)
  then have "d \<in> set (listed_devices decl devs (cand_backend c))" "device_candidate (cand_backend c) d = c"
    by (simp_all add: device_candidate_def)
  then show ?thesis unfolding device_known_def by (intro disjI2 disjI1 bexI [of _ d]) simp_all
qed (simp add: device_known_def cpu_candidate_def)

lemma cached_known:
  assumes "cached_selection codec ((discover_candidates decl devs)\<lparr>accelerator_failures := fs\<rparr>) key file = Some r"
  shows "device_known decl codec file devs (sel_resolved (rs_selection r)) (rs_device r) (rs_device_index r)"
proof -
  obtain c where c: "read_runtime_store codec file key = Some c"
    using assms by (auto simp: cached_selection_def read_runtime_cache_def split: option.splits)
  let ?b = "cc_resolved c"
  have first: "(case List.find (\<lambda>c. cand_backend c = ?b) (disc_candidates (discover_candidates decl devs)) of None \<Rightarrow> None | Some c \<Rightarrow> cand_device_index c)
      = (case listed_devices decl devs ?b of [] \<Rightarrow> None | d # _ \<Rightarrow> Some (dev_index d))" if "?b \<noteq> CPU"
    unfolding find_filter discovered_backend [OF that] by (simp add: device_candidate_def split: list.split)
  have cpu: "listed_devices decl devs CPU = []" by (simp add: listed_devices_def)
  have r: "sel_resolved (rs_selection r) = ?b" "rs_device r = cc_device c"
    "rs_device_index r = (case cc_device_index c of Some i \<Rightarrow> Some i
       | None \<Rightarrow> (case listed_devices decl devs ?b of [] \<Rightarrow> None | d # _ \<Rightarrow> Some (dev_index d)))"
    using assms c first cpu
    by (auto simp: cached_selection_def read_runtime_cache_def into_runtime_def selection_new_def split: option.splits if_splits)
  from c show ?thesis unfolding device_known_def r by (intro disjI2 exI [of _ key] exI [of _ c]) simp
qed

lemma cpu_known [simp]: "device_known decl codec file devs CPU CPU None"
  by (simp add: device_known_def)

lemma benchmark_known:
  assumes run: "benchmark_runtime codec io key forced ((discover_candidates decl devs)\<lparr>accelerator_failures := fs\<rparr>) benchmark file x
      = (file', x', Inr r)"
  shows "device_known decl codec file devs (sel_resolved (rs_selection r)) (rs_device r) (rs_device_index r)"
proof -
  let ?disc = "(discover_candidates decl devs)\<lparr>accelerator_failures := fs\<rparr>"
  obtain others where c: "disc_candidates ?disc = cpu_candidate # others" using discovered_candidates by auto
  let ?accs = "accelerated_candidates forced others"
  obtain x1 tc where cb: "benchmark x cpu_candidate = (x1, Inr tc)"
    using run c by (auto simp: benchmark_runtime_def split: prod.splits sum.splits)
  obtain x2 acc where pl: "probe_loop benchmark ?accs x1 (probe_start ?disc) = (x2, acc)"
    by (cases "probe_loop benchmark ?accs x1 (probe_start ?disc)")
  define v where "v = verdict tc (requested_of forced ?accs ?disc) acc (drop_failed acc (disc_capabilities ?disc))"
  have known: "device_known decl codec file devs (cand_backend w) (cand_device w) (cand_device_index w)"
    if "fastest acc = Some (w, t)" for w t
  proof -
    have "w \<in> set ?accs" using probe_loop_candidates [OF pl that] by (simp add: probe_start_def)
    then have "w \<in> set (disc_candidates (discover_candidates decl devs))" using c by (auto simp: accelerated_candidates_def)
    then show ?thesis by (rule discovered_known)
  qed
  have "device_known decl codec file devs (sel_resolved (rs_selection v)) (rs_device v) (rs_device_index v)"
    using known
    by (simp add: v_def verdict_def cpu_runtime_def degraded_to_cpu_def selection_new_def selection_cpu_def
        split: option.split prod.split)
  moreover have "r = v \<or> r = v\<lparr>rs_cache_key := Some key\<rparr>"
    using run unfolding benchmark_runtime_unfold [OF c cb pl v_def] by (auto split: if_splits)
  ultimately show ?thesis by auto
qed

lemma select_runtime_known:
  assumes d: "discover () = (discover_candidates decl devs)\<lparr>accelerator_failures := fs\<rparr>"
    and "select_runtime_with sha codec io context f discover benchmark file x = (file', x', Inr r)"
  shows "device_known decl codec file devs (sel_resolved (rs_selection r)) (rs_device r) (rs_device_index r)"
  using assms(2)
proof (cases rule: select_runtime_cases)
  case cpu
  then show ?thesis by (simp add: cpu_runtime_def selection_cpu_def selection_new_def)
next
  case (refused b reason)
  then show ?thesis by (simp add: degraded_runtime_def degraded_to_cpu_def selection_new_def)
next
  case (cached r')
  then show ?thesis using cached_known d by simp
next
  case benched
  then show ?thesis using benchmark_known d by metis
qed

section \<open>Reading a verdict back\<close>

lemma discover_no_failures: "accelerator_failures (discover_candidates decl devs) = []"
  by (simp add: discover_candidates_def Let_def)

lemma select_cached:
  assumes "cacheable (disc_machine (discover ()))" and "accelerator_failures (discover ()) = []"
    and "cached_selection codec (discover ()) (runtime_cache_key sha context (disc_machine (discover ()))) file = Some r"
  shows "select_runtime_with sha codec io context None discover benchmark file x = (file, x, Inr r)"
  using assms by (simp add: select_runtime_with_def normalize_forced_def Let_def)

definition io_ok :: cache_io where
  "io_ok = \<lparr>io_create_dir = True, io_open_lock = True, io_lock = True, io_temp_file = True, io_write_all = True,
            io_sync_all = True, io_persist = True\<rparr>"

lemma write_then_read:
  assumes "codec_roundtrip codec"
    and "store_to_vec codec ((read_runtime_store codec fl)(key \<mapsto> from_runtime r)) = Some e"
    and "fl' = write_runtime_cache codec io_ok key r fl"
  shows "read_runtime_store codec fl' key = Some (from_runtime r)"
  using assms
  by (simp add: write_runtime_cache_def mutate_runtime_cache_def io_ok_def codec_roundtrip_def
      read_runtime_store_def [of codec "Some e"])

lemma cached_selection_stored:
  assumes "storable r" and "rs_cache_key r = Some key"
    and "read_runtime_store codec fl key = Some (from_runtime r)"
  shows "cached_selection codec disc key fl = Some r"
proof -
  have "read_runtime_cache codec fl key = Some r"
    using into_from_runtime [OF assms(1)] assms(2,3) by (simp add: read_runtime_cache_def)
  with assms(1) show ?thesis by (auto simp: cached_selection_def storable_def)
qed

section \<open>The key\<close>

definition key_components :: "selection_context \<Rightarrow> machine \<Rightarrow> string list" where
  "key_components context m =
     [ctx_sidecar_version context, ctx_model_sha256 context, ctx_native_build_identity context,
      ctx_packaged_backend_identity context, gpu m, driver m]"

section \<open>Properties of backend selection\<close>

text \<open>
  C34 (functional). The accelerator wins exactly when one beats the CPU: with the timings of a
  deterministic benchmark, the verdict is accelerated if and only if some considered candidate
  is strictly faster than the CPU over the two probes, and then the verdict names a fastest
  candidate, with its device. Ties, failures and slower accelerators go to the CPU.
\<close>

theorem benchmark_picks_fastest:
  assumes "disc_candidates disc = cpu # others" and "list_all accelerator_candidate others"
    and "b cpu = Inr tc"
  shows "\<exists>file' r. benchmark_runtime codec io key forced disc (fixed_timing b) file x = (file', x, Inr r)
    \<and> verdict_fastest b tc (set (accelerated_candidates forced others)) r"
proof -
  let ?accs = "accelerated_candidates forced others"
  obtain x2 acc where pl: "probe_loop (fixed_timing b) ?accs x (probe_start disc) = (x2, acc)"
    by (cases "probe_loop (fixed_timing b) ?accs x (probe_start disc)")
  have "is_fastest b (set ?accs) (fastest acc)"
    using probe_loop_fastest [OF _ pl, of "{}"] by (simp add: is_fastest_def probe_start_def)
  moreover have "\<forall>c\<in>set ?accs. accelerator_candidate c"
    using assms(2) by (auto simp: accelerated_candidates_def list_all_iff)
  ultimately have "verdict_fastest b tc (set ?accs) (verdict tc req acc caps)" for req caps
    by (rule verdict_fastestI)
  moreover have "fixed_timing b x cpu = (x, Inr tc)" by (simp add: fixed_timing_def assms(3))
  ultimately show ?thesis
    using benchmark_runtime_unfold [OF assms(1) _ pl refl, of x tc codec io key "file"] probe_loop_fixed_state [OF pl]
    by (auto split: if_splits)
qed

text \<open>A codec that reads and writes no store, for examples.\<close>

definition empty_codec :: store_codec where
  "empty_codec = \<lparr>store_to_vec = (\<lambda>m. None), store_from_slice = (\<lambda>e. None)\<rparr>"

definition sample_gpu :: backend_candidate where
  "sample_gpu = \<lparr>cand_backend = METAL, cand_device = ''gpu'', cand_device_index = Some 0\<rparr>"

definition sample_discovery :: discovery where
  "sample_discovery =
     \<lparr>disc_candidates = [cpu_candidate, sample_gpu], disc_capabilities = cpu_only\<lparr>cap_metal := True\<rparr>,
      disc_machine = machine_none, accelerator_failures = [], declared_accelerators = [METAL]\<rparr>"

definition sample_timing :: "backend_candidate \<Rightarrow> (string, probe_timing) result" where
  "sample_timing c =
     Inr (if cand_backend c = CPU then \<lparr>batch_1 = 5, batch_16 = 50\<rparr> else \<lparr>batch_1 = 4, batch_16 = 20\<rparr>)"

theorem benchmark_picks_fastest_witness:
  "\<exists>file' r. benchmark_runtime empty_codec io_ok ''k'' None sample_discovery (fixed_timing sample_timing) None () = (file', (), Inr r)
    \<and> verdict_fastest sample_timing \<lparr>batch_1 = 5, batch_16 = 50\<rparr> (set (accelerated_candidates None [sample_gpu])) r"
  using benchmark_picks_fastest [of sample_discovery cpu_candidate "[sample_gpu]" sample_timing
      "\<lparr>batch_1 = 5, batch_16 = 50\<rparr>" empty_codec io_ok "''k''" None None "()"]
  by (simp add: sample_discovery_def accelerator_candidate_def sample_gpu_def sample_timing_def cpu_candidate_def)

text \<open>
  C22 (invariant). Health cannot be told a degraded backend as healthy: whatever was forced,
  cached or measured, the selection is accelerated exactly when it resolved to something other
  than the CPU, it carries a degradation reason exactly when it resolved to something other
  than was requested, and the verdicts on disk stay such.
\<close>

theorem selection_stays_honest:
  assumes "codec_roundtrip codec" and "store_honest codec file"
    and "discover () = (discover_candidates decl devs)\<lparr>accelerator_failures := fs\<rparr>"
    and "select_runtime_with sha codec io context f discover benchmark file x = (file', x', Inr r)"
  shows "selection_honest (rs_selection r) \<and> store_honest codec file'"
  using assms by (rule select_runtime_honest)

definition sample_context :: selection_context where
  "sample_context =
     \<lparr>ctx_sidecar_version = ''1'', ctx_model_sha256 = ''m'', ctx_native_build_identity = ''n'',
      ctx_packaged_backend_identity = ''p''\<rparr>"

definition discover_nothing :: "unit \<Rightarrow> discovery" where
  "discover_nothing u = discover_candidates (declared_build (\<lambda>_. False)) []"

lemma discover_nothing_eq:
  "discover_nothing u = (discover_candidates (declared_build (\<lambda>_. False)) [])\<lparr>accelerator_failures := []\<rparr>"
  by (simp add: discover_nothing_def discover_candidates_def Let_def)

definition sample_verdict :: runtime_selection where
  "sample_verdict =
     (cpu_runtime selection_cpu cpu_only)\<lparr>rs_cache_key := Some (runtime_cache_key (\<lambda>b. b) sample_context machine_none)\<rparr>"

lemma empty_codec_facts: "codec_roundtrip empty_codec" "store_honest empty_codec None"
  by (simp_all add: codec_roundtrip_def store_honest_def empty_codec_def read_runtime_store_def)

lemma select_nothing:
  "select_runtime_with (\<lambda>b. b) codec io_ok sample_context None discover_nothing (fixed_timing sample_timing) None x
     = (write_runtime_cache codec io_ok (runtime_cache_key (\<lambda>b. b) sample_context machine_none) sample_verdict None,
        x, Inr sample_verdict)"
  by (simp add: select_runtime_with_def normalize_forced_def discover_nothing_def discover_candidates_def
      discover_backend_def declared_build_def supports_def stable_accelerators_def cached_selection_def
      read_runtime_cache_def read_runtime_store_def benchmark_runtime_def fixed_timing_def sample_timing_def
      accelerated_candidates_def requested_of_def probe_start_def verdict_def drop_failed_def machine_none_def
      cpu_candidate_def sample_verdict_def Let_def)

lemma empty_codec_write: "write_runtime_cache empty_codec io key r None = None"
  by (simp add: write_runtime_cache_def mutate_runtime_cache_def empty_codec_def)

theorem selection_stays_honest_witness:
  "selection_honest (rs_selection sample_verdict) \<and> store_honest empty_codec None"
  by (rule selection_stays_honest [OF empty_codec_facts discover_nothing_eq
        select_nothing [of empty_codec "()", unfolded empty_codec_write]])

text \<open>
  C35 (roundtrip). A measured verdict is measured once: when a first start stored its verdict, the
  next start under the same context and devices reads the same selection back, device and
  capabilities included, without running a benchmark and without touching the store.
\<close>

theorem cached_verdict_replayed:
  assumes "codec_roundtrip codec" and "discover () = discover_candidates decl devs"
    and "select_runtime_with sha codec io_ok context None discover benchmark file x = (file', x', Inr r)"
    and "rs_cache_key r = Some key"
    and "store_to_vec codec ((read_runtime_store codec file)(key \<mapsto> from_runtime r)) = Some e"
  shows "select_runtime_with sha codec io context None discover benchmark2 file' y = (file', y, Inr r)"
  using assms(3)
proof (cases rule: select_runtime_cases)
  case (cached r')
  then show ?thesis by (simp add: select_cached assms(2) discover_no_failures)
next
  case benched
  let ?key = "runtime_cache_key sha context (disc_machine (discover ()))"
  have wf: "discovery_wf (discover ())" using discover_candidates_wf [where fs = "[]"] assms(2)
    by (simp add: discovery_wf_def)
  from benchmark_runtime_result [OF wf benched] assms(4)
  have r: "storable r" "cacheable (disc_machine (discover ()))" "key = ?key"
    "file' = write_runtime_cache codec io_ok key r file" by auto
  have "read_runtime_store codec file' key = Some (from_runtime r)"
    using assms(1,5) r(4) by (rule write_then_read)
  then have "cached_selection codec (discover ()) ?key file' = Some r"
    using cached_selection_stored [OF r(1) assms(4)] r(3) by simp
  with r(2) show ?thesis by (simp add: select_cached assms(2) discover_no_failures)
qed (simp_all add: normalize_forced_def)

text \<open>A codec for one store, the one the example writes.\<close>

definition one_codec :: store_codec where
  "one_codec =
     (let m = [runtime_cache_key (\<lambda>b. b) sample_context machine_none \<mapsto> from_runtime sample_verdict]
      in \<lparr>store_to_vec = (\<lambda>s. if s = m then Some ''v'' else None),
          store_from_slice = (\<lambda>e. if e = ''v'' then Some m else None)\<rparr>)"

theorem cached_verdict_replayed_witness:
  "select_runtime_with (\<lambda>b. b) one_codec io_ok sample_context None discover_nothing (\<lambda>y c. (Suc y, Inl []))
     (write_runtime_cache one_codec io_ok (runtime_cache_key (\<lambda>b. b) sample_context machine_none) sample_verdict None) 0
   = (write_runtime_cache one_codec io_ok (runtime_cache_key (\<lambda>b. b) sample_context machine_none) sample_verdict None,
      0, Inr sample_verdict)"
  by (rule cached_verdict_replayed [OF _ discover_nothing_def select_nothing [of one_codec "()"],
        where key = "runtime_cache_key (\<lambda>b. b) sample_context machine_none" and e = "''v''"])
    (auto simp: one_codec_def codec_roundtrip_def sample_verdict_def  Let_def read_runtime_store_def split: if_splits)

text \<open>
  A failure is never remembered: when an accelerator module did not load or an
  accelerated candidate failed its probe, the verdict is not stored, so the next start tries
  again, and a load failure also keeps the store from being read.
\<close>

lemma failures_are_not_cached:
  assumes "disc_candidates (discover ()) = cpu # others"
    and "accelerator_failures (discover ()) \<noteq> [] \<or> (\<exists>c\<in>set others. \<exists>e. b c = Inl e)"
    and "select_runtime_with sha codec io context None discover (fixed_timing b) file x = (file', x', Inr r)"
    and "accelerator_failures (discover ()) \<noteq> [] \<or> cached_selection codec (discover ())
           (runtime_cache_key sha context (disc_machine (discover ()))) file = None"
  shows "file' = file \<and> rs_cache_key r = None"
  using assms(3)
proof (cases rule: select_runtime_cases)
  case benched
  then obtain tc where tc: "b cpu = Inr tc"
    using assms(1) by (auto simp: normalize_forced_def benchmark_runtime_def fixed_timing_def split: sum.splits)
  have f: "fixed_timing b x cpu = (x, Inr tc)" by (simp add: fixed_timing_def tc)
  obtain x2 acc where pl: "probe_loop (fixed_timing b) (accelerated_candidates None others) x (probe_start (discover ())) = (x2, acc)"
    by (cases "probe_loop (fixed_timing b) (accelerated_candidates None others) x (probe_start (discover ()))")
  have "failures acc \<noteq> []"
    using probe_loop_fixed_failures [OF pl] probe_loop_failures [OF pl] assms(2)
    by (fastforce simp: probe_start_def accelerated_candidates_def)
  with benched benchmark_runtime_unfold [OF assms(1) f pl refl] verdict_no_key show ?thesis
    by (auto simp: normalize_forced_def)
qed (use assms(4) in \<open>auto simp: normalize_forced_def\<close>)

definition load_failure :: "unit \<Rightarrow> discovery" where
  "load_failure u = sample_discovery\<lparr>accelerator_failures := [''e'']\<rparr>"

lemma failures_are_not_cached_witness:
  "\<exists>r. select_runtime_with (\<lambda>b. b) empty_codec io_ok sample_context None load_failure (fixed_timing sample_timing) (Some ''f'') ()
     = (Some ''f'', (), Inr r) \<and> Some ''f'' = Some ''f'' \<and> rs_cache_key r = None"
proof -
  have c: "disc_candidates (load_failure ()) = cpu_candidate # [sample_gpu]"
    "accelerator_failures (load_failure ()) \<noteq> []"
    by (simp_all add: load_failure_def sample_discovery_def)
  obtain fl r where run: "select_runtime_with (\<lambda>b. b) empty_codec io_ok sample_context None load_failure (fixed_timing sample_timing)
      (Some ''f'') () = (fl, (), Inr r)"
    by (auto simp: select_runtime_with_def normalize_forced_def load_failure_def sample_discovery_def benchmark_runtime_def
        fixed_timing_def sample_timing_def accelerated_candidates_def probe_start_def probe_step_def Let_def)
  from failures_are_not_cached [OF c(1) _ run] c(2) run show ?thesis by simp
qed

text \<open>
  The verdict of one machine is never taken for another's: the bytes the cache key
  is the digest of determine all six components of the context and the machine, whatever
  characters they hold.
\<close>

lemma key_preimage_injective:
  assumes "key_preimage context m = key_preimage context' m'"
    and "\<forall>c\<in>set (key_components context m @ key_components context' m'). length c < 2 ^ 64"
  shows "key_components context m = key_components context' m'"
proof (rule length_prefixed_inj)
  show "length (key_components context m) = length (key_components context' m')" by (simp add: key_components_def)
  show "\<forall>c\<in>set (key_components context m @ key_components context' m'). length c < 256 ^ 8" using assms(2) by simp
  show "concat (map (\<lambda>c. le_bytes 8 (length c) @ c) (key_components context m))
      = concat (map (\<lambda>c. le_bytes 8 (length c) @ c) (key_components context' m'))"
    using assms(1) by (simp add: key_preimage_def key_components_def)
qed

lemma key_preimage_injective_witness:
  "key_components sample_context machine_none = key_components sample_context (machine_none\<lparr>cacheable := False\<rparr>)"
  by (rule key_preimage_injective) (simp_all add: key_preimage_def key_components_def machine_none_def sample_context_def)

end
