(* ===== verification/Protocol.thy ===== *)
theory Protocol
  imports Health
begin

text \<open>
  \<open>src/src/protocol.rs\<close>: bounded line framing over a buffered reader, the dispatch of one request
  line, and the serve loop. A reader is the bytes \<open>fill_buf\<close> currently holds plus the script of
  what the operating system answers to later reads (data, \<open>Interrupted\<close>, an error, end of
  stream as an empty read or the end of the script); a writer is its \<open>write_all\<close> and \<open>flush\<close>.
  \<open>serve\<close> of the same file, which only resolves the model and picks the engine, is modelled
  with the engines.
\<close>

section \<open>Readers and writers\<close>

type_synonym io_error = string

datatype read_event = Data bytes | Interrupted | ReadErr io_error

record buf_reader =
  pending :: bytes
  script :: "read_event list"

datatype fill_result = FillOk bytes | FillInterrupted | FillErr io_error

definition fill_buf :: "buf_reader \<Rightarrow> buf_reader \<times> fill_result" where
  "fill_buf rd =
     (if pending rd \<noteq> [] then (rd, FillOk (pending rd))
      else case script rd of
             [] \<Rightarrow> (rd, FillOk [])
           | Data bs # es \<Rightarrow> (rd\<lparr>pending := bs, script := es\<rparr>, FillOk bs)
           | Interrupted # es \<Rightarrow> (rd\<lparr>script := es\<rparr>, FillInterrupted)
           | ReadErr e # es \<Rightarrow> (rd\<lparr>script := es\<rparr>, FillErr e))"

definition consume :: "buf_reader \<Rightarrow> nat \<Rightarrow> buf_reader" where
  "consume rd n = rd\<lparr>pending := drop n (pending rd)\<rparr>"

record 'w writer =
  write_all :: "'w \<Rightarrow> bytes \<Rightarrow> 'w \<times> (io_error, unit) result"
  flush :: "'w \<Rightarrow> 'w \<times> (io_error, unit) result"

text \<open>\<open>impl Write for Vec<u8>\<close>.\<close>

definition vec_writer :: "bytes writer" where
  "vec_writer = \<lparr>write_all = (\<lambda>w bs. (w @ bs, Inr ())), flush = (\<lambda>w. (w, Inr ()))\<rparr>"

section \<open>Framing\<close>

datatype line_read = LineRead | OversizedRead | EofRead

fun event_size :: "read_event \<Rightarrow> nat" where
  "event_size (Data bs) = Suc (length bs)"
| "event_size Interrupted = 1"
| "event_size (ReadErr e) = 1"

definition reader_size :: "buf_reader \<Rightarrow> nat" where
  "reader_size rd = length (pending rd) + sum_list (map event_size (script rd))"

lemma reader_size_consume: "reader_size (consume rd n) = reader_size rd - min n (length (pending rd))"
  by (auto simp: reader_size_def consume_def min_def)

lemma fill_buf_Ok:
  "fill_buf rd = (rd1, FillOk bs) \<Longrightarrow> pending rd1 = bs \<and> reader_size rd1 \<le> reader_size rd"
  by (auto simp: fill_buf_def reader_size_def split: if_splits list.splits read_event.splits)

lemma fill_buf_Interrupted:
  "fill_buf rd = (rd1, FillInterrupted) \<Longrightarrow> reader_size rd1 < reader_size rd"
  by (auto simp: fill_buf_def reader_size_def split: if_splits list.splits read_event.splits)

lemma fill_buf_Err: "fill_buf rd = (rd1, FillErr e) \<Longrightarrow> reader_size rd1 < reader_size rd"
  by (auto simp: fill_buf_def reader_size_def split: if_splits list.splits read_event.splits)

text \<open>The bytes of one \<open>fill_buf\<close> before the newline, and whether there is one.\<close>

definition content_len :: "bytes \<Rightarrow> nat" where
  "content_len available = (case position (\<lambda>b. b = newline) available of None \<Rightarrow> length available | Some i \<Rightarrow> i)"

definition has_newline :: "bytes \<Rightarrow> bool" where
  "has_newline available \<longleftrightarrow> position (\<lambda>b. b = newline) available \<noteq> None"

lemma content_len_less: "has_newline av \<Longrightarrow> content_len av < length av"
  by (auto simp: has_newline_def content_len_def dest: position_Some_less)

lemma fill_buf_chunk:
  assumes "fill_buf rd = (rd1, FillOk available)" and "available \<noteq> []" and "\<not> has_newline available"
  shows "reader_size (consume rd1 (content_len available)) < reader_size rd"
proof -
  from assms have f: "pending rd1 = available" "reader_size rd1 \<le> reader_size rd"
    using fill_buf_Ok by auto
  moreover have "content_len available = length available"
    using assms(3) by (auto simp: content_len_def has_newline_def)
  moreover have "0 < length available" "length available \<le> reader_size rd1"
    using assms f by (auto simp: reader_size_def)
  ultimately show ?thesis by (simp add: reader_size_consume del: length_greater_0_conv)
qed

text \<open>The update of \<open>buffer\<close> and \<open>oversized\<close> in one iteration.\<close>

definition absorb :: "nat \<Rightarrow> bytes \<Rightarrow> bytes \<Rightarrow> bool \<Rightarrow> bytes \<times> bool" where
  "absorb max_bytes available buffer oversized =
     (if oversized then (buffer, True)
      else if max_bytes < length buffer + content_len available then ([], True)
      else (buffer @ take (content_len available) available, False))"

function read_line_loop ::
  "nat \<Rightarrow> buf_reader \<Rightarrow> bytes \<Rightarrow> bool \<Rightarrow> buf_reader \<times> bytes \<times> (io_error, line_read) result" where
  "read_line_loop max_bytes rd buffer oversized =
     (case fill_buf rd of
        (rd1, FillInterrupted) \<Rightarrow> read_line_loop max_bytes rd1 buffer oversized
      | (rd1, FillErr e) \<Rightarrow> (rd1, buffer, Inl e)
      | (rd1, FillOk available) \<Rightarrow>
          if available = [] then
            (rd1, buffer,
             Inr (if oversized then OversizedRead else if buffer = [] then EofRead else LineRead))
          else
            (case absorb max_bytes available buffer oversized of
               (buffer', oversized') \<Rightarrow>
                 let rd2 = consume rd1 (content_len available + (if has_newline available then 1 else 0))
                 in if has_newline available
                    then (rd2, buffer', Inr (if oversized' then OversizedRead else LineRead))
                    else read_line_loop max_bytes rd2 buffer' oversized'))"
  by pat_completeness auto
termination
  by (relation "measure (\<lambda>(m, rd, b, ov). reader_size rd)")
    (auto simp: fill_buf_Interrupted fill_buf_chunk dest: sym)

declare read_line_loop.simps [simp del]

text \<open>\<open>buffer.clear()\<close>, then the loop.\<close>

definition read_line_capped ::
  "nat \<Rightarrow> buf_reader \<Rightarrow> bytes \<Rightarrow> buf_reader \<times> bytes \<times> (io_error, line_read) result" where
  "read_line_capped max_bytes rd buffer = read_line_loop max_bytes rd [] False"

section \<open>Envelopes\<close>

definition SCHEMA :: string where
  "SCHEMA = ''julie.embedding.sidecar''"

definition PROTOCOL_VERSION :: nat where
  "PROTOCOL_VERSION = 1"

definition INVALID_REQUEST :: string where
  "INVALID_REQUEST = ''invalid_request''"

definition INVALID_JSON :: string where
  "INVALID_JSON = ''invalid_json''"

definition UNKNOWN_METHOD :: string where
  "UNKNOWN_METHOD = ''unknown_method''"

definition INTERNAL_ERROR :: string where
  "INTERNAL_ERROR = ''internal_error''"

record error_body =
  error_code :: string
  error_message :: string

record response =
  resp_schema :: string
  resp_version :: nat
  resp_request_id :: string
  resp_result :: "json option"
  resp_error :: "error_body option"

record outcome =
  out_response :: response
  out_stop :: bool

record protocol_reply =
  reply_line :: string
  stop_connection :: bool

datatype framed_request = FramedEof | FramedLine | FramedRejected protocol_reply

text \<open>The serialised fields of \<open>Response\<close>, \<open>None\<close> fields skipped.\<close>

definition response_fields :: "response \<Rightarrow> (string \<times> json) list" where
  "response_fields r =
     [(''schema'', JString (resp_schema r)),
      (''version'', json_nat (resp_version r)),
      (''request_id'', JString (resp_request_id r))] @
     (case resp_result r of None \<Rightarrow> [] | Some v \<Rightarrow> [(''result'', v)]) @
     (case resp_error r of
        None \<Rightarrow> []
      | Some e \<Rightarrow>
          [(''error'', json_obj [(''code'', JString (error_code e)), (''message'', JString (error_message e))])])"

definition serialize_outcome :: "'f json_codec \<Rightarrow> outcome \<Rightarrow> (io_error, protocol_reply) result" where
  "serialize_outcome codec oc =
     (case codec_to_string codec (response_fields (out_response oc)) of
        Inl e \<Rightarrow> Inl e
      | Inr line \<Rightarrow> Inr \<lparr>reply_line = line, stop_connection = out_stop oc\<rparr>)"

definition outcome_reply :: "response \<Rightarrow> outcome option" where
  "outcome_reply r = Some \<lparr>out_response = r, out_stop = False\<rparr>"

definition success :: "string \<Rightarrow> json \<Rightarrow> response" where
  "success request_id v =
     \<lparr>resp_schema = SCHEMA, resp_version = PROTOCOL_VERSION, resp_request_id = request_id,
      resp_result = Some v, resp_error = None\<rparr>"

definition failure :: "string \<Rightarrow> string \<Rightarrow> string \<Rightarrow> response" where
  "failure request_id code message =
     \<lparr>resp_schema = SCHEMA, resp_version = PROTOCOL_VERSION, resp_request_id = request_id,
      resp_result = None, resp_error = Some \<lparr>error_code = code, error_message = message\<rparr>\<rparr>"

definition internal_error :: "string \<Rightarrow> engine_error \<Rightarrow> response" where
  "internal_error request_id err = failure request_id INTERNAL_ERROR (engine_error_display err)"

definition internal_error_reply ::
  "'f json_codec \<Rightarrow> string \<Rightarrow> string \<Rightarrow> string \<Rightarrow> (io_error, protocol_reply) result" where
  "internal_error_reply codec request_id kind message =
     serialize_outcome codec
       \<lparr>out_response = internal_error request_id (engine_error_new kind message), out_stop = False\<rparr>"

definition read_request ::
  "'f json_codec \<Rightarrow> limits \<Rightarrow> buf_reader \<Rightarrow> bytes
     \<Rightarrow> buf_reader \<times> bytes \<times> (io_error, framed_request) result" where
  "read_request codec lims rd buffer =
     (case read_line_capped (max_request_bytes lims) rd buffer of
        (rd', buffer', Inl e) \<Rightarrow> (rd', buffer', Inl e)
      | (rd', buffer', Inr EofRead) \<Rightarrow> (rd', buffer', Inr FramedEof)
      | (rd', buffer', Inr LineRead) \<Rightarrow> (rd', buffer', Inr FramedLine)
      | (rd', buffer', Inr OversizedRead) \<Rightarrow>
          (case serialize_outcome codec
                  \<lparr>out_response =
                     failure '''' INVALID_REQUEST
                       (''request line exceeds max_request_bytes ('' @ show_nat (max_request_bytes lims) @ '')''),
                   out_stop = False\<rparr> of
             Inl e \<Rightarrow> (rd', buffer', Inl e)
           | Inr reply \<Rightarrow> (rd', buffer', Inr (FramedRejected reply))))"

section \<open>Requests\<close>

definition extract_request_id :: "json_map \<Rightarrow> (string, string) result" where
  "extract_request_id request =
     (case obj_get request ''request_id'' of
        Some (JString i) \<Rightarrow> Inr i
      | Some _ \<Rightarrow> Inl ''request_id must be a string''
      | None \<Rightarrow>
          (case obj_get request ''id'' of
             Some (JString i) \<Rightarrow> Inr i
           | Some _ \<Rightarrow> Inl ''id must be a string''
           | None \<Rightarrow> Inr ''''))"

definition validate_schema :: "'f json_codec \<Rightarrow> json_map \<Rightarrow> (string, unit) result" where
  "validate_schema codec request =
     (case obj_get request ''schema'' of
        None \<Rightarrow> Inr ()
      | Some JNull \<Rightarrow> Inr ()
      | Some other \<Rightarrow>
          if other = JString SCHEMA then Inr ()
          else Inl (''schema mismatch: expected '' @ squote @ SCHEMA @ squote @ '', got '' @ codec_display codec other))"

definition version_accepted :: "json \<Rightarrow> bool" where
  "version_accepted v =
     (case v of JNumber n \<Rightarrow> as_f64 n = Some (of_nat PROTOCOL_VERSION) | _ \<Rightarrow> False)"

definition validate_version :: "'f json_codec \<Rightarrow> json_map \<Rightarrow> (string, unit) result" where
  "validate_version codec request =
     (case obj_get request ''version'' of
        None \<Rightarrow> Inr ()
      | Some JNull \<Rightarrow> Inr ()
      | Some other \<Rightarrow>
          if version_accepted other then Inr ()
          else Inl (''unsupported version: expected '' @ show_nat PROTOCOL_VERSION @ '', got '' @ codec_display codec other))"

definition embed_query ::
  "'f json_codec \<Rightarrow> ('s, 'f) embed_engine \<Rightarrow> string \<Rightarrow> json_map \<Rightarrow> 's \<Rightarrow> 's \<times> response" where
  "embed_query codec E request_id params s =
     (case obj_get params ''text'' of
        Some (JString text) \<Rightarrow>
          (case embed E s [text] Query of
             (s', Inl err) \<Rightarrow> (s', internal_error request_id err)
           | (s', Inr output) \<Rightarrow>
               (s', if length (out_vectors output) \<noteq> 1 then
                      internal_error request_id
                        (engine_error_new ''EmbeddingCountError''
                          (''expected 1 vector, got '' @ show_nat (length (out_vectors output))))
                    else
                      let vector = out_vectors output ! 0
                      in if length vector \<noteq> out_dims output then
                           internal_error request_id
                             (engine_error_new ''EmbeddingDimsError''
                               (''expected '' @ show_nat (out_dims output) @ '' dims, got '' @ show_nat (length vector)))
                         else
                           success request_id
                             (json_obj [(''dims'', json_nat (out_dims output)),
                                        (''vector'', JArray (map (codec_f32 codec) vector))])))
      | _ \<Rightarrow> (s, failure request_id INVALID_REQUEST ''embed_query params.text must be a string''))"

text \<open>The loop that copies the texts out of the JSON array.\<close>

fun string_texts :: "json list \<Rightarrow> string list option" where
  "string_texts [] = Some []"
| "string_texts (v # vs) =
     (case v of
        JString text \<Rightarrow> (case string_texts vs of None \<Rightarrow> None | Some ts \<Rightarrow> Some (text # ts))
      | _ \<Rightarrow> None)"

text \<open>The \<open>find_map\<close> over the enumerated vectors: the first of a wrong length.\<close>

fun first_bad_dims :: "nat \<Rightarrow> nat \<Rightarrow> 'f list list \<Rightarrow> (nat \<times> nat) option" where
  "first_bad_dims dims index [] = None"
| "first_bad_dims dims index (v # vs) =
     (if length v \<noteq> dims then Some (index, length v) else first_bad_dims dims (Suc index) vs)"

definition embed_batch ::
  "'f json_codec \<Rightarrow> ('s, 'f) embed_engine \<Rightarrow> limits \<Rightarrow> string \<Rightarrow> json_map \<Rightarrow> 's \<Rightarrow> 's \<times> response" where
  "embed_batch codec E lims request_id params s =
     (case obj_get params ''texts'' of
        Some (JArray raw_texts) \<Rightarrow>
          if max_batch_items lims < length raw_texts then
            (s, failure request_id INVALID_REQUEST
                  (''embed_batch params.texts exceeds max_batch_items ('' @ show_nat (max_batch_items lims)
                     @ ''): got '' @ show_nat (length raw_texts)))
          else
            (case string_texts raw_texts of
               None \<Rightarrow> (s, failure request_id INVALID_REQUEST ''embed_batch params.texts must contain only strings'')
             | Some texts \<Rightarrow>
                 (case embed E s texts Document of
                    (s', Inl err) \<Rightarrow> (s', internal_error request_id err)
                  | (s', Inr output) \<Rightarrow>
                      (s', if length (out_vectors output) \<noteq> length texts then
                             internal_error request_id
                               (engine_error_new ''EmbeddingCountError''
                                 (''expected '' @ show_nat (length texts) @ '' vectors, got ''
                                   @ show_nat (length (out_vectors output))))
                           else
                             (case first_bad_dims (out_dims output) 0 (out_vectors output) of
                                Some (index, actual) \<Rightarrow>
                                  internal_error request_id
                                    (engine_error_new ''EmbeddingDimsError''
                                      (''expected '' @ show_nat (out_dims output) @ '' dims at index ''
                                        @ show_nat index @ '', got '' @ show_nat actual))
                              | None \<Rightarrow>
                                  success request_id
                                    (json_obj [(''dims'', json_nat (out_dims output)),
                                       (''vectors'', JArray (map (\<lambda>v. JArray (map (codec_f32 codec) v)) (out_vectors output)))])))))
      | _ \<Rightarrow> (s, failure request_id INVALID_REQUEST ''embed_batch params.texts must be an array''))"

definition dispatch_method ::
  "'f json_codec \<Rightarrow> ('s, 'f) embed_engine \<Rightarrow> limits \<Rightarrow> string \<Rightarrow> string \<Rightarrow> json_map \<Rightarrow> 's \<Rightarrow> 's \<times> outcome" where
  "dispatch_method codec E lims request_id meth params s =
     (if meth = ''health'' then
        (s, \<lparr>out_response =
               (case health_facts E s of Inr facts \<Rightarrow> success request_id facts | Inl err \<Rightarrow> internal_error request_id err),
             out_stop = False\<rparr>)
      else if meth = ''embed_query'' then
        (case embed_query codec E request_id params s of (s', r) \<Rightarrow> (s', \<lparr>out_response = r, out_stop = False\<rparr>))
      else if meth = ''embed_batch'' then
        (case embed_batch codec E lims request_id params s of (s', r) \<Rightarrow> (s', \<lparr>out_response = r, out_stop = False\<rparr>))
      else if meth = ''shutdown'' then
        (s, \<lparr>out_response = success request_id (json_obj [(''stopping'', JBool True)]), out_stop = True\<rparr>)
      else
        (s, \<lparr>out_response = failure request_id UNKNOWN_METHOD (''unknown method: '' @ meth), out_stop = False\<rparr>))"

definition refuse :: "'s \<Rightarrow> string \<Rightarrow> string \<Rightarrow> 's \<times> outcome" where
  "refuse s request_id message =
     (s, \<lparr>out_response = failure request_id INVALID_REQUEST message, out_stop = False\<rparr>)"

definition dispatch ::
  "'f json_codec \<Rightarrow> ('s, 'f) embed_engine \<Rightarrow> limits \<Rightarrow> json_map \<Rightarrow> 's \<Rightarrow> 's \<times> outcome" where
  "dispatch codec E lims request s =
     (case extract_request_id request of
        Inl message \<Rightarrow> refuse s '''' message
      | Inr request_id \<Rightarrow>
          (case (case validate_schema codec request of
                   Inl e \<Rightarrow> Inl e | Inr _ \<Rightarrow> validate_version codec request) of
             Inl message \<Rightarrow> refuse s request_id message
           | Inr _ \<Rightarrow>
               (case obj_get request ''method'' of
                  Some (JString meth) \<Rightarrow>
                    (case obj_get request ''params'' of
                       None \<Rightarrow> dispatch_method codec E lims request_id meth [] s
                     | Some (JObject params) \<Rightarrow> dispatch_method codec E lims request_id meth params s
                     | Some _ \<Rightarrow> refuse s request_id ''params must be an object'')
                | _ \<Rightarrow> refuse s request_id ''method must be a string'')))"

definition handle_line ::
  "'f json_codec \<Rightarrow> ('s, 'f) embed_engine \<Rightarrow> limits \<Rightarrow> bytes \<Rightarrow> 's \<Rightarrow> 's \<times> outcome option" where
  "handle_line codec E lims raw s =
     (if \<not> utf8_valid raw then
        (s, outcome_reply (failure '''' INVALID_JSON ''invalid json: line is not valid UTF-8''))
      else
        let trimmed = trim raw
        in if trimmed = [] then (s, None)
           else
             (case codec_from_str codec trimmed of
                Inl err \<Rightarrow> (s, outcome_reply (failure '''' INVALID_JSON (''invalid json: '' @ err)))
              | Inr (JObject request) \<Rightarrow>
                  (case dispatch codec E lims request s of (s', oc) \<Rightarrow> (s', Some oc))
              | Inr _ \<Rightarrow> (s, outcome_reply (failure '''' INVALID_REQUEST ''request must be an object''))))"

definition process_line ::
  "'f json_codec \<Rightarrow> ('s, 'f) embed_engine \<Rightarrow> limits \<Rightarrow> bytes \<Rightarrow> 's
     \<Rightarrow> 's \<times> (io_error, protocol_reply option) result" where
  "process_line codec E lims line s =
     (case handle_line codec E lims line s of
        (s', None) \<Rightarrow> (s', Inr None)
      | (s', Some oc) \<Rightarrow>
          (s', case serialize_outcome codec oc of Inl e \<Rightarrow> Inl e | Inr reply \<Rightarrow> Inr (Some reply)))"

section \<open>The serve loop\<close>

text \<open>The three calls on the writer, each followed by \<open>?\<close>.\<close>

definition write_reply :: "'w writer \<Rightarrow> 'w \<Rightarrow> protocol_reply \<Rightarrow> 'w \<times> (io_error, unit) result" where
  "write_reply W w reply =
     (case write_all W w (reply_line reply) of
        (w1, Inl e) \<Rightarrow> (w1, Inl e)
      | (w1, Inr _) \<Rightarrow>
          (case write_all W w1 [newline] of
             (w2, Inl e) \<Rightarrow> (w2, Inl e)
           | (w2, Inr _) \<Rightarrow> flush W w2))"

text \<open>The induction that follows the loop, one case per way an iteration can go.\<close>

lemma read_line_loop_rule [consumes 1, case_names interrupted error eof newline chunk]:
  assumes "read_line_loop m rd buf ov = r"
    and "\<And>rd buf ov rd1 r. fill_buf rd = (rd1, FillInterrupted) \<Longrightarrow> P rd1 buf ov r \<Longrightarrow> P rd buf ov r"
    and "\<And>rd buf ov rd1 e. fill_buf rd = (rd1, FillErr e) \<Longrightarrow> P rd buf ov (rd1, buf, Inl e)"
    and "\<And>rd buf ov rd1. fill_buf rd = (rd1, FillOk []) \<Longrightarrow>
      P rd buf ov (rd1, buf, Inr (if ov then OversizedRead else if buf = [] then EofRead else LineRead))"
    and "\<And>rd buf ov rd1 av b o'. fill_buf rd = (rd1, FillOk av) \<Longrightarrow> has_newline av \<Longrightarrow>
      absorb m av buf ov = (b, o') \<Longrightarrow>
      P rd buf ov (consume rd1 (Suc (content_len av)), b, Inr (if o' then OversizedRead else LineRead))"
    and "\<And>rd buf ov rd1 av b o' r. fill_buf rd = (rd1, FillOk av) \<Longrightarrow> av \<noteq> [] \<Longrightarrow> \<not> has_newline av \<Longrightarrow>
      absorb m av buf ov = (b, o') \<Longrightarrow> P (consume rd1 (content_len av)) b o' r \<Longrightarrow> P rd buf ov r"
  shows "P rd buf ov r"
  using assms
proof (induction m rd buf ov arbitrary: r rule: read_line_loop.induct)
  case (1 m rd buf ov)
  note step = "1.prems"(2-)
  obtain rd1 f where f: "fill_buf rd = (rd1, f)" by (cases "fill_buf rd")
  note r = "1.prems"(1) [unfolded read_line_loop.simps [of m rd buf ov] f]
  show ?case
  proof (cases f)
    case FillInterrupted
    then have "read_line_loop m rd1 buf ov = r" using r by simp
    then have "P rd1 buf ov r"
      using "1.IH"(2) [OF f [symmetric] FillInterrupted] step by blast
    with f FillInterrupted step(1) show ?thesis by blast
  next
    case (FillErr e)
    with f r step(2) show ?thesis by auto
  next
    case (FillOk av)
    obtain b o' where ab: "absorb m av buf ov = (b, o')" by (cases "absorb m av buf ov")
    consider "av = []" | "has_newline av" "av \<noteq> []" | "\<not> has_newline av" "av \<noteq> []"
      by blast
    then show ?thesis
    proof cases
      case c: 1
      with f FillOk r step(3) [of rd rd1 buf ov] show ?thesis by auto
    next
      case c: 2
      with f FillOk r ab step(4) [of rd rd1 av buf ov b o'] show ?thesis by auto
    next
      case c: 3
      define rd2 where "rd2 = consume rd1 (content_len av)"
      have "read_line_loop m rd2 b o' = r" using c FillOk r ab by (simp add: rd2_def)
      then have "P rd2 b o' r"
        using "1.IH"(1) [OF f [symmetric] FillOk c(2) ab [symmetric] _ c(1), of rd2 r] step c(1)
        unfolding rd2_def by simp
      with c f FillOk ab step(5) show ?thesis by (simp add: rd2_def)
    qed
  qed
qed

lemma consume_newline_less:
  assumes "fill_buf rd = (rd1, FillOk av)" and "has_newline av"
  shows "reader_size (consume rd1 (Suc (content_len av))) < reader_size rd"
proof -
  have p: "pending rd1 = av" "reader_size rd1 \<le> reader_size rd"
    using assms(1) fill_buf_Ok by auto
  have "content_len av < length av" using assms(2) by (rule content_len_less)
  moreover have "length av \<le> reader_size rd1" using p by (simp add: reader_size_def)
  ultimately show ?thesis using p by (simp add: reader_size_consume)
qed

lemma read_line_loop_size:
  assumes "read_line_loop m rd buf ov = (rd', buf', res)"
  shows "reader_size rd' \<le> reader_size rd
     \<and> (res = Inr LineRead \<or> res = Inr OversizedRead \<longrightarrow> reader_size rd' < reader_size rd \<or> buf \<noteq> [] \<or> ov)"
  using assms
proof (induction rd buf ov "(rd', buf', res)" rule: read_line_loop_rule)
  case interrupted
  then show ?case using fill_buf_Interrupted by fastforce
next
  case error
  then show ?case by (auto dest: fill_buf_Err)
next
  case eof
  then show ?case by (auto dest: fill_buf_Ok)
next
  case newline
  then show ?case by (auto dest: consume_newline_less)
next
  case chunk
  then show ?case using fill_buf_chunk [OF chunk(1-3)] by fastforce
qed

datatype loop_reply = LoopEof | LoopSkip | LoopReply protocol_reply

text \<open>The value of \<open>let reply = match read_request(..)? ...\<close>, with \<open>continue\<close> as \<open>LoopSkip\<close>.\<close>

definition next_reply ::
  "'f json_codec \<Rightarrow> ('s, 'f) embed_engine \<Rightarrow> limits \<Rightarrow> buf_reader \<Rightarrow> bytes \<Rightarrow> 's
     \<Rightarrow> buf_reader \<times> bytes \<times> 's \<times> (io_error, loop_reply) result" where
  "next_reply codec E lims rd buffer s =
     (case read_request codec lims rd buffer of
        (rd1, b1, Inl e) \<Rightarrow> (rd1, b1, s, Inl e)
      | (rd1, b1, Inr FramedEof) \<Rightarrow> (rd1, b1, s, Inr LoopEof)
      | (rd1, b1, Inr (FramedRejected reply)) \<Rightarrow> (rd1, b1, s, Inr (LoopReply reply))
      | (rd1, b1, Inr FramedLine) \<Rightarrow>
          (case process_line codec E lims b1 s of
             (s1, Inl e) \<Rightarrow> (rd1, b1, s1, Inl e)
           | (s1, Inr None) \<Rightarrow> (rd1, b1, s1, Inr LoopSkip)
           | (s1, Inr (Some reply)) \<Rightarrow> (rd1, b1, s1, Inr (LoopReply reply))))"

lemma next_reply_size:
  assumes "next_reply codec E lims rd buffer s = (rd1, b1, s1, Inr r)" and "r \<noteq> LoopEof"
  shows "reader_size rd1 < reader_size rd"
proof -
  obtain rd2 b2 res where rr: "read_line_capped (max_request_bytes lims) rd buffer = (rd2, b2, res)"
    using prod_cases3 by blast
  from assms rr have "rd1 = rd2 \<and> (res = Inr LineRead \<or> res = Inr OversizedRead)"
    by (auto simp: next_reply_def read_request_def split: sum.splits prod.splits line_read.splits
        framed_request.splits option.splits)
  with rr show ?thesis
    using read_line_loop_size [of "max_request_bytes lims" rd "[]" False rd2 b2 res]
    by (auto simp: read_line_capped_def)
qed

function run_loop_with_limits ::
  "'f json_codec \<Rightarrow> ('s, 'f) embed_engine \<Rightarrow> limits \<Rightarrow> 'w writer \<Rightarrow> buf_reader \<Rightarrow> bytes \<Rightarrow> 'w \<Rightarrow> 's
     \<Rightarrow> buf_reader \<times> 'w \<times> 's \<times> (io_error, unit) result" where
  "run_loop_with_limits codec E lims W rd buffer w s =
     (case next_reply codec E lims rd buffer s of
        (rd1, b1, s1, Inl e) \<Rightarrow> (rd1, w, s1, Inl e)
      | (rd1, b1, s1, Inr LoopEof) \<Rightarrow> (rd1, w, s1, Inr ())
      | (rd1, b1, s1, Inr LoopSkip) \<Rightarrow> run_loop_with_limits codec E lims W rd1 b1 w s1
      | (rd1, b1, s1, Inr (LoopReply reply)) \<Rightarrow>
          (case write_reply W w reply of
             (w1, Inl e) \<Rightarrow> (rd1, w1, s1, Inl e)
           | (w1, Inr _) \<Rightarrow>
               if stop_connection reply then (rd1, w1, s1, Inr ())
               else run_loop_with_limits codec E lims W rd1 b1 w1 s1))"
  by pat_completeness auto
termination
  by (relation "measure (\<lambda>(codec, E, lims, W, rd, buffer, w, s). reader_size rd)")
    (auto dest!: next_reply_size [OF sym])

declare run_loop_with_limits.simps [simp del]

definition run_loop ::
  "'f json_codec \<Rightarrow> ('s, 'f) embed_engine \<Rightarrow> 'w writer \<Rightarrow> buf_reader \<Rightarrow> 'w \<Rightarrow> 's
     \<Rightarrow> buf_reader \<times> 'w \<times> 's \<times> (io_error, unit) result" where
  "run_loop codec E W rd w s = run_loop_with_limits codec E limits_default W rd [] w s"

section \<open>Framing does not depend on the chunks\<close>

definition clean_event :: "read_event \<Rightarrow> bool" where
  "clean_event e = (case e of Data bs \<Rightarrow> bs \<noteq> [] | Interrupted \<Rightarrow> True | ReadErr _ \<Rightarrow> False)"

definition event_bytes :: "read_event \<Rightarrow> bytes" where
  "event_bytes e = (case e of Data bs \<Rightarrow> bs | _ \<Rightarrow> [])"

text \<open>A reader that delivers its bytes without an error and without an early end.\<close>

definition clean_reader :: "buf_reader \<Rightarrow> bool" where
  "clean_reader rd \<longleftrightarrow> list_all clean_event (script rd)"

definition stream :: "buf_reader \<Rightarrow> bytes" where
  "stream rd = pending rd @ concat (map event_bytes (script rd))"

text \<open>The reference: cut the whole byte stream at its newlines.\<close>

definition cut_line :: "bytes \<Rightarrow> bytes \<times> bytes" where
  "cut_line bs = (case position (\<lambda>b. b = newline) bs of None \<Rightarrow> (bs, []) | Some i \<Rightarrow> (take i bs, drop (Suc i) bs))"

lemma fill_buf_clean:
  assumes "clean_reader rd" and "fill_buf rd = (rd1, f)"
  shows "clean_reader rd1 \<and> stream rd1 = stream rd \<and> (\<forall>e. f \<noteq> FillErr e)
    \<and> (f = FillOk [] \<longrightarrow> stream rd = []) \<and> (\<forall>av. f = FillOk av \<longrightarrow> pending rd1 = av)"
proof (cases "pending rd = []")
  case False
  with assms show ?thesis by (auto simp: fill_buf_def)
next
  case True
  show ?thesis
  proof (cases "script rd")
    case Nil
    with True assms show ?thesis by (auto simp: fill_buf_def stream_def)
  next
    case (Cons e es)
    with True assms show ?thesis
      by (cases e) (auto simp: fill_buf_def stream_def clean_reader_def clean_event_def event_bytes_def)
  qed
qed

lemma stream_consume: "n \<le> length (pending rd) \<Longrightarrow> stream (consume rd n) = drop n (stream rd)"
  by (simp add: stream_def consume_def)

lemma clean_consume [simp]: "clean_reader (consume rd n) = clean_reader rd"
  by (simp add: clean_reader_def consume_def)

lemma position_append_None:
  "\<forall>x\<in>set xs. \<not> p x \<Longrightarrow> position p (xs @ ys) = map_option ((+) (length xs)) (position p ys)"
  by (cases "position p ys"; induction xs) auto

lemma position_append_Some: "position p xs = Some i \<Longrightarrow> position p (xs @ ys) = Some i"
  by (induction xs arbitrary: i) (auto split: if_splits)

lemma cut_line_append:
  "newline \<notin> set xs \<Longrightarrow> cut_line (xs @ ys) = (xs @ fst (cut_line ys), snd (cut_line ys))"
  by (subst cut_line_def, subst position_append_None)
    (auto simp: cut_line_def split: option.split)

lemma cut_line_newline:
  assumes "has_newline av"
  shows "cut_line (av @ ys) = (take (content_len av) av, drop (Suc (content_len av)) av @ ys)"
proof -
  obtain i where i: "position (\<lambda>b. b = newline) av = Some i"
    using assms by (auto simp: has_newline_def)
  then have "i < length av" by (rule position_Some_less)
  with i show ?thesis by (simp add: cut_line_def content_len_def position_append_Some)
qed

lemma no_newline_content:
  assumes "\<not> has_newline av"
  shows "content_len av = length av \<and> newline \<notin> set av"
proof
  from assms have n: "position (\<lambda>b. b = newline) av = None" by (simp add: has_newline_def)
  then show "content_len av = length av" by (simp add: content_len_def)
  from n show "newline \<notin> set av" by (auto simp: position_None_iff)
qed

text \<open>What a read of one line must give, from the bytes still to come.\<close>

definition line_spec :: "nat \<Rightarrow> bytes \<Rightarrow> bytes \<Rightarrow> bytes \<Rightarrow> (io_error, line_read) result \<Rightarrow> bool" where
  "line_spec m bs rest buf' res \<longleftrightarrow>
     (if bs = [] then rest = [] \<and> buf' = [] \<and> res = Inr EofRead
      else rest = snd (cut_line bs)
         \<and> (if m < length (fst (cut_line bs)) then buf' = [] \<and> res = Inr OversizedRead
            else buf' = fst (cut_line bs) \<and> res = Inr LineRead))"

lemma read_line_loop_spec:
  assumes "read_line_loop m rd buf ov = r"
    and "clean_reader rd" and "newline \<notin> set buf" and "length buf \<le> m" and "ov \<longrightarrow> buf = []"
  shows "case r of (rd', buf', res) \<Rightarrow> clean_reader rd' \<and>
    (if ov then stream rd' = snd (cut_line (stream rd)) \<and> buf' = [] \<and> res = Inr OversizedRead
     else line_spec m (buf @ stream rd) (stream rd') buf' res)"
  using assms
proof (induction rd buf ov r rule: read_line_loop_rule)
  case (interrupted rd buf ov rd1 r)
  then show ?case using fill_buf_clean [OF interrupted(3) interrupted(1)] by (auto split: if_splits)
next
  case (error rd buf ov rd1 e)
  then show ?case using fill_buf_clean by blast
next
  case (eof rd buf ov rd1)
  have "stream rd = []" "clean_reader rd1" "stream rd1 = []"
    using fill_buf_clean [OF eof(2) eof(1)] by auto
  moreover have "cut_line buf = (buf, [])"
    using cut_line_append [of buf "[]"] eof by (simp add: cut_line_def)
  ultimately show ?case using eof by (auto simp: line_spec_def cut_line_def)
next
  case (newline rd buf ov rd1 av b o')
  note c = fill_buf_clean [OF newline(4) newline(1)]
  have len: "Suc (content_len av) \<le> length av"
    using newline(2) by (simp add: content_len_less Suc_leI)
  obtain ys where ys: "stream rd1 = av @ ys" using c by (auto simp: stream_def)
  then have srd: "stream rd = av @ ys" using c by simp
  have st: "stream (consume rd1 (Suc (content_len av))) = drop (Suc (content_len av)) av @ ys"
    using c len by (simp add: stream_consume srd)
  have cut: "cut_line (buf @ stream rd) = (buf @ take (content_len av) av, drop (Suc (content_len av)) av @ ys)"
    using newline(2,5) by (simp add: srd cut_line_append cut_line_newline)
  have cut': "cut_line (stream rd) = (take (content_len av) av, drop (Suc (content_len av)) av @ ys)"
    using newline(2) by (simp add: srd cut_line_newline)
  have "stream rd \<noteq> []" using len c ys by auto
  with c len st cut cut' newline(3,7) show ?case
    by (auto simp: line_spec_def absorb_def split: if_splits)
next
  case (chunk rd buf ov rd1 av b o' r)
  note c = fill_buf_clean [OF chunk(6) chunk(1)]
  have av: "content_len av = length av" "newline \<notin> set av"
    using chunk(3) no_newline_content by auto
  obtain ys where ys: "stream rd1 = av @ ys" using c by (auto simp: stream_def)
  then have srd: "stream rd = av @ ys" using c by simp
  have st: "stream (consume rd1 (content_len av)) = ys"
    using c av by (simp add: stream_consume srd)
  have cut: "cut_line (stream rd) = (av @ fst (cut_line ys), snd (cut_line ys))"
    "cut_line (buf @ stream rd) = (buf @ av @ fst (cut_line ys), snd (cut_line ys))"
    using chunk(7) av by (simp_all add: srd cut_line_append)
  have b: "newline \<notin> set b \<and> length b \<le> m \<and> (o' \<longrightarrow> b = [])"
    using chunk(4,7,8,9) av by (auto simp: absorb_def split: if_splits)
  have IH: "case r of (rd', buf', res) \<Rightarrow> clean_reader rd' \<and>
    (if o' then stream rd' = snd (cut_line ys) \<and> buf' = [] \<and> res = Inr OversizedRead
     else line_spec m (b @ ys) (stream rd') buf' res)"
  proof -
    have "clean_reader (consume rd1 (content_len av))" using c by simp
    from chunk(5) [OF this] b show ?thesis unfolding st by (cases o') simp_all
  qed
  show ?case
    using IH chunk(2,4,9) cut srd av by (auto simp: absorb_def line_spec_def cut_line_append split: if_splits)
qed

lemma read_line_capped_spec:
  assumes "clean_reader rd" and "read_line_capped m rd buffer = (rd', buf', res)"
  shows "clean_reader rd' \<and> line_spec m (stream rd) (stream rd') buf' res"
  using read_line_loop_spec [of m rd "[]" False "(rd', buf', res)"] assms
  by (simp add: read_line_capped_def)

lemma line_spec_unique:
  "line_spec m bs rest b r \<Longrightarrow> line_spec m bs rest' b' r' \<Longrightarrow> rest = rest' \<and> b = b' \<and> r = r'"
  by (auto simp: line_spec_def split: if_splits)

text \<open>Whatever the reader does, errors and early ends included, the buffer stays within the cap.\<close>

lemma read_line_loop_bounded:
  assumes "read_line_loop m rd buf ov = r" and "length buf \<le> m"
  shows "length (fst (snd r)) \<le> m"
  using assms
proof (induction rd buf ov r rule: read_line_loop_rule)
  case (newline rd buf ov rd1 av b o')
  then show ?case by (auto simp: absorb_def split: if_splits)
next
  case (chunk rd buf ov rd1 av b o' r)
  then show ?case by (auto simp: absorb_def split: if_splits)
qed auto

lemma content_no_newline: "newline \<notin> set (take (content_len av) av)"
proof (cases "has_newline av")
  case True
  then obtain i where i: "position (\<lambda>b. b = newline) av = Some i" by (auto simp: has_newline_def)
  then have "\<forall>x\<in>set (take i av). x \<noteq> newline" by (simp add: position_Some)
  with i show ?thesis by (auto simp: content_len_def)
next
  case False
  then show ?thesis using no_newline_content by auto
qed

lemma read_line_loop_no_newline:
  assumes "read_line_loop m rd buf ov = r" and "newline \<notin> set buf"
  shows "newline \<notin> set (fst (snd r))"
  using assms
proof (induction rd buf ov r rule: read_line_loop_rule)
  case (newline rd buf ov rd1 av b o')
  then show ?case using content_no_newline [of av] by (auto simp: absorb_def split: if_splits)
next
  case (chunk rd buf ov rd1 av b o' r)
  then show ?case using content_no_newline [of av] by (auto simp: absorb_def split: if_splits)
qed auto

section \<open>The whole conversation\<close>

text \<open>
  The reference semantics of a conversation: cut the input into lines, answer each line in
  turn, stop after a \<open>shutdown\<close>. It knows neither buffers nor chunks.
\<close>

datatype frame = Frame bytes | TooLong

lemma cut_line_shorter: "bs \<noteq> [] \<Longrightarrow> length (snd (cut_line bs)) < length bs"
  by (auto simp: cut_line_def split: option.split)

function frames :: "nat \<Rightarrow> bytes \<Rightarrow> frame list" where
  "frames m bs =
     (if bs = [] then []
      else (if m < length (fst (cut_line bs)) then TooLong else Frame (fst (cut_line bs)))
             # frames m (snd (cut_line bs)))"
  by pat_completeness auto
termination
  by (relation "measure (\<lambda>(m, bs). length bs)") (auto simp: cut_line_shorter)

declare frames.simps [simp del]

definition oversize_response :: "limits \<Rightarrow> response" where
  "oversize_response lims =
     failure '''' INVALID_REQUEST
       (''request line exceeds max_request_bytes ('' @ show_nat (max_request_bytes lims) @ '')'')"

fun answer :: "'f json_codec \<Rightarrow> ('s, 'f) embed_engine \<Rightarrow> limits \<Rightarrow> frame \<Rightarrow> 's \<Rightarrow> 's \<times> outcome option" where
  "answer codec E lims TooLong s = (s, Some \<lparr>out_response = oversize_response lims, out_stop = False\<rparr>)"
| "answer codec E lims (Frame l) s = handle_line codec E lims l s"

fun converse ::
  "'f json_codec \<Rightarrow> ('s, 'f) embed_engine \<Rightarrow> limits \<Rightarrow> frame list \<Rightarrow> 's \<Rightarrow> 's \<times> response list" where
  "converse codec E lims [] s = (s, [])"
| "converse codec E lims (fr # frs) s =
     (case answer codec E lims fr s of
        (s1, None) \<Rightarrow> converse codec E lims frs s1
      | (s1, Some oc) \<Rightarrow>
          if out_stop oc then (s1, [out_response oc])
          else (case converse codec E lims frs s1 of (s2, rs) \<Rightarrow> (s2, out_response oc # rs)))"

text \<open>
  \<open>serde_json::to_string\<close> on the response structure succeeds: its keys are strings, and its
  documented failures are non-string keys and a failing \<open>Serialize\<close>.
\<close>

definition codec_total :: "'f json_codec \<Rightarrow> bool" where
  "codec_total codec \<longleftrightarrow> (\<forall>fields. \<exists>line. codec_to_string codec fields = Inr line)"

definition render :: "'f json_codec \<Rightarrow> response \<Rightarrow> string" where
  "render codec r = (case codec_to_string codec (response_fields r) of Inr line \<Rightarrow> line | Inl _ \<Rightarrow> [])"

lemma serialize_total:
  "codec_total codec \<Longrightarrow> serialize_outcome codec oc
     = Inr \<lparr>reply_line = render codec (out_response oc), stop_connection = out_stop oc\<rparr>"
  unfolding codec_total_def serialize_outcome_def render_def
  by (metis (mono_tags, lifting) sum.case(2))

text \<open>One read of a request from a reader without errors takes the next frame off the stream.\<close>

lemma read_request_spec:
  assumes "codec_total codec" and "clean_reader rd" and "read_request codec lims rd buffer = (rd1, b1, res)"
  shows "clean_reader rd1 \<and>
    (case frames (max_request_bytes lims) (stream rd) of
       [] \<Rightarrow> frames (max_request_bytes lims) (stream rd1) = [] \<and> res = Inr FramedEof
     | TooLong # frs \<Rightarrow> frames (max_request_bytes lims) (stream rd1) = frs
         \<and> res = Inr (FramedRejected \<lparr>reply_line = render codec (oversize_response lims), stop_connection = False\<rparr>)
     | Frame l # frs \<Rightarrow> frames (max_request_bytes lims) (stream rd1) = frs \<and> b1 = l \<and> res = Inr FramedLine)"
proof -
  obtain rd2 b2 r where rr: "read_line_capped (max_request_bytes lims) rd buffer = (rd2, b2, r)"
    using prod_cases3 by blast
  then have c: "clean_reader rd2" and l: "line_spec (max_request_bytes lims) (stream rd) (stream rd2) b2 r"
    using read_line_capped_spec assms(2) by blast+
  show ?thesis
  proof (cases "stream rd = []")
    case True
    with l rr assms c show ?thesis by (auto simp: line_spec_def read_request_def frames.simps [of _ "[]"])
  next
    case False
    with l rr assms c show ?thesis
      by (auto simp: line_spec_def read_request_def serialize_total oversize_response_def
          frames.simps [of "max_request_bytes lims" "stream rd"] split: if_splits)
  qed
qed

lemma next_reply_spec:
  assumes "codec_total codec" and "clean_reader rd"
    and "next_reply codec E lims rd buffer s = (rd1, b1, s1, res)"
  shows "clean_reader rd1 \<and>
    (case frames (max_request_bytes lims) (stream rd) of
       [] \<Rightarrow> s1 = s \<and> res = Inr LoopEof
     | fr # frs \<Rightarrow>
         frames (max_request_bytes lims) (stream rd1) = frs \<and>
         (case answer codec E lims fr s of
            (s', None) \<Rightarrow> s1 = s' \<and> res = Inr LoopSkip
          | (s', Some oc) \<Rightarrow>
              s1 = s' \<and> res = Inr (LoopReply \<lparr>reply_line = render codec (out_response oc), stop_connection = out_stop oc\<rparr>)))"
proof -
  obtain rd2 b2 r where rr: "read_line_capped (max_request_bytes lims) rd buffer = (rd2, b2, r)"
    using prod_cases3 by blast
  then have c: "clean_reader rd2" and l: "line_spec (max_request_bytes lims) (stream rd) (stream rd2) b2 r"
    using read_line_capped_spec assms(2) by blast+
  show ?thesis
  proof (cases "stream rd = []")
    case True
    with l rr assms c show ?thesis
      by (auto simp: line_spec_def next_reply_def read_request_def frames.simps [of _ "[]"])
  next
    case False
    show ?thesis
      using l rr assms c False
      by (auto simp: line_spec_def next_reply_def read_request_def serialize_total process_line_def
          oversize_response_def frames.simps [of "max_request_bytes lims" "stream rd"]
          split: if_splits prod.splits option.splits)
  qed
qed

lemma run_loop_converse:
  assumes "codec_total codec" and "clean_reader rd"
  shows "\<exists>rd'. run_loop_with_limits codec E lims vec_writer rd buffer w s =
    (case converse codec E lims (frames (max_request_bytes lims) (stream rd)) s of
       (s', rs) \<Rightarrow> (rd', w @ concat (map (\<lambda>r. render codec r @ [newline]) rs), s', Inr ()))"
  using assms
proof (induction "reader_size rd" arbitrary: rd buffer w s rule: less_induct)
  case less
  obtain rd1 b1 s1 res where n: "next_reply codec E lims rd buffer s = (rd1, b1, s1, res)"
    using prod_cases4 by blast
  note spec = next_reply_spec [OF less(2,3) n]
  note unfold = run_loop_with_limits.simps [of codec E lims vec_writer rd buffer w s]
  have wr: "write_reply vec_writer w r = (w @ reply_line r @ [newline], Inr ())" for r
    by (simp add: write_reply_def vec_writer_def)
  show ?case
  proof (cases "frames (max_request_bytes lims) (stream rd)")
    case Nil
    with spec n show ?thesis by (simp add: unfold)
  next
    case (Cons fr frs)
    obtain s' oc where a: "answer codec E lims fr s = (s', oc)" by (cases "answer codec E lims fr s")
    show ?thesis
    proof (cases oc)
      case None
      with spec Cons a have e: "res = Inr LoopSkip" "s1 = s'" "clean_reader rd1"
        "frames (max_request_bytes lims) (stream rd1) = frs" by auto
      have "reader_size rd1 < reader_size rd"
        by (rule next_reply_size [OF n [unfolded e(1)]]) simp
      from less(1) [OF this less(2) e(3), of b1 w s1] show ?thesis
        using n e Cons a None by (simp add: unfold)
    next
      case (Some o1)
      define reply where "reply = \<lparr>reply_line = render codec (out_response o1), stop_connection = out_stop o1\<rparr>"
      from spec Cons a Some have e: "res = Inr (LoopReply reply)" "s1 = s'" "clean_reader rd1"
        "frames (max_request_bytes lims) (stream rd1) = frs" by (auto simp: reply_def)
      have "reader_size rd1 < reader_size rd"
        by (rule next_reply_size [OF n [unfolded e(1)]]) simp
      from less(1) [OF this less(2) e(3), of b1 "w @ reply_line reply @ [newline]" s1] show ?thesis
        using n e Cons a Some by (auto simp: unfold wr reply_def split: prod.splits)
    qed
  qed
qed

section \<open>Envelopes and dispatch\<close>

text \<open>What the frozen protocol promises of a response, and the codes it may carry.\<close>

definition envelope_wf :: "response \<Rightarrow> bool" where
  "envelope_wf r \<longleftrightarrow>
     resp_schema r = SCHEMA \<and> resp_version r = PROTOCOL_VERSION
     \<and> (resp_result r = None) \<noteq> (resp_error r = None)
     \<and> (case resp_error r of
          None \<Rightarrow> True
        | Some e \<Rightarrow> error_code e \<in> {INVALID_REQUEST, INVALID_JSON, UNKNOWN_METHOD, INTERNAL_ERROR})"

definition stopping_response :: "response \<Rightarrow> bool" where
  "stopping_response r \<longleftrightarrow> resp_result r = Some (json_obj [(''stopping'', JBool True)])"

text \<open>Errors the protocol layer answers by itself.\<close>

definition refused :: "response \<Rightarrow> bool" where
  "refused r \<longleftrightarrow>
     (case resp_error r of
        None \<Rightarrow> False
      | Some e \<Rightarrow> error_code e \<in> {INVALID_REQUEST, INVALID_JSON, UNKNOWN_METHOD})"

lemma codes_distinct:
  "INTERNAL_ERROR \<noteq> INVALID_REQUEST" "INTERNAL_ERROR \<noteq> INVALID_JSON" "INTERNAL_ERROR \<noteq> UNKNOWN_METHOD"
  by (simp_all add: INTERNAL_ERROR_def INVALID_REQUEST_def INVALID_JSON_def UNKNOWN_METHOD_def)

lemma envelope_success [simp]: "envelope_wf (success i v)" "\<not> refused (success i v)" "resp_request_id (success i v) = i"
  by (simp_all add: envelope_wf_def success_def refused_def)

lemma envelope_failure:
  "c \<in> {INVALID_REQUEST, INVALID_JSON, UNKNOWN_METHOD, INTERNAL_ERROR} \<Longrightarrow> envelope_wf (failure i c m)"
  by (simp add: envelope_wf_def failure_def)

lemma failure_id [simp]: "resp_request_id (failure i c m) = i"
  by (simp add: failure_def)

lemma envelope_internal [simp]:
  "envelope_wf (internal_error i e)" "\<not> refused (internal_error i e)" "resp_request_id (internal_error i e) = i"
  using codes_distinct by (simp_all add: internal_error_def envelope_wf_def refused_def failure_def)

lemma stopping_success [simp]:
  "stopping_response (success i v) \<longleftrightarrow> v = json_obj [(''stopping'', JBool True)]"
  by (simp add: stopping_response_def success_def)

text \<open>
  The three facts every handler contributes, gathered in one predicate: a well-formed envelope
  under the given id, a stop only with the shutdown acknowledgement, and an untouched engine
  behind a refusal.
\<close>

definition handled :: "string \<Rightarrow> 's \<Rightarrow> 's \<times> outcome \<Rightarrow> bool" where
  "handled i s r \<longleftrightarrow>
     envelope_wf (out_response (snd r)) \<and> resp_request_id (out_response (snd r)) = i
     \<and> (out_stop (snd r) \<longrightarrow> stopping_response (out_response (snd r)))
     \<and> (refused (out_response (snd r)) \<longrightarrow> fst r = s)"

lemma embed_query_response:
  assumes "embed_query codec E i params s = (s', r)"
  shows "envelope_wf r \<and> resp_request_id r = i \<and> (refused r \<longrightarrow> s' = s)"
  using assms
  by (auto simp: embed_query_def Let_def envelope_failure split: option.splits json.splits prod.splits sum.splits if_splits)

lemma embed_batch_response:
  assumes "embed_batch codec E lims i params s = (s', r)"
  shows "envelope_wf r \<and> resp_request_id r = i \<and> (refused r \<longrightarrow> s' = s)"
  using assms
  by (auto simp: embed_batch_def Let_def envelope_failure split: option.splits json.splits prod.splits sum.splits if_splits)

lemma dispatch_method_handled: "handled i s (dispatch_method codec E lims i meth params s)"
  using embed_query_response [of codec E i params s] embed_batch_response [of codec E lims i params s]
  by (auto simp: dispatch_method_def handled_def envelope_failure split: prod.splits sum.splits)

lemma refuse_handled: "handled i s (refuse s i m)"
  by (simp add: refuse_def handled_def envelope_failure)

text \<open>The id a response to a request object carries.\<close>

definition answered_id :: "json_map \<Rightarrow> string" where
  "answered_id request = (case extract_request_id request of Inl _ \<Rightarrow> '''' | Inr i \<Rightarrow> i)"

lemma dispatch_handled: "handled (answered_id request) s (dispatch codec E lims request s)"
  by (auto simp: dispatch_def answered_id_def dispatch_method_handled refuse_handled
      split: sum.split option.split json.split)

lemma handle_line_handled:
  assumes "handle_line codec E lims raw s = (s', Some oc)"
  shows "\<exists>i. handled i s (s', oc)"
  using assms dispatch_handled [of _ s codec E lims]
  by (auto simp: handle_line_def outcome_reply_def Let_def handled_def envelope_failure
      split: if_splits sum.splits json.splits prod.splits) (metis fst_conv snd_conv)+

section \<open>Requests through an honest engine\<close>

lemma first_bad_dims_None: "first_bad_dims d i vs = None \<longleftrightarrow> list_all (\<lambda>v. length v = d) vs"
  by (induction vs arbitrary: i) auto

lemma string_texts_map: "string_texts (map JString ts) = Some ts"
  by (induction ts) auto

lemma string_texts_Some: "string_texts vs = Some ts \<longleftrightarrow> vs = map JString ts"
proof
  show "string_texts vs = Some ts \<Longrightarrow> vs = map JString ts"
    by (induction vs arbitrary: ts) (auto split: json.splits option.splits)
qed (simp add: string_texts_map)

text \<open>The result objects of the two embedding methods.\<close>

definition query_result :: "'f json_codec \<Rightarrow> 'f embed_output \<Rightarrow> json" where
  "query_result codec out =
     json_obj [(''dims'', json_nat (out_dims out)), (''vector'', JArray (map (codec_f32 codec) (out_vectors out ! 0)))]"

definition batch_result :: "'f json_codec \<Rightarrow> 'f embed_output \<Rightarrow> json" where
  "batch_result codec out =
     json_obj [(''dims'', json_nat (out_dims out)),
               (''vectors'', JArray (map (\<lambda>v. JArray (map (codec_f32 codec) v)) (out_vectors out)))]"

text \<open>
  The reference for one line: what it demands of the engine. \<open>accepted\<close> is the method and the
  parameters of a request that passes every check before the dispatch.
\<close>

datatype demand = AskHealth | AskEmbed "string list" role | AskStop

definition request_of :: "'f json_codec \<Rightarrow> bytes \<Rightarrow> json option" where
  "request_of codec raw =
     (if utf8_valid raw then (case codec_from_str codec (trim raw) of Inl _ \<Rightarrow> None | Inr v \<Rightarrow> Some v) else None)"

definition accepted :: "'f json_codec \<Rightarrow> json_map \<Rightarrow> (string \<times> json_map) option" where
  "accepted codec request =
     (if (\<exists>i. extract_request_id request = Inr i) \<and> validate_schema codec request = Inr ()
         \<and> validate_version codec request = Inr ()
      then
        (case obj_get request ''method'' of
           Some (JString meth) \<Rightarrow>
             (case obj_get request ''params'' of
                None \<Rightarrow> Some (meth, [])
              | Some (JObject params) \<Rightarrow> Some (meth, params)
              | Some _ \<Rightarrow> None)
         | _ \<Rightarrow> None)
      else None)"

definition demand_of :: "limits \<Rightarrow> string \<Rightarrow> json_map \<Rightarrow> demand option" where
  "demand_of lims meth params =
     (if meth = ''health'' then Some AskHealth
      else if meth = ''embed_query'' then
        (case obj_get params ''text'' of Some (JString text) \<Rightarrow> Some (AskEmbed [text] Query) | _ \<Rightarrow> None)
      else if meth = ''embed_batch'' then
        (case obj_get params ''texts'' of
           Some (JArray vs) \<Rightarrow>
             (if length vs \<le> max_batch_items lims
              then (case string_texts vs of None \<Rightarrow> None | Some texts \<Rightarrow> Some (AskEmbed texts Document)) else None)
         | _ \<Rightarrow> None)
      else if meth = ''shutdown'' then Some AskStop
      else None)"

definition line_demand :: "'f json_codec \<Rightarrow> limits \<Rightarrow> bytes \<Rightarrow> (string \<times> demand) option" where
  "line_demand codec lims raw =
     (case request_of codec raw of
        Some (JObject request) \<Rightarrow>
          (case accepted codec request of
             None \<Rightarrow> None
           | Some (meth, params) \<Rightarrow>
               (case demand_of lims meth params of None \<Rightarrow> None | Some d \<Rightarrow> Some (answered_id request, d)))
      | _ \<Rightarrow> None)"

text \<open>The code of a line that demands nothing: the first thing that is wrong with it.\<close>

definition method_refusal :: "string \<Rightarrow> string" where
  "method_refusal meth =
     (if meth \<in> {''health'', ''embed_query'', ''embed_batch'', ''shutdown''} then INVALID_REQUEST else UNKNOWN_METHOD)"

definition refusal_code :: "'f json_codec \<Rightarrow> bytes \<Rightarrow> string" where
  "refusal_code codec raw =
     (case request_of codec raw of
        None \<Rightarrow> INVALID_JSON
      | Some (JObject request) \<Rightarrow>
          (case accepted codec request of
             None \<Rightarrow> INVALID_REQUEST
           | Some (meth, _) \<Rightarrow> method_refusal meth)
      | Some _ \<Rightarrow> INVALID_REQUEST)"

text \<open>What the engine makes of a demand, under the id of the request.\<close>

definition meet_demand ::
  "'f json_codec \<Rightarrow> ('s, 'f) embed_engine \<Rightarrow> string \<Rightarrow> demand \<Rightarrow> 's \<Rightarrow> 's \<times> response" where
  "meet_demand codec E i d s =
     (case d of
        AskHealth \<Rightarrow> (s, case health_facts E s of Inl e \<Rightarrow> internal_error i e | Inr facts \<Rightarrow> success i facts)
      | AskEmbed texts r \<Rightarrow>
          (case embed E s texts r of
             (s', Inl e) \<Rightarrow> (s', internal_error i e)
           | (s', Inr out) \<Rightarrow> (s', success i (case r of Query \<Rightarrow> query_result codec out | Document \<Rightarrow> batch_result codec out)))
      | AskStop \<Rightarrow> (s, success i (json_obj [(''stopping'', JBool True)])))"

definition refuses :: "'s \<Rightarrow> string \<Rightarrow> 's \<times> outcome \<Rightarrow> bool" where
  "refuses s code r \<longleftrightarrow> fst r = s \<and> \<not> out_stop (snd r) \<and> (\<exists>e. resp_error (out_response (snd r)) = Some e \<and> error_code e = code)"

definition meets :: "'f json_codec \<Rightarrow> ('s, 'f) embed_engine \<Rightarrow> string \<Rightarrow> demand \<Rightarrow> 's \<Rightarrow> 's \<times> outcome \<Rightarrow> bool" where
  "meets codec E i d s r \<longleftrightarrow> (fst r, out_response (snd r)) = meet_demand codec E i d s \<and> (out_stop (snd r) \<longleftrightarrow> d = AskStop)"

lemma refuse_refuses: "refuses s INVALID_REQUEST (refuse s i m)"
  by (simp add: refuses_def refuse_def failure_def)

context honest_engine
begin

lemma embed_query_answers:
  assumes "ok s" and "obj_get params ''text'' = Some (JString t)"
  shows "embed_query codec E i params s =
    (case embed E s [t] Query of
       (s', Inl e) \<Rightarrow> (s', internal_error i e)
     | (s', Inr out) \<Rightarrow> (s', success i (query_result codec out)))"
  using assms embed_query_single [of s t Query]
  by (fastforce simp: embed_query_def query_result_def split: prod.split sum.split)

lemma embed_batch_answers:
  assumes "ok s" and "obj_get params ''texts'' = Some (JArray (map JString ts))"
    and "length ts \<le> max_batch_items lims"
  shows "embed_batch codec E lims i params s =
    (case embed E s ts Document of
       (s', Inl e) \<Rightarrow> (s', internal_error i e)
     | (s', Inr out) \<Rightarrow> (s', success i (batch_result codec out)))"
proof (cases "embed E s ts Document")
  case (Pair s' res)
  show ?thesis
  proof (cases res)
    case (Inr out)
    with Pair assms(1) embed_honest [of s ts Document s' out]
    have "length (out_vectors out) = length ts" "first_bad_dims (out_dims out) 0 (out_vectors out) = None"
      by (simp_all add: output_honest_def first_bad_dims_None)
    with assms Pair Inr show ?thesis
      by (simp add: embed_batch_def string_texts_map batch_result_def)
  qed (use assms Pair in \<open>simp add: embed_batch_def string_texts_map\<close>)
qed

lemma dispatch_method_demand:
  assumes "ok s"
  shows "case demand_of lims meth params of
      None \<Rightarrow> refuses s (method_refusal meth) (dispatch_method codec E lims i meth params s)
    | Some d \<Rightarrow> meets codec E i d s (dispatch_method codec E lims i meth params s)"
proof -
  consider "meth = ''health''" | "meth = ''embed_query''" | "meth = ''embed_batch''" | "meth = ''shutdown''"
    | "meth \<notin> {''health'', ''embed_query'', ''embed_batch'', ''shutdown''}" by blast
  then show ?thesis
  proof cases
    case 1
    then show ?thesis
      by (simp add: demand_of_def dispatch_method_def meets_def meet_demand_def split: sum.split)
  next
    case 2
    show ?thesis
    proof (cases "\<exists>t. obj_get params ''text'' = Some (JString t)")
      case True
      then obtain t where "obj_get params ''text'' = Some (JString t)" by blast
      with 2 embed_query_answers [OF assms this, of codec i] show ?thesis
        by (auto simp: demand_of_def dispatch_method_def meets_def meet_demand_def split: prod.split sum.split)
    next
      case False
      with 2 show ?thesis
        by (auto simp: demand_of_def dispatch_method_def refuses_def method_refusal_def embed_query_def failure_def split: option.split json.split)
    qed
  next
    case 3
    show ?thesis
    proof (cases "\<exists>ts. obj_get params ''texts'' = Some (JArray (map JString ts)) \<and> length ts \<le> max_batch_items lims")
      case True
      then obtain ts where ts: "obj_get params ''texts'' = Some (JArray (map JString ts))" "length ts \<le> max_batch_items lims" by blast
      with 3 embed_batch_answers [OF assms ts, of codec i] show ?thesis
        by (auto simp: demand_of_def dispatch_method_def meets_def meet_demand_def string_texts_map split: prod.split sum.split)
    next
      case False
      have "string_texts vs = None"
        if "obj_get params ''texts'' = Some (JArray vs)" "\<not> max_batch_items lims < length vs" for vs
        using False that by (cases "string_texts vs") (auto simp: string_texts_Some)
      with 3 show ?thesis
        by (auto simp: demand_of_def dispatch_method_def refuses_def method_refusal_def embed_batch_def failure_def split: option.split json.split)
    qed
  next
    case 4
    then show ?thesis by (simp add: demand_of_def dispatch_method_def meets_def meet_demand_def)
  next
    case 5
    then show ?thesis by (simp add: demand_of_def dispatch_method_def refuses_def method_refusal_def failure_def)
  qed
qed

lemma dispatch_demand:
  assumes "ok s"
  shows "case accepted codec request of
      None \<Rightarrow> refuses s INVALID_REQUEST (dispatch codec E lims request s)
    | Some (meth, params) \<Rightarrow>
        dispatch codec E lims request s = dispatch_method codec E lims (answered_id request) meth params s"
  by (auto simp: accepted_def dispatch_def answered_id_def refuse_refuses split: sum.split option.split json.split)

lemma handle_line_demand:
  assumes "ok s" and h: "handle_line codec E lims raw s = (s', Some oc)"
  shows "case line_demand codec lims raw of
      None \<Rightarrow> refuses s (refusal_code codec raw) (s', oc)
    | Some (i, d) \<Rightarrow> meets codec E i d s (s', oc)"
proof (cases "\<exists>request. request_of codec raw = Some (JObject request)")
  case True
  then obtain request where r: "request_of codec raw = Some (JObject request)" by blast
  then have d: "dispatch codec E lims request s = (s', oc)"
    using h by (auto simp: request_of_def handle_line_def Let_def split: if_splits sum.splits prod.splits)
  show ?thesis
  proof (cases "accepted codec request")
    case None
    with dispatch_demand [OF assms(1), where codec = codec and request = request and lims = lims] r d show ?thesis
      by (simp add: line_demand_def refusal_code_def)
  next
    case (Some mp)
    obtain meth params where mp: "mp = (meth, params)" by (cases mp)
    with dispatch_demand [OF assms(1), where codec = codec and request = request and lims = lims] Some d
    have "dispatch_method codec E lims (answered_id request) meth params s = (s', oc)" by simp
    with dispatch_method_demand [OF assms(1), where codec = codec and lims = lims and meth = meth and params = params and i = "answered_id request"] r Some mp show ?thesis
      by (simp add: line_demand_def refusal_code_def split: option.splits)
  qed
next
  case False
  with h show ?thesis
    by (auto simp: request_of_def line_demand_def refusal_code_def handle_line_def Let_def refuses_def failure_def
        outcome_reply_def split: if_splits sum.splits json.splits option.splits prod.splits)
qed

lemma embed_query_keeps: "ok s \<Longrightarrow> ok (fst (embed_query codec E i params s))"
  using embed_keeps [of s _ Query]
  by (auto simp: embed_query_def Let_def split: option.split json.split)
    (simp add: case_prod_beta split: sum.split)

lemma embed_batch_keeps: "ok s \<Longrightarrow> ok (fst (embed_batch codec E lims i params s))"
  using embed_keeps [of s _ Document]
  by (auto simp: embed_batch_def Let_def split: option.split json.split)
    (simp add: case_prod_beta split: sum.split)

lemma dispatch_method_keeps: "ok s \<Longrightarrow> ok (fst (dispatch_method codec E lims i meth params s))"
  by (simp add: dispatch_method_def case_prod_beta embed_query_keeps embed_batch_keeps)

lemma handle_line_keeps: "ok s \<Longrightarrow> ok (fst (handle_line codec E lims raw s))"
  by (simp add: handle_line_def dispatch_def refuse_def Let_def case_prod_beta dispatch_method_keeps
      split: sum.split option.split json.split)

end

lemma version_accepted_iff:
  "version_accepted v \<longleftrightarrow> v \<in> {JNumber (PosInt 1), JNumber (Float 1)}"
proof (cases v)
  case (JNumber n)
  have "- nat_as_f64 m \<noteq> 1" for m
    using nat_as_f64_nonneg [of m] by linarith
  with JNumber show ?thesis
    by (cases n) (auto simp: version_accepted_def PROTOCOL_VERSION_def nat_as_f64_one)
qed (simp_all add: version_accepted_def)

section \<open>Properties of the wire protocol\<close>

text \<open>
  A small concrete codec, for examples: it reads \<open>{}\<close> as the empty object, the letter \<open>q\<close> as a
  shutdown request, and prints the keys of a response.
\<close>

definition sample_codec :: "unit json_codec" where
  "sample_codec =
     \<lparr>codec_from_str = (\<lambda>s. if s = ''{}'' then Inr (JObject [])
                            else if s = ''q'' then Inr (JObject [(''method'', JString ''shutdown'')])
                            else Inl ''expected value''),
      codec_from_slice = (\<lambda>s. if s = ''{}'' then Inr (JObject []) else Inl ''expected value''),
      codec_display = (\<lambda>v. ''value''),
      codec_to_string = (\<lambda>fields. Inr (concat (map fst fields))),
      codec_f32 = (\<lambda>x. JNull)\<rparr>"

definition sample_reader :: buf_reader where
  "sample_reader = \<lparr>pending = [], script = [Data ''{'', Interrupted, Data [CHR 0x7D, newline, CHR 0x71]]\<rparr>"

lemma sample_codec_total: "codec_total sample_codec"
  by (simp add: codec_total_def sample_codec_def)

lemma sample_reader_clean: "clean_reader sample_reader"
  by (simp add: clean_reader_def sample_reader_def clean_event_def)

text \<open>
  C1 (equivalence). Whatever the chunks in which the input arrives, and however often reads are
  interrupted, the serve loop ends without an error, having written exactly the responses of
  the reference conversation: cut the byte stream at its newlines, answer the lines in order,
  stop after \<open>shutdown\<close>. One newline-terminated line is written per answered request, in order.
  The hypotheses: \<open>serde_json\<close> can print a response, and the reader reports no error.
\<close>

theorem run_loop_serves_frames:
  assumes "codec_total codec" and "clean_reader rd"
  shows "\<exists>rd'. run_loop codec E vec_writer rd w s =
    (case converse codec E limits_default (frames MAX_REQUEST_BYTES (stream rd)) s of
       (s', rs) \<Rightarrow> (rd', w @ concat (map (\<lambda>r. render codec r @ [newline]) rs), s', Inr ()))"
  using run_loop_converse [OF assms, of E limits_default "[]" w s]
  by (simp add: run_loop_def limits_default_def)

theorem run_loop_serves_frames_witness:
  "codec_total sample_codec \<and> clean_reader sample_reader \<and>
   (\<exists>rd'. run_loop sample_codec unready_ops vec_writer sample_reader [] (unready_new ''r'') =
    (case converse sample_codec unready_ops limits_default
            (frames MAX_REQUEST_BYTES (stream sample_reader)) (unready_new ''r'') of
       (s', rs) \<Rightarrow> (rd', [] @ concat (map (\<lambda>r. render sample_codec r @ [newline]) rs), s', Inr ())))"
  using run_loop_serves_frames [OF sample_codec_total sample_reader_clean, of unready_ops "[]" "unready_new ''r''"]
    sample_codec_total sample_reader_clean by simp

text \<open>
  C37 (bounds). A caller cannot grow the request buffer by withholding a newline: whatever the
  reader does, errors and early ends included, the buffer a read leaves behind holds at most
  \<open>max_bytes\<close> bytes and never a newline.
\<close>

theorem read_line_capped_bounded:
  "length (fst (snd (read_line_capped m rd buffer))) \<le> m
   \<and> newline \<notin> set (fst (snd (read_line_capped m rd buffer)))"
  unfolding read_line_capped_def
  using read_line_loop_bounded [of m rd "[]" False] read_line_loop_no_newline [of m rd "[]" False] by simp

text \<open>
  C33 (type). Every answer to a line is an envelope of the frozen protocol: its schema and
  version, exactly one of \<open>result\<close> and \<open>error\<close>, one of the four error codes; only the answer
  that acknowledges a shutdown stops the connection; and an answer with a code other than
  \<open>internal_error\<close> leaves the engine as it was.
\<close>

theorem handle_line_envelope:
  assumes "handle_line codec E lims raw s = (s', Some oc)"
  shows "envelope_wf (out_response oc) \<and> (out_stop oc \<longrightarrow> stopping_response (out_response oc))
    \<and> (refused (out_response oc) \<longrightarrow> s' = s)"
  using handle_line_handled [OF assms] by (auto simp: handled_def)

theorem handle_line_envelope_witness:
  "handle_line sample_codec unready_ops limits_default ''{}'' (unready_new ''r'')
     = (unready_new ''r'', Some \<lparr>out_response = failure '''' INVALID_REQUEST ''method must be a string'', out_stop = False\<rparr>)
   \<and> envelope_wf (failure '''' INVALID_REQUEST ''method must be a string'')"
proof -
  have h: "handle_line sample_codec unready_ops limits_default ''{}'' (unready_new ''r'')
     = (unready_new ''r'', Some \<lparr>out_response = failure '''' INVALID_REQUEST ''method must be a string'', out_stop = False\<rparr>)"
    by (simp add: handle_line_def sample_codec_def utf8_valid.simps byte_of_def trim_def trim_start.simps trim_end.simps
        lead_ws_def trail_ws_def white_space_def starts_with_def ends_with_def dispatch_def extract_request_id_def
        obj_get_def validate_schema_def validate_version_def refuse_def)
  from handle_line_envelope [OF h] h show ?thesis by simp
qed

text \<open>
  A request gets its own id back: the \<open>request_id\<close> when that is a string, the
  legacy \<open>id\<close> when \<open>request_id\<close> is absent, on every branch of the dispatch, errors included.
\<close>

lemma dispatch_echoes_request_id:
  assumes "obj_get request ''request_id'' = Some (JString i)
    \<or> obj_get request ''request_id'' = None \<and> obj_get request ''id'' = Some (JString i)"
  shows "resp_request_id (out_response (snd (dispatch codec E lims request s))) = i"
proof -
  from assms have "answered_id request = i" by (auto simp: answered_id_def extract_request_id_def)
  with dispatch_handled [of request s codec E lims] show ?thesis by (simp add: handled_def)
qed

lemma dispatch_echoes_request_id_witness:
  "resp_request_id (out_response (snd (dispatch sample_codec unready_ops limits_default
     [(''id'', JString ''7''), (''method'', JNull)] (unready_new ''r'')))) = ''7''"
  by (rule dispatch_echoes_request_id) (simp add: obj_get_def)

text \<open>
  No line is silently dropped but a blank one: a line gets no answer exactly
  when it is valid UTF-8 and consists of white space.
\<close>

lemma handle_line_silent_iff:
  "snd (handle_line codec E lims raw s) = None \<longleftrightarrow> utf8_valid raw \<and> trim raw = []"
  by (auto simp: handle_line_def outcome_reply_def Let_def split: sum.split json.split prod.split)

text \<open>
  The connection stops exactly for a well-formed \<open>shutdown\<close>: a usable id,
  accepted schema and version, the method, and \<open>params\<close> absent or an object.
\<close>

lemma dispatch_stops_iff:
  "out_stop (snd (dispatch codec E lims request s)) \<longleftrightarrow>
     (\<exists>i. extract_request_id request = Inr i) \<and> validate_schema codec request = Inr ()
     \<and> validate_version codec request = Inr () \<and> obj_get request ''method'' = Some (JString ''shutdown'')
     \<and> (obj_get request ''params'' = None \<or> (\<exists>p. obj_get request ''params'' = Some (JObject p)))"
  by (auto simp: dispatch_def refuse_def dispatch_method_def split: sum.split option.split json.split prod.split)

text \<open>
  A version is accepted exactly when it is absent, null, or the number one,
  written as an integer or as a float; no other number rounds to it.
\<close>

lemma validate_version_accepts_iff:
  "validate_version codec request = Inr () \<longleftrightarrow>
     obj_get request ''version'' \<in> {None, Some JNull, Some (JNumber (PosInt 1)), Some (JNumber (Float 1))}"
  by (auto simp: validate_version_def version_accepted_iff split: option.split json.split)

end
