(* ===== verification/Llama_Engine.thy ===== *)
theory Llama_Engine
  imports Encode Backend_Select Text_Fit Protocol
begin

text \<open>
  \<open>LlamaEngine\<close> of \<open>src/src/engine.rs\<close> once it is loaded: the per-text pipeline (sanitize, prefix,
  fit, append the end marker, tokenize), the encoding of one group, and the \<open>EmbedEngine\<close>
  methods. llama.cpp, through the crate \<open>llama_cpp_2\<close>, is the record \<open>llama_api\<close> of the calls the
  engine makes; the state \<open>'x\<close> is the native world (device memory), on which contexts are made
  and run. A tokenizer call depends on the model only.
\<close>

section \<open>llama.cpp\<close>

datatype piece_error = InsufficientBufferSpace int string | OtherPieceError string

definition piece_error_display :: "piece_error \<Rightarrow> string" where
  "piece_error_display e = (case e of InsufficientBufferSpace n text \<Rightarrow> text | OtherPieceError text \<Rightarrow> text)"

record context_params =
  p_n_ctx :: "nat option"
  p_n_batch :: nat
  p_n_ubatch :: nat
  p_n_seq_max :: nat
  p_embeddings :: bool
  p_pooling :: pooling

record ('x, 'c, 'b, 'f) llama_api =
  str_to_token :: "string \<Rightarrow> bool \<Rightarrow> (string, llama_token list) result"
  token_to_piece_bytes :: "llama_token \<Rightarrow> nat \<Rightarrow> (piece_error, bytes) result"
  from_utf8_error :: "bytes \<Rightarrow> string"
  new_context :: "'x \<Rightarrow> context_params \<Rightarrow> 'x \<times> (string, 'c) result"
  batch_new :: "nat \<Rightarrow> nat \<Rightarrow> 'b"
  add_sequence :: "'b \<Rightarrow> llama_token list \<Rightarrow> nat \<Rightarrow> bool \<Rightarrow> 'b option"
  ctx_encode :: "'x \<Rightarrow> 'c \<Rightarrow> 'b \<Rightarrow> 'x \<times> (llama_run_error, 'c) result"
  ctx_decode :: "'x \<Rightarrow> 'c \<Rightarrow> 'b \<Rightarrow> 'x \<times> (llama_run_error, 'c) result"
  embeddings_seq_ith :: "'c \<Rightarrow> nat \<Rightarrow> (string, 'f list) result"

section \<open>Definitions\<close>

definition LLAMA_CPP_BUILD :: string where
  "LLAMA_CPP_BUILD = ''llama-cpp-2 0.1.151 (llama-cpp-rs 7f0a0d95, vendored llama.cpp)''"

definition RUNTIME :: string where
  "RUNTIME = ''llama.cpp''"

definition MAX_TOKENS_PER_ENCODE :: nat where
  "MAX_TOKENS_PER_ENCODE = 4096"

definition MAX_DECODE_SEQUENCES :: nat where
  "MAX_DECODE_SEQUENCES = 64"

definition MAX_CLS_GROUP_TOKENS :: nat where
  "MAX_CLS_GROUP_TOKENS = 2048"

definition MAX_DECODE_UBATCH_TOKENS :: nat where
  "MAX_DECODE_UBATCH_TOKENS = 2048"

datatype backend_policy = Auto | CpuOnly

record llama_engine =
  le_pin :: model_pin
  le_eos_reserve :: nat
  le_special_token_overhead :: nat
  le_device :: string
  le_selection :: selection
  le_capabilities :: backend_capabilities

definition token_piece :: "('x, 'c, 'b, 'f) llama_api \<Rightarrow> llama_token \<Rightarrow> (string, bytes) result" where
  "token_piece M token =
     (case token_to_piece_bytes M token 8 of
        Inl (InsufficientBufferSpace needed text) \<Rightarrow>
          if needed \<le> 0 then
            (case token_to_piece_bytes M token (nat (- needed)) of
               Inl e \<Rightarrow> Inl (piece_error_display e)
             | Inr bs \<Rightarrow> Inr bs)
          else Inl ''out of range integral type conversion attempted''
      | Inl other \<Rightarrow> Inl (piece_error_display other)
      | Inr bs \<Rightarrow> Inr bs)"

definition detokenize :: "('x, 'c, 'b, 'f) llama_api \<Rightarrow> llama_token list \<Rightarrow> (string, string) result" where
  "detokenize M tokens =
     (case collect_results (token_piece M) tokens of
        Inl e \<Rightarrow> Inl e
      | Inr pieces \<Rightarrow>
          if utf8_valid (concat pieces) then Inr (concat pieces)
          else Inl (from_utf8_error M (concat pieces)))"

text \<open>The closures \<open>build_input\<close> passes to \<open>fit\<close>: the state is the first error either one met.\<close>

definition record_error :: "string option \<Rightarrow> string \<Rightarrow> string option" where
  "record_error slot err = (case slot of None \<Rightarrow> Some err | Some e \<Rightarrow> Some e)"

definition fit_tokenize :: "('x, 'c, 'b, 'f) llama_api \<Rightarrow> string option \<Rightarrow> string \<Rightarrow> string option \<times> llama_token list" where
  "fit_tokenize M slot s =
     (case str_to_token M s False of Inr tokens \<Rightarrow> (slot, tokens) | Inl err \<Rightarrow> (record_error slot err, []))"

definition fit_detokenize :: "('x, 'c, 'b, 'f) llama_api \<Rightarrow> string option \<Rightarrow> llama_token list \<Rightarrow> string option \<times> string" where
  "fit_detokenize M slot tokens =
     (case detokenize M tokens of Inr text \<Rightarrow> (slot, text) | Inl err \<Rightarrow> (record_error slot err, ''''))"

definition tokenize_error :: "string \<Rightarrow> engine_error" where
  "tokenize_error err = engine_error_new ''Tokenize'' err"

definition build_input ::
  "('x, 'c, 'b, 'f) llama_api \<Rightarrow> llama_engine \<Rightarrow> string \<Rightarrow> role \<Rightarrow> (engine_error, llama_token list) result" where
  "build_input M e text r =
     (let instruction = (case r of Query \<Rightarrow> query_instruction (le_pin e) | Document \<Rightarrow> document_instruction (le_pin e));
          prefixed = instruction @ sanitize text
      in case fit prefixed (max_text_tokens (le_pin e)) (le_eos_reserve e) (le_special_token_overhead e)
                (fit_tokenize M) (fit_detokenize M) None of
           (Some err, fitted) \<Rightarrow> Inl (tokenize_error err)
         | (None, fitted) \<Rightarrow>
             (let with_eos = (case eos_marker (le_pin e) of Some marker \<Rightarrow> fitted @ marker | None \<Rightarrow> fitted)
              in case str_to_token M with_eos True of
                   Inl err \<Rightarrow> Inl (tokenize_error err)
                 | Inr tokens \<Rightarrow> Inr tokens))"

definition input_token_count ::
  "('x, 'c, 'b, 'f) llama_api \<Rightarrow> llama_engine \<Rightarrow> string \<Rightarrow> role \<Rightarrow> (engine_error, nat) result" where
  "input_token_count M e text r =
     (case build_input M e text r of Inl err \<Rightarrow> Inl err | Inr tokens \<Rightarrow> Inr (length tokens))"

definition u32_max :: nat where
  "u32_max = 2 ^ 32 - 1"

definition i32_max :: nat where
  "i32_max = 2 ^ 31 - 1"

text \<open>The loop of \<open>add_sequence\<close> calls.\<close>

fun add_sequences :: "('x, 'c, 'b, 'f) llama_api \<Rightarrow> 'b \<Rightarrow> nat \<Rightarrow> llama_token list list \<Rightarrow> 'b option" where
  "add_sequences M bt seq_id [] = Some bt"
| "add_sequences M bt seq_id (tokens # rest) =
     (if i32_max < seq_id then None
      else case add_sequence M bt tokens seq_id False of
             None \<Rightarrow> None
           | Some bt' \<Rightarrow> add_sequences M bt' (Suc seq_id) rest)"

definition served_vector ::
  "('x, 'c, 'b, 'f) llama_api \<Rightarrow> 'f float_ops \<Rightarrow> model_pin \<Rightarrow> 'c \<Rightarrow> nat \<Rightarrow> (encode_failure, 'f list) result" where
  "served_vector M F pin ctx seq_id =
     (if i32_max < seq_id then Inl ItemFailure
      else case embeddings_seq_ith M ctx seq_id of
             Inl err \<Rightarrow> Inl (systemic ''Embeddings'' err)
           | Inr raw \<Rightarrow>
               (case serve_lane F (serve_dims pin) raw of None \<Rightarrow> Inl ItemFailure | Some v \<Rightarrow> Inr v))"

definition context_params_for :: "model_pin \<Rightarrow> encode_shape \<Rightarrow> context_params" where
  "context_params_for pin shape =
     \<lparr>p_n_ctx = (if shape_n_ctx shape = 0 then None else Some (shape_n_ctx shape)),
      p_n_batch = shape_n_batch shape, p_n_ubatch = shape_n_ubatch shape, p_n_seq_max = shape_n_seq shape,
      p_embeddings = True, p_pooling = pin_pooling pin\<rparr>"

text \<open>The numbers a group is encoded under, or \<open>None\<close> where a checked conversion fails.\<close>

definition encode_shape_for :: "model_pin \<Rightarrow> llama_token list list \<Rightarrow> encode_shape option" where
  "encode_shape_for pin g =
     (let total_tokens = sum_list (map length g);
          max_tokens = foldr max (map length g) 0;
          kv_cells = max_tokens * length g
      in if u32_max < total_tokens \<or> i32_max < length g \<or> u32_max < length g \<or> u32_max < kv_cells then None
         else if total_tokens = 0 then None
         else
           (let n_ubatch = (case pin_pooling pin of Cls \<Rightarrow> total_tokens | Last \<Rightarrow> min total_tokens MAX_DECODE_UBATCH_TOKENS)
            in if u32_max < n_ubatch then None
               else Some \<lparr>shape_total_tokens = total_tokens, shape_n_ctx = kv_cells, shape_n_batch = total_tokens,
                          shape_n_ubatch = n_ubatch, shape_n_seq = length g\<rparr>))"

definition encode_group ::
  "('x, 'c, 'b, 'f) llama_api \<Rightarrow> 'f float_ops \<Rightarrow> model_pin \<Rightarrow> 'x \<Rightarrow> llama_token list list
     \<Rightarrow> 'x \<times> (encode_failure, 'f list list) result" where
  "encode_group M F pin x g =
     (case encode_shape_for pin g of
        None \<Rightarrow> (x, Inl ItemFailure)
      | Some shape \<Rightarrow>
          (case new_context M x (context_params_for pin shape) of
             (x1, Inl err) \<Rightarrow>
               (x1, Inl (resource_exhausted ''ContextAlloc'' (err @ '' ('' @ encode_shape_display shape @ '')'')))
           | (x1, Inr ctx) \<Rightarrow>
               (case add_sequences M (batch_new M (shape_total_tokens shape) (shape_n_seq shape)) 0 g of
                  None \<Rightarrow> (x1, Inl ItemFailure)
                | Some bt \<Rightarrow>
                    (case (case pin_pooling pin of Cls \<Rightarrow> ctx_encode M x1 ctx bt | Last \<Rightarrow> ctx_decode M x1 ctx bt) of
                       (x2, Inl err) \<Rightarrow>
                         (x2, Inl (case pin_pooling pin of
                                     Cls \<Rightarrow> encode_failure_of err shape | Last \<Rightarrow> decode_failure err shape))
                     | (x2, Inr ctx') \<Rightarrow> (x2, collect_results (served_vector M F pin ctx') [0..<length g])))))"

definition llama_engine_facts :: "llama_engine \<Rightarrow> engine_facts" where
  "llama_engine_facts e =
     \<lparr>fact_runtime = RUNTIME, fact_device = le_device e,
      requested_backend = sel_requested (le_selection e), resolved_backend = sel_resolved (le_selection e),
      fact_accelerated = sel_accelerated (le_selection e), fact_degraded_reason = sel_degraded_reason (le_selection e),
      fact_capabilities = le_capabilities e, llama_cpp_build = LLAMA_CPP_BUILD\<rparr>"

definition llama_health_facts :: "llama_engine \<times> 'x \<Rightarrow> (engine_error, json) result" where
  "llama_health_facts s =
     (let e = fst s
      in Inr (health_build (Ready (le_pin e) (serve_dims (le_pin e))) (llama_engine_facts e) limits_default VERSION))"

definition llama_is_accelerated :: "llama_engine \<times> 'x \<Rightarrow> bool" where
  "llama_is_accelerated s = sel_accelerated (le_selection (fst s))"

text \<open>The loop over the groups.\<close>

fun encode_groups ::
  "('x, 'c, 'b, 'f) llama_api \<Rightarrow> 'f float_ops \<Rightarrow> model_pin \<Rightarrow> llama_token list list list \<Rightarrow> 'x
     \<Rightarrow> 'x \<times> (engine_error, 'f list list) result" where
  "encode_groups M F pin [] x = (x, Inr [])"
| "encode_groups M F pin (g # gs) x =
     (case isolate (f_zero F) (encode_group M F pin) (serve_dims pin) g x of
        (x1, Inl err) \<Rightarrow> (x1, Inl err)
      | (x1, Inr vectors) \<Rightarrow>
          (case encode_groups M F pin gs x1 of
             (x2, Inl err) \<Rightarrow> (x2, Inl err)
           | (x2, Inr rest) \<Rightarrow> (x2, Inr (vectors @ rest))))"

definition group_limits :: "model_pin \<Rightarrow> nat \<times> nat" where
  "group_limits pin =
     (case pin_pooling pin of
        Cls \<Rightarrow> (MAX_CLS_GROUP_TOKENS, MAX_BATCH_ITEMS)
      | Last \<Rightarrow> (MAX_TOKENS_PER_ENCODE, MAX_DECODE_SEQUENCES))"

definition llama_embed ::
  "('x, 'c, 'b, 'f) llama_api \<Rightarrow> 'f float_ops \<Rightarrow> llama_engine \<times> 'x \<Rightarrow> string list \<Rightarrow> role
     \<Rightarrow> (llama_engine \<times> 'x) \<times> (engine_error, 'f embed_output) result" where
  "llama_embed M F s texts r =
     (case s of (e, x) \<Rightarrow>
        let dims = serve_dims (le_pin e)
        in if texts = [] then (s, Inr \<lparr>out_dims = dims, out_vectors = []\<rparr>)
           else
             (case collect_results (\<lambda>text. build_input M e text r) texts of
                Inl err \<Rightarrow> (s, Inl err)
              | Inr inputs \<Rightarrow>
                  (case group_limits (le_pin e) of (group_budget, max_sequences) \<Rightarrow>
                     (case encode_groups M F (le_pin e) (group_by_cell_budget inputs group_budget max_sequences) x of
                        (x1, Inl err) \<Rightarrow> ((e, x1), Inl err)
                      | (x1, Inr vectors) \<Rightarrow>
                          if length vectors \<noteq> length texts then
                            ((e, x1), Inl (engine_error_new ''CountMismatch''
                               (''produced '' @ show_nat (length vectors) @ '' vectors for '' @ show_nat (length texts) @ '' texts'')))
                          else
                            (case find (\<lambda>v. length v \<noteq> dims) vectors of
                               Some bad \<Rightarrow>
                                 ((e, x1), Inl (engine_error_new ''DimsMismatch''
                                    (''produced a '' @ show_nat (length bad) @ ''-dim vector, declared '' @ show_nat dims)))
                             | None \<Rightarrow> ((e, x1), Inr \<lparr>out_dims = dims, out_vectors = vectors\<rparr>))))))"

definition llama_ops :: "('x, 'c, 'b, 'f) llama_api \<Rightarrow> 'f float_ops \<Rightarrow> (llama_engine \<times> 'x, 'f) embed_engine" where
  "llama_ops M F =
     \<lparr>health_facts = llama_health_facts, is_accelerated = llama_is_accelerated, embed = llama_embed M F\<rparr>"

section \<open>Encoding\<close>

lemma collect_results_all:
  "collect_results f xs = Inr ys \<Longrightarrow> (\<And>x y. f x = Inr y \<Longrightarrow> P y) \<Longrightarrow> list_all P ys"
  by (induction xs arbitrary: ys) (auto split: sum.splits)

lemma encode_group_dims:
  assumes "encode_group M F pin x g = (x1, Inr vs)"
  shows "list_all (\<lambda>v. length v = serve_dims pin) vs"
proof -
  obtain ctx where "collect_results (served_vector M F pin ctx) [0..<length g] = Inr vs"
    using assms by (auto simp: encode_group_def split: option.splits prod.splits sum.splits)
  then show ?thesis
    by (rule collect_results_all) (auto simp: served_vector_def serve_lane_length split: if_splits sum.splits option.splits)
qed

definition encode_error :: "engine_error \<Rightarrow> bool" where
  "encode_error e \<longleftrightarrow> err_kind e \<in> {''ContextAlloc'', ''Decode'', ''Encode'', ''Embeddings''}"

lemma run_failures:
  "decode_failure r sh = Systemic e \<Longrightarrow> encode_error e"
  "encode_failure_of r sh = Systemic e \<Longrightarrow> encode_error e"
  by (auto simp: decode_failure_def encode_failure_of_def systemic_def engine_error_new_def encode_error_def
      split: llama_run_error.splits)

lemma encode_group_systemic:
  assumes "encode_group M F pin x g = (x1, Inl (Systemic e))"
  shows "encode_error e"
proof (cases "\<exists>ctx. collect_results (served_vector M F pin ctx) [0..<length g] = Inl (Systemic e)")
  case True
  then obtain ctx i where "served_vector M F pin ctx i = Inl (Systemic e)" by (auto dest!: collect_results_Inl)
  then show ?thesis
    by (auto simp: served_vector_def systemic_def engine_error_new_def encode_error_def
        split: if_splits sum.splits option.splits)
next
  case False
  then show ?thesis
    using assms run_failures
    by (auto simp: encode_group_def resource_exhausted_def engine_error_resource_exhausted_def encode_error_def
        split: option.splits prod.splits sum.splits pooling.splits)
qed

lemma encode_groups_result:
  assumes "encode_groups M F pin gs x = (x', r)"
  shows "case r of
           Inr vs \<Rightarrow> length vs = length (concat gs) \<and> list_all (\<lambda>v. length v = serve_dims pin) vs
         | Inl e \<Rightarrow> encode_error e"
  using assms
proof (induction gs arbitrary: x x' r)
  case (Cons g gs)
  obtain x1 r1 where i: "isolate (f_zero F) (encode_group M F pin) (serve_dims pin) g x = (x1, r1)"
    by (cases "isolate (f_zero F) (encode_group M F pin) (serve_dims pin) g x")
  note facts = isolate_length [OF i] isolate_dims [OF i encode_group_dims] isolate_error [OF i]
  obtain x2 r2 where t: "encode_groups M F pin gs x1 = (x2, r2)" by (cases "encode_groups M F pin gs x1")
  show ?case
    using Cons.prems facts Cons.IH [OF t] i t encode_group_systemic
    by (fastforce split: sum.splits)
qed auto

text \<open>A text that cannot be tokenized, or a backend that failed.\<close>

definition embed_error :: "engine_error \<Rightarrow> bool" where
  "embed_error e \<longleftrightarrow> err_kind e = ''Tokenize'' \<or> encode_error e"

lemma build_input_error: "build_input M e text r = Inl err \<Longrightarrow> err_kind err = ''Tokenize''"
  by (auto simp: build_input_def Let_def tokenize_error_def engine_error_new_def
      split: prod.splits option.splits sum.splits)

lemma llama_embed_result:
  assumes "llama_embed M F (e, x) texts r = (s', res)"
  shows "fst s' = e \<and> (case res of
           Inr out \<Rightarrow> output_honest texts out \<and> out_dims out = serve_dims (le_pin e)
         | Inl err \<Rightarrow> embed_error err)"
proof -
  obtain b m where lim: "group_limits (le_pin e) = (b, m)" by (cases "group_limits (le_pin e)")
  show ?thesis
  proof (cases "collect_results (\<lambda>text. build_input M e text r) texts")
    case (Inl err)
    then show ?thesis
      using assms collect_results_Inl [OF Inl] build_input_error
      by (auto simp: llama_embed_def Let_def output_honest_def embed_error_def split: if_splits)
  next
    case (Inr inputs)
    obtain x1 rr where g: "encode_groups M F (le_pin e) (group_by_cell_budget inputs b m) x = (x1, rr)"
      by (cases "encode_groups M F (le_pin e) (group_by_cell_budget inputs b m) x")
    have len: "length inputs = length texts" using Inr by (rule collect_results_length)
    show ?thesis
      using assms encode_groups_result [OF g] Inr lim g len group_by_cell_budget_ok [of inputs b m]
      by (auto simp: llama_embed_def Let_def output_honest_def embed_error_def list_all_iff find_Some_iff
          split: if_splits sum.splits option.splits)
  qed
qed

interpretation llama: honest_engine "llama_ops M F" "\<lambda>_. True"
proof unfold_locales
  show "embed (llama_ops M F) s texts r = (s', Inr out) \<Longrightarrow> output_honest texts out" for s texts r s' out
    using llama_embed_result [of M F "fst s" "snd s" texts r s' "Inr out"] by (simp add: llama_ops_def)
  show "health_facts (llama_ops M F) s = Inr v \<Longrightarrow> health_object v" for s v
    by (auto simp: llama_ops_def llama_health_facts_def Let_def health_build_object)
qed simp

section \<open>The contexts asked for\<close>

text \<open>A llama.cpp whose world is the list of the contexts it was asked for.\<close>

definition logging :: "(context_params list, 'c, 'b, 'f) llama_api \<Rightarrow> bool" where
  "logging M \<longleftrightarrow>
     (\<forall>x p. fst (new_context M x p) = x @ [p])
     \<and> (\<forall>x c b. fst (ctx_encode M x c b) = x) \<and> (\<forall>x c b. fst (ctx_decode M x c b) = x)"

definition context_within :: "nat \<Rightarrow> nat \<Rightarrow> context_params \<Rightarrow> bool" where
  "context_within cells sequences p \<longleftrightarrow>
     (\<exists>n. p_n_ctx p = Some n \<and> 0 < n \<and> n \<le> cells \<and> p_n_batch p \<le> n)
     \<and> p_n_ubatch p \<le> p_n_batch p \<and> p_n_seq_max p \<le> sequences"

lemma longest_subset: "set h \<subseteq> set g \<Longrightarrow> longest h \<le> longest g"
  by (induction h) (auto dest: longest_member)

lemma concat_subset: "g \<in> set gs \<Longrightarrow> set g \<subseteq> set (concat gs)"
  by auto

lemma total_le_cells: "sum_list (map length g) \<le> longest g * length g"
proof -
  have "sum_list (map length g) \<le> sum_list (map (\<lambda>_. longest g) g)"
    by (rule sum_list_mono) (rule longest_member)
  then show ?thesis by (simp add: sum_list_triv mult.commute)
qed

lemma encode_shape_within:
  assumes "encode_shape_for pin h = Some sh" and "set h \<subseteq> set g" and "length h \<le> length g"
    and "group_ok b m g"
  shows "context_within (max b (longest g)) m (context_params_for pin sh)"
proof -
  have sh: "shape_n_ctx sh = longest h * length h" "shape_n_batch sh = sum_list (map length h)" "shape_n_seq sh = length h"
    "0 < shape_n_batch sh" "shape_n_ubatch sh \<le> shape_n_batch sh"
    using assms(1)
    by (auto simp: encode_shape_for_def longest_def Let_def simp del: sum_list_eq_0_iff split: if_splits pooling.splits)
  have "longest h * length h \<le> longest g * length g"
    using longest_subset [OF assms(2)] assms(3) by (rule mult_le_mono)
  also have "\<dots> \<le> max b (longest g)" using assms(4) by (auto simp: group_ok_def)
  finally have "longest h * length h \<le> max b (longest g)" .
  moreover have "length h \<le> m" using assms(3,4) by (simp add: group_ok_def)
  moreover have "0 < longest h * length h" using sh(2,4) total_le_cells [of h] by linarith
  ultimately show ?thesis
    using sh total_le_cells [of h] by (simp add: context_within_def context_params_for_def)
qed

lemma encode_group_logs:
  assumes "logging M" and "\<And>sh. encode_shape_for pin h = Some sh \<Longrightarrow> good (context_params_for pin sh)"
    and "list_all good x"
  shows "list_all good (fst (encode_group M F pin x h))"
proof -
  have n: "fst (new_context M x p) = x @ [p]" for p using assms(1) by (simp add: logging_def)
  have e: "fst (ctx_encode M y c b) = y" "fst (ctx_decode M y c b) = y" for y c b using assms(1) by (simp_all add: logging_def)
  show ?thesis
    using assms(2,3) n [of "context_params_for pin (the (encode_shape_for pin h))"] e
    by (cases "encode_shape_for pin h"; cases "new_context M x (context_params_for pin (the (encode_shape_for pin h)))")
      (auto simp: encode_group_def case_prod_beta split: sum.split option.split pooling.split)
qed

lemma encode_groups_log:
  assumes "logging M" and "\<forall>g\<in>set gs. group_ok b m g" and "\<forall>g\<in>set gs. longest g \<le> l"
    and "list_all (context_within (max b l) m) x" and "encode_groups M F pin gs x = (x', r)"
  shows "list_all (context_within (max b l) m) x'"
  using assms(2-)
proof (induction gs arbitrary: x x' r)
  case (Cons g gs)
  obtain x1 r1 where i: "isolate (f_zero F) (encode_group M F pin) (serve_dims pin) g x = (x1, r1)"
    by (cases "isolate (f_zero F) (encode_group M F pin) (serve_dims pin) g x")
  have weaken: "context_within (max b (longest g)) m p \<Longrightarrow> context_within (max b l) m p" for p
    using Cons.prems(2) by (fastforce simp: context_within_def)
  have "list_all (context_within (max b l) m) x1"
  proof (rule isolate_preserves [where P = "list_all (context_within (max b l) m)", OF i _ Cons.prems(3)])
    fix y h
    assume "list_all (context_within (max b l) m) y" and h: "set h \<subseteq> set g" "length h \<le> length g"
    then show "list_all (context_within (max b l) m) (fst (encode_group M F pin y h))"
      using encode_shape_within [OF _ h] Cons.prems(1) weaken by (intro encode_group_logs [OF assms(1)]) auto
  qed
  then show ?case
    using Cons i by (auto split: sum.splits prod.splits)
qed simp

section \<open>Properties of the engine\<close>

text \<open>An engine and a llama.cpp for examples: one token per text, every context is made, vectors of units.\<close>

definition sample_engine :: llama_engine where
  "sample_engine =
     \<lparr>le_pin = bge_pin\<lparr>serve_dims := 1, max_text_tokens := 4\<rparr>, le_eos_reserve = 0, le_special_token_overhead = 0,
      le_device = CPU, le_selection = selection_cpu, le_capabilities = cpu_only\<rparr>"

definition toy_llama :: "(context_params list, unit, unit, unit) llama_api" where
  "toy_llama =
     \<lparr>str_to_token = (\<lambda>s b. Inr [1]), token_to_piece_bytes = (\<lambda>t n. Inr ''a''), from_utf8_error = (\<lambda>bs. ''invalid''),
      new_context = (\<lambda>x p. (x @ [p], Inr ())), batch_new = (\<lambda>n m. ()), add_sequence = (\<lambda>b ts i f. Some ()),
      ctx_encode = (\<lambda>x c b. (x, Inr ())), ctx_decode = (\<lambda>x c b. (x, Inr ())),
      embeddings_seq_ith = (\<lambda>c i. Inr [()])\<rparr>"

definition toy_ops :: "unit float_ops" where
  "toy_ops =
     \<lparr>f_zero = (), f_add = (\<lambda>x y. ()), f_mul = (\<lambda>x y. ()), f_div = (\<lambda>x y. ()), f_sqrt = (\<lambda>x. ()),
      f_is_finite = (\<lambda>x. True), f_le = (\<lambda>x y. False)\<rparr>"

lemma sample_logging: "logging toy_llama"
  by (simp add: logging_def toy_llama_def)

lemma sample_build_input: "build_input toy_llama sample_engine t r = Inr [1]"
  by (simp add: build_input_def toy_llama_def sample_engine_def fit_def fit_tokenize_def body_budget_def Let_def
      split: option.split)

lemma sample_limits: "group_limits (le_pin sample_engine) = (2048, 250)"
  by (simp add: group_limits_def sample_engine_def bge_pin_def MAX_CLS_GROUP_TOKENS_def MAX_BATCH_ITEMS_def)

text \<open>
  C23 (functional). The engine keeps its contract whatever llama.cpp does: an answer has one
  vector per text, each of the pin's served dimension; a failure is a tokenizer error or a
  systemic backend error. The \<open>CountMismatch\<close> and \<open>DimsMismatch\<close> errors of the source are
  unreachable, and the engine itself is unchanged.
\<close>

theorem llama_embed_contract:
  "case llama_embed M F (e, x) texts r of (s', res) \<Rightarrow>
     fst s' = e \<and>
     (case res of
        Inr out \<Rightarrow> length (out_vectors out) = length texts
          \<and> list_all (\<lambda>v. length v = serve_dims (le_pin e)) (out_vectors out) \<and> out_dims out = serve_dims (le_pin e)
      | Inl err \<Rightarrow> err_kind err \<in> {''Tokenize'', ''ContextAlloc'', ''Decode'', ''Encode'', ''Embeddings''})"
  using llama_embed_result [of M F e x texts r]
  by (auto simp: output_honest_def embed_error_def encode_error_def split: prod.splits sum.splits)

text \<open>
  C38 (bounds). The memory of a request is bounded: every context the engine asks for, retries of
  the bisection included, is non-empty, has at most as many cells as the group budget or as the
  longest single input, holds its batch, and has at most as many sequences as the group limit.
\<close>

theorem contexts_bounded:
  assumes "logging M" and "collect_results (\<lambda>text. build_input M e text r) texts = Inr inputs"
    and "group_limits (le_pin e) = (budget, sequences)"
    and "llama_embed M F (e, []) texts r = ((e', asked), res)"
  shows "list_all (context_within (max budget (longest inputs)) (max sequences 1)) asked"
proof (cases "texts = []")
  case True
  with assms(4) show ?thesis by (simp add: llama_embed_def)
next
  case False
  let ?gs = "group_by_cell_budget inputs budget sequences"
  obtain rr where g: "encode_groups M F (le_pin e) ?gs [] = (asked, rr)"
    using assms(2-) False by (auto simp: llama_embed_def Let_def split: prod.splits sum.splits if_splits option.splits)
  have ok: "concat ?gs = inputs" "\<forall>g\<in>set ?gs. group_ok budget (max sequences 1) g"
    using group_by_cell_budget_ok by auto
  have "\<forall>g\<in>set ?gs. longest g \<le> longest inputs"
    using ok(1) by (metis longest_subset concat_subset)
  with encode_groups_log [OF assms(1) ok(2) _ _ g, of "longest inputs"] show ?thesis by simp
qed

theorem contexts_bounded_witness:
  "case llama_embed toy_llama toy_ops (sample_engine, []) [''a'', ''b''] Document of (s', res) \<Rightarrow>
     list_all (context_within (max 2048 (longest [[1::int], [1]])) (max 250 1)) (snd s')"
proof -
  obtain e' asked res where run:
    "llama_embed toy_llama toy_ops (sample_engine, []) [''a'', ''b''] Document = ((e', asked), res)"
    by (metis prod.exhaust)
  with contexts_bounded [OF sample_logging _ sample_limits run, of "[[1], [1]]"] show ?thesis
    by (simp add: sample_build_input)
qed

text \<open>
  A batch request to the engine over the wire succeeds or reports the engine's
  own error: the two checks of the protocol layer on the shape of the answer never fire, for
  any llama.cpp.
\<close>

lemma llama_batch_over_wire:
  assumes "obj_get params ''texts'' = Some (JArray (map JString ts))" and "length ts \<le> max_batch_items lims"
  shows "embed_batch codec (llama_ops M F) lims i params s =
    (case llama_embed M F s ts Document of
       (s', Inl e) \<Rightarrow> (s', internal_error i e)
     | (s', Inr out) \<Rightarrow> (s', success i (batch_result codec out)))"
proof -
  have "embed_batch codec (llama_ops M F) lims i params s =
    (case embed (llama_ops M F) s ts Document of
       (s', Inl e) \<Rightarrow> (s', internal_error i e)
     | (s', Inr out) \<Rightarrow> (s', success i (batch_result codec out)))"
    by (rule llama.embed_batch_answers) (use assms in auto)
  then show ?thesis by (simp add: llama_ops_def)
qed

lemma llama_batch_over_wire_witness:
  "embed_batch sample_codec (llama_ops toy_llama toy_ops) limits_default ''7''
     [(''texts'', JArray [JString ''a''])] (sample_engine, []) =
    (case llama_embed toy_llama toy_ops (sample_engine, []) [''a''] Document of
       (s', Inl e) \<Rightarrow> (s', internal_error ''7'' e)
     | (s', Inr out) \<Rightarrow> (s', success ''7'' (batch_result sample_codec out)))"
  by (rule llama_batch_over_wire) (simp_all add: obj_get_def limits_default_def MAX_BATCH_ITEMS_def)

end
