(* ===== verification/Broker_Engine.thy ===== *)
theory Broker_Engine
  imports Llama_Engine
begin

text \<open>
  \<open>src/src/broker/engine.rs\<close>: the engine of the broker, which holds the accelerator lease while
  its inner engine is accelerated and demotes itself to the CPU, once and for good, when the
  accelerator runs out of resources. The \<open>RefCell\<close> state is a record; the loader closure, which
  may act on the world, threads a state \<open>'l\<close>; holding a lease is a flag. The \<open>expect\<close> calls of
  the source are the error \<open>panic\<close>, which the invariant shows unreachable.
\<close>

section \<open>Definitions\<close>

record ('e, 'l) broker_engine_state =
  be_inner :: "'e option"
  be_accelerator_lease :: bool
  be_loader :: "'l option"
  be_degraded_reason :: "string option"
  be_terminal_failure :: "engine_error option"

type_synonym ('e, 'l) engine_loader = "'l \<Rightarrow> backend_policy \<Rightarrow> 'l \<times> (engine_error, 'e) result"

definition broker_engine_new :: "'e \<Rightarrow> bool \<Rightarrow> ('e, 'l) broker_engine_state" where
  "broker_engine_new inner lease =
     \<lparr>be_inner = Some inner, be_accelerator_lease = lease, be_loader = None, be_degraded_reason = None,
      be_terminal_failure = None\<rparr>"

definition accelerator_lease_held :: "('e, 'l) broker_engine_state \<Rightarrow> bool" where
  "accelerator_lease_held b = be_accelerator_lease b"

definition backend_policy_error :: engine_error where
  "backend_policy_error = engine_error_new ''BackendPolicy'' ''CpuOnly loader resolved an accelerated backend''"

definition panic_error :: engine_error where
  "panic_error = engine_error_new ''panic'' ''broker engine invariant: live engine or terminal failure''"

definition load_with ::
  "('e, 'f) embed_engine \<Rightarrow> ('e, 'l) engine_loader \<Rightarrow> bool \<Rightarrow> 'l
     \<Rightarrow> 'l \<times> (engine_error, ('e, 'l) broker_engine_state) result" where
  "load_with E loader lease l =
     (let policy = (if lease then Auto else CpuOnly)
      in case loader l policy of
           (l1, Inl err) \<Rightarrow> (l1, Inl err)
         | (l1, Inr inner) \<Rightarrow>
             if policy = CpuOnly \<and> is_accelerated E inner then (l1, Inl backend_policy_error)
             else
               (let lease' = (if \<not> is_accelerated E inner then False else lease)
                in (l1, Inr \<lparr>be_inner = Some inner, be_accelerator_lease = lease', be_loader = Some l1,
                             be_degraded_reason = None, be_terminal_failure = None\<rparr>)))"

definition broker_health_facts ::
  "('e, 'f) embed_engine \<Rightarrow> ('e, 'l) broker_engine_state \<Rightarrow> (engine_error, json) result" where
  "broker_health_facts E b =
     (case be_terminal_failure b of
        Some err \<Rightarrow> Inl err
      | None \<Rightarrow>
          (case be_inner b of
             None \<Rightarrow> Inl panic_error
           | Some inner \<Rightarrow>
               (case health_facts E inner of
                  Inl err \<Rightarrow> Inl err
                | Inr health \<Rightarrow>
                    Inr (apply_broker_runtime_facts health (be_accelerator_lease b) (be_degraded_reason b)))))"

definition broker_is_accelerated :: "('e, 'f) embed_engine \<Rightarrow> ('e, 'l) broker_engine_state \<Rightarrow> bool" where
  "broker_is_accelerated E b = (case be_inner b of None \<Rightarrow> False | Some inner \<Rightarrow> is_accelerated E inner)"

text \<open>The \<open>recover\<close> condition of \<open>embed\<close>.\<close>

definition must_recover ::
  "('e, 'f) embed_engine \<Rightarrow> ('e, 'l) broker_engine_state \<Rightarrow> 'e \<Rightarrow> (engine_error, 'f embed_output) result \<Rightarrow> bool" where
  "must_recover E b inner first \<longleftrightarrow>
     (case first of
        Inr _ \<Rightarrow> False
      | Inl err \<Rightarrow> failure_class err = ResourceExhausted \<and> is_accelerated E inner
                    \<and> be_accelerator_lease b \<and> be_loader b \<noteq> None)"

text \<open>The demotion: the accelerated engine and the lease are dropped before the CPU engine is loaded.\<close>

definition demote ::
  "('e, 'f) embed_engine \<Rightarrow> ('e, 'l) engine_loader \<Rightarrow> 'l \<Rightarrow> ('e, 'l) broker_engine_state \<Rightarrow> string list \<Rightarrow> role
     \<Rightarrow> ('e, 'l) broker_engine_state \<times> (engine_error, 'f embed_output) result" where
  "demote E loader l b texts r =
     (let b1 = b\<lparr>be_inner := None, be_accelerator_lease := False,
                 be_degraded_reason := Some ACCELERATOR_RESOURCE_EXHAUSTED\<rparr>
      in case loader l CpuOnly of
           (l1, Inl err) \<Rightarrow> (b1\<lparr>be_loader := Some l1, be_terminal_failure := Some err\<rparr>, Inl err)
         | (l1, Inr cpu) \<Rightarrow>
             if is_accelerated E cpu then
               (b1\<lparr>be_loader := Some l1, be_terminal_failure := Some backend_policy_error\<rparr>, Inl backend_policy_error)
             else
               (case embed E cpu texts r of
                  (cpu1, res) \<Rightarrow> (b1\<lparr>be_loader := Some l1, be_inner := Some cpu1\<rparr>, res)))"

definition broker_embed ::
  "('e, 'f) embed_engine \<Rightarrow> ('e, 'l) engine_loader \<Rightarrow> ('e, 'l) broker_engine_state \<Rightarrow> string list \<Rightarrow> role
     \<Rightarrow> ('e, 'l) broker_engine_state \<times> (engine_error, 'f embed_output) result" where
  "broker_embed E loader b texts r =
     (case be_terminal_failure b of
        Some err \<Rightarrow> (b, Inl err)
      | None \<Rightarrow>
          (case be_inner b of
             None \<Rightarrow> (b, Inl panic_error)
           | Some inner \<Rightarrow>
               (case embed E inner texts r of
                  (inner1, first) \<Rightarrow>
                    if must_recover E b inner1 first
                    then demote E loader (the (be_loader b)) b texts r
                    else (b\<lparr>be_inner := Some inner1\<rparr>, first))))"

definition broker_ops ::
  "('e, 'f) embed_engine \<Rightarrow> ('e, 'l) engine_loader \<Rightarrow> (('e, 'l) broker_engine_state, 'f) embed_engine" where
  "broker_ops E loader =
     \<lparr>health_facts = broker_health_facts E, is_accelerated = broker_is_accelerated E, embed = broker_embed E loader\<rparr>"

text \<open>\<open>LoadedEngine\<close>: a loaded model, or the engine of a model that is not prepared.\<close>

datatype 'x loaded_engine = LoadedReady "llama_engine \<times> 'x" | LoadedUnready unready_engine

definition loaded_health_facts :: "'x loaded_engine \<Rightarrow> (engine_error, json) result" where
  "loaded_health_facts s =
     (case s of LoadedReady e \<Rightarrow> llama_health_facts e | LoadedUnready e \<Rightarrow> unready_health_facts e)"

definition loaded_is_accelerated :: "'x loaded_engine \<Rightarrow> bool" where
  "loaded_is_accelerated s =
     (case s of LoadedReady e \<Rightarrow> llama_is_accelerated e | LoadedUnready e \<Rightarrow> is_accelerated_default e)"

definition loaded_embed ::
  "('x, 'c, 'b, 'f) llama_api \<Rightarrow> 'f float_ops \<Rightarrow> 'x loaded_engine \<Rightarrow> string list \<Rightarrow> role
     \<Rightarrow> 'x loaded_engine \<times> (engine_error, 'f embed_output) result" where
  "loaded_embed M F s texts r =
     (case s of
        LoadedReady e \<Rightarrow> (case llama_embed M F e texts r of (e', res) \<Rightarrow> (LoadedReady e', res))
      | LoadedUnready e \<Rightarrow> (case unready_embed e texts r of (e', res) \<Rightarrow> (LoadedUnready e', res)))"

definition loaded_ops :: "('x, 'c, 'b, 'f) llama_api \<Rightarrow> 'f float_ops \<Rightarrow> ('x loaded_engine, 'f) embed_engine" where
  "loaded_ops M F =
     \<lparr>health_facts = loaded_health_facts, is_accelerated = loaded_is_accelerated, embed = loaded_embed M F\<rparr>"

text \<open>
  The closure \<open>loader\<close> of \<open>load\<close>, from \<open>LlamaEngine::load_with_policy\<close> on the world: a model that is
  not prepared loads as the engine that says so.
\<close>

definition model_loader ::
  "('l \<Rightarrow> backend_policy \<Rightarrow> 'l \<times> (engine_error, llama_engine \<times> 'x) result) \<Rightarrow> ('x loaded_engine, 'l) engine_loader" where
  "model_loader load_with_policy l policy =
     (case load_with_policy l policy of
        (l1, Inr engine) \<Rightarrow> (l1, Inr (LoadedReady engine))
      | (l1, Inl err) \<Rightarrow>
          if err_kind err = ''ModelNotPrepared'' then (l1, Inr (LoadedUnready (unready_new MODEL_NOT_PREPARED)))
          else (l1, Inl err))"

section \<open>Engines whose backend does not change\<close>

text \<open>
  The invariant of the broker engine: a live engine or a terminal failure, never both; a lease
  only behind an accelerated engine that can still be demoted; after a demotion no lease and no
  accelerated engine. \<open>ok\<close> is the invariant of the inner engine.
\<close>

definition broker_inv :: "('e, 'f) embed_engine \<Rightarrow> ('e \<Rightarrow> bool) \<Rightarrow> ('e, 'l) broker_engine_state \<Rightarrow> bool" where
  "broker_inv E ok b \<longleftrightarrow>
     (be_inner b = None \<longleftrightarrow> be_terminal_failure b \<noteq> None)
     \<and> (case be_inner b of None \<Rightarrow> True | Some e \<Rightarrow> ok e)
     \<and> (be_accelerator_lease b \<longrightarrow> broker_is_accelerated E b \<and> be_loader b \<noteq> None \<and> be_degraded_reason b = None)
     \<and> (be_degraded_reason b \<noteq> None \<longrightarrow> \<not> broker_is_accelerated E b)
     \<and> (be_terminal_failure b \<noteq> None \<longrightarrow> be_degraded_reason b \<noteq> None)"

definition lease_backed :: "('e, 'f) embed_engine \<Rightarrow> ('e \<Rightarrow> bool) \<Rightarrow> ('e, 'l) broker_engine_state \<Rightarrow> bool" where
  "lease_backed E ok b \<longleftrightarrow> broker_inv E ok b \<and> (broker_is_accelerated E b \<longrightarrow> be_accelerator_lease b)"

text \<open>The state after a sequence of \<open>embed\<close> calls.\<close>

definition broker_run ::
  "('e, 'f) embed_engine \<Rightarrow> ('e, 'l) engine_loader \<Rightarrow> ('e, 'l) broker_engine_state \<Rightarrow> (string list \<times> role) list
     \<Rightarrow> ('e, 'l) broker_engine_state" where
  "broker_run E loader b reqs = foldl (\<lambda>b q. fst (broker_embed E loader b (fst q) (snd q))) b reqs"

locale steady_engine = honest_engine E ok for E :: "('e, 'f) embed_engine" and ok :: "'e \<Rightarrow> bool" +
  assumes accelerated_stable: "ok s \<Longrightarrow> is_accelerated E (fst (embed E s texts r)) = is_accelerated E s"

text \<open>A steady engine and a loader of such engines: what \<open>BrokerEngine\<close> is generic over.\<close>

locale demotable_engine = steady_engine E ok for E :: "('e, 'f) embed_engine" and ok :: "'e \<Rightarrow> bool" +
  fixes loader :: "('e, 'l) engine_loader"
  assumes loader_ok: "loader l policy = (l', Inr e) \<Longrightarrow> ok e"
begin

lemma load_with_inv:
  "load_with E loader lease l = (l1, Inr b) \<Longrightarrow> broker_inv E ok b \<and> (be_accelerator_lease b \<longrightarrow> lease)
     \<and> (\<not> lease \<longrightarrow> \<not> broker_is_accelerated E b)"
  by (auto simp: load_with_def Let_def broker_inv_def broker_is_accelerated_def dest: loader_ok
      split: prod.splits sum.splits if_splits)

lemma demote_result:
  assumes "be_terminal_failure b = None" and "demote E loader l b texts r = (b', res)"
  shows "broker_inv E ok b' \<and> (\<forall>out. res = Inr out \<longrightarrow> output_honest texts out)
    \<and> be_degraded_reason b' = Some ACCELERATOR_RESOURCE_EXHAUSTED \<and> \<not> be_accelerator_lease b'"
proof -
  obtain l1 ld where l: "loader l CpuOnly = (l1, ld)" by (cases "loader l CpuOnly")
  show ?thesis
  proof (cases ld)
    case (Inl err)
    with assms l show ?thesis by (auto simp: demote_def Let_def broker_inv_def broker_is_accelerated_def)
  next
    case (Inr cpu)
    obtain cpu1 out where e: "embed E cpu texts r = (cpu1, out)" by (cases "embed E cpu texts r")
    have "ok cpu" using loader_ok l Inr by blast
    with e have "ok cpu1" "\<forall>o'. out = Inr o' \<longrightarrow> output_honest texts o'" "is_accelerated E cpu1 = is_accelerated E cpu"
      using embed_result accelerated_stable [of cpu texts r] by auto
    with assms l Inr e show ?thesis
      by (auto simp: demote_def Let_def broker_inv_def broker_is_accelerated_def split: if_splits)
  qed
qed

lemma broker_embed_result:
  assumes "broker_inv E ok b" and "broker_embed E loader b texts r = (b', res)"
  shows "broker_inv E ok b' \<and> (\<forall>out. res = Inr out \<longrightarrow> output_honest texts out)"
proof (cases "be_terminal_failure b")
  case (Some err)
  with assms show ?thesis by (auto simp: broker_embed_def)
next
  case None
  with assms(1) obtain inner where i: "be_inner b = Some inner" "ok inner"
    by (auto simp: broker_inv_def split: option.splits)
  obtain inner1 first where e: "embed E inner texts r = (inner1, first)" by (cases "embed E inner texts r")
  have k: "ok inner1" "\<forall>o'. first = Inr o' \<longrightarrow> output_honest texts o'" "is_accelerated E inner1 = is_accelerated E inner"
    using embed_result [OF i(2) e] accelerated_stable [OF i(2), of texts r] e by auto
  show ?thesis
  proof (cases "must_recover E b inner1 first")
    case True
    then have "demote E loader (the (be_loader b)) b texts r = (b', res)"
      using assms(2) None i e by (simp add: broker_embed_def)
    with demote_result [OF None] i show ?thesis by blast
  next
    case False
    with assms None i e k show ?thesis
      by (auto simp: broker_embed_def broker_inv_def broker_is_accelerated_def)
  qed
qed

text \<open>After the demotion nothing but the inner engine changes, whatever is embedded.\<close>

lemma demoted_stays:
  assumes "broker_inv E ok b" and "be_degraded_reason b = Some reason"
  shows "case fst (broker_embed E loader b texts r) of b' \<Rightarrow>
    be_degraded_reason b' = Some reason \<and> be_loader b' = be_loader b \<and> \<not> be_accelerator_lease b'
    \<and> be_terminal_failure b' = be_terminal_failure b \<and> \<not> broker_is_accelerated E b'"
proof -
  have nl: "\<not> be_accelerator_lease b" and na: "\<not> broker_is_accelerated E b"
    using assms by (auto simp: broker_inv_def)
  obtain b' res where run: "broker_embed E loader b texts r = (b', res)" by (cases "broker_embed E loader b texts r")
  have inv: "broker_inv E ok b'" using broker_embed_result [OF assms(1) run] by simp
  have "be_degraded_reason b' = be_degraded_reason b \<and> be_loader b' = be_loader b
      \<and> be_accelerator_lease b' = be_accelerator_lease b \<and> be_terminal_failure b' = be_terminal_failure b"
    using run nl by (auto simp: broker_embed_def must_recover_def split: option.splits prod.splits sum.splits if_splits)
  with inv run assms(2) nl show ?thesis by (auto simp: broker_inv_def)
qed

lemma run_inv: "broker_inv E ok b \<Longrightarrow> broker_inv E ok (broker_run E loader b reqs)"
proof (induction reqs arbitrary: b)
  case (Cons q reqs)
  then show ?case
    using broker_embed_result [of b "fst q" "snd q"]
    by (cases "broker_embed E loader b (fst q) (snd q)") (simp add: broker_run_def)
qed (simp add: broker_run_def)

lemma run_demoted:
  assumes "broker_inv E ok b" and "be_degraded_reason b = Some reason"
  shows "case broker_run E loader b reqs of b' \<Rightarrow>
    be_degraded_reason b' = Some reason \<and> be_loader b' = be_loader b \<and> \<not> be_accelerator_lease b'
    \<and> be_terminal_failure b' = be_terminal_failure b \<and> \<not> broker_is_accelerated E b'"
  using assms
proof (induction reqs arbitrary: b)
  case Nil
  then show ?case by (auto simp: broker_run_def broker_inv_def)
next
  case (Cons q reqs)
  have "broker_inv E ok (fst (broker_embed E loader b (fst q) (snd q)))"
    using run_inv [OF Cons.prems(1), of "[q]"] by (simp add: broker_run_def)
  from Cons.IH [OF this] demoted_stays [OF Cons.prems, of "fst q" "snd q"] show ?case
    by (simp add: broker_run_def)
qed

lemma broker_health_object:
  "broker_inv E ok b \<Longrightarrow> broker_health_facts E b = Inr v \<Longrightarrow> health_object v"
  by (auto simp: broker_health_facts_def broker_inv_def apply_broker_object dest: health_is_object
      split: option.splits sum.splits)

lemma broker_embed_steady:
  assumes "broker_inv E ok b" and "\<not> broker_is_accelerated E b"
  shows "\<not> broker_is_accelerated E (fst (broker_embed E loader b texts r))"
proof (cases "be_inner b")
  case None
  with assms show ?thesis by (auto simp: broker_embed_def broker_inv_def split: option.splits)
next
  case (Some inner)
  with assms have "ok inner" "\<not> is_accelerated E inner" "be_terminal_failure b = None"
    by (auto simp: broker_inv_def broker_is_accelerated_def)
  with Some show ?thesis
    using accelerated_stable [of inner texts r]
    by (auto simp: broker_embed_def must_recover_def broker_is_accelerated_def split: prod.splits sum.splits)
qed

lemma run_unaccelerated:
  "broker_inv E ok b \<Longrightarrow> \<not> broker_is_accelerated E b \<Longrightarrow> \<not> broker_is_accelerated E (broker_run E loader b reqs)"
proof (induction reqs arbitrary: b)
  case (Cons q reqs)
  have "broker_inv E ok (fst (broker_embed E loader b (fst q) (snd q)))"
    using run_inv [OF Cons.prems(1), of "[q]"] by (simp add: broker_run_def)
  with Cons.IH broker_embed_steady [OF Cons.prems] show ?case by (simp add: broker_run_def)
qed (simp add: broker_run_def)

text \<open>An engine that is accelerated only behind its lease: every loaded engine is, and stays so.\<close>

lemma load_with_leased:
  assumes "load_with E loader lease l = (l1, Inr b)"
  shows "lease_backed E ok b \<and> (be_accelerator_lease b \<longrightarrow> lease)"
  using load_with_inv [OF assms] assms
  by (auto simp: lease_backed_def load_with_def Let_def broker_is_accelerated_def split: prod.splits sum.splits if_splits)

lemma embed_leased:
  assumes "lease_backed E ok b"
  shows "lease_backed E ok (fst (broker_embed E loader b texts r))
    \<and> (be_accelerator_lease (fst (broker_embed E loader b texts r)) \<longrightarrow> be_accelerator_lease b)"
proof -
  have inv: "broker_inv E ok b" and acc: "broker_is_accelerated E b \<longrightarrow> be_accelerator_lease b"
    using assms by (simp_all add: lease_backed_def)
  obtain b' res where run: "broker_embed E loader b texts r = (b', res)" by (metis prod.exhaust)
  have inv': "broker_inv E ok b'" using broker_embed_result [OF inv run] by simp
  have "(broker_is_accelerated E b' \<longrightarrow> be_accelerator_lease b') \<and> (be_accelerator_lease b' \<longrightarrow> be_accelerator_lease b)"
  proof (cases "be_degraded_reason b' = None \<and> be_inner b \<noteq> None \<and> be_terminal_failure b = None")
    case False
    then show ?thesis
      using inv inv' run by (auto simp: broker_inv_def broker_embed_def split: option.splits)
  next
    case True
    then obtain inner where i: "be_inner b = Some inner" "be_terminal_failure b = None" by blast
    obtain inner1 first where e: "embed E inner texts r = (inner1, first)" by (metis prod.exhaust)
    have "ok inner" using inv i by (simp add: broker_inv_def)
    then have st: "is_accelerated E inner1 = is_accelerated E inner" using accelerated_stable [of inner texts r] e by simp
    show ?thesis
    proof (cases "must_recover E b inner1 first")
      case True
      with run i e have "demote E loader (the (be_loader b)) b texts r = (b', res)" by (simp add: broker_embed_def)
      with demote_result [OF i(2)] \<open>be_degraded_reason b' = None \<and> _\<close> show ?thesis by simp
    next
      case False
      with run i e have "b' = b\<lparr>be_inner := Some inner1\<rparr>" by (simp add: broker_embed_def)
      with acc st i show ?thesis by (simp add: broker_is_accelerated_def)
    qed
  qed
  with inv' run show ?thesis by (simp add: lease_backed_def)
qed

end

sublocale demotable_engine \<subseteq> broker: honest_engine "broker_ops E loader" "broker_inv E ok"
proof unfold_locales
  show "broker_inv E ok s \<Longrightarrow> embed (broker_ops E loader) s texts r = (s', Inr out) \<Longrightarrow> output_honest texts out"
    for s texts r s' out
    using broker_embed_result [of s texts r s' "Inr out"] by (simp add: broker_ops_def)
  show "broker_inv E ok s \<Longrightarrow> broker_inv E ok (fst (embed (broker_ops E loader) s texts r))" for s texts r
    using broker_embed_result [of s texts r] by (cases "broker_embed E loader s texts r") (simp add: broker_ops_def)
  show "broker_inv E ok s \<Longrightarrow> health_facts (broker_ops E loader) s = Inr v \<Longrightarrow> health_object v" for s v
    using broker_health_object by (simp add: broker_ops_def)
qed

section \<open>The engines of the program\<close>

lemma loaded_embed_steady: "loaded_is_accelerated (fst (loaded_embed M F s texts r)) = loaded_is_accelerated s"
proof (cases s)
  case (LoadedReady ex)
  then show ?thesis
    using llama_embed_result [of M F "fst ex" "snd ex" texts r]
    by (auto simp: loaded_embed_def loaded_is_accelerated_def llama_is_accelerated_def split: prod.splits)
qed (simp add: loaded_embed_def loaded_is_accelerated_def unready_embed_def)

lemma loaded_embed_honest:
  assumes "loaded_embed M F s texts r = (s', Inr out)"
  shows "output_honest texts out"
proof (cases s)
  case (LoadedReady ex)
  then show ?thesis
    using assms llama_embed_result [of M F "fst ex" "snd ex" texts r]
    by (auto simp: loaded_embed_def split: prod.splits)
qed (use assms in \<open>simp add: loaded_embed_def unready_embed_def\<close>)

interpretation loaded: demotable_engine "loaded_ops M F" "\<lambda>_. True" "model_loader lwp"
proof unfold_locales
  show "embed (loaded_ops M F) s texts r = (s', Inr out) \<Longrightarrow> output_honest texts out" for s texts r s' out
    by (simp add: loaded_ops_def loaded_embed_honest)
  show "health_facts (loaded_ops M F) s = Inr v \<Longrightarrow> health_object v" for s v
    using unready.health_is_object llama.health_is_object
    by (fastforce simp: loaded_ops_def loaded_health_facts_def unready_ops_def llama_ops_def split: loaded_engine.splits)
  show "is_accelerated (loaded_ops M F) (fst (embed (loaded_ops M F) s texts r)) = is_accelerated (loaded_ops M F) s"
    for s texts r
    by (simp add: loaded_ops_def loaded_embed_steady)
qed simp_all

section \<open>Properties of the broker engine\<close>

definition gpu_engine :: llama_engine where
  "gpu_engine = sample_engine\<lparr>le_device := ''gpu'', le_selection := selection_new METAL METAL None\<rparr>"

text \<open>A llama.cpp whose first context on a fresh device fails, and a loader of both kinds of engine.\<close>

definition tight_llama :: "(context_params list, unit, unit, unit) llama_api" where
  "tight_llama = toy_llama\<lparr>new_context := (\<lambda>x p. if x = [] then (x, Inl ''oom'') else (x @ [p], Inr ()))\<rparr>"

definition cpu_world :: "context_params list" where
  "cpu_world = [\<lparr>p_n_ctx = None, p_n_batch = 0, p_n_ubatch = 0, p_n_seq_max = 0, p_embeddings = True, p_pooling = Cls\<rparr>]"

definition sample_lwp :: "nat \<Rightarrow> backend_policy \<Rightarrow> nat \<times> (engine_error, llama_engine \<times> context_params list) result" where
  "sample_lwp l policy =
     (Suc l, Inr (case policy of Auto \<Rightarrow> (gpu_engine, []) | CpuOnly \<Rightarrow> (sample_engine, cpu_world)))"

definition sample_broker :: "(context_params list loaded_engine, nat) broker_engine_state" where
  "sample_broker =
     \<lparr>be_inner = Some (LoadedReady (gpu_engine, [])), be_accelerator_lease = True, be_loader = Some 1,
      be_degraded_reason = None, be_terminal_failure = None\<rparr>"

lemma sample_load: "load_with (loaded_ops M F) (model_loader sample_lwp) True 0 = (1, Inr sample_broker)"
  by (simp add: load_with_def model_loader_def sample_lwp_def loaded_ops_def loaded_is_accelerated_def
      llama_is_accelerated_def gpu_engine_def selection_new_def sample_broker_def)

lemma tight_exhausted:
  "\<exists>err. loaded_embed tight_llama toy_ops (LoadedReady (gpu_engine, [])) [''a''] Query
      = (LoadedReady (gpu_engine, []), Inl err) \<and> failure_class err = ResourceExhausted"
proof -
  have bi: "build_input tight_llama gpu_engine t r = Inr [1]" for t r
    by (simp add: build_input_def tight_llama_def toy_llama_def gpu_engine_def sample_engine_def fit_def fit_tokenize_def
        body_budget_def Let_def split: option.split)
  have gl: "group_limits (le_pin gpu_engine) = (2048, 250)"
    using sample_limits by (simp add: gpu_engine_def)
  have gr: "group_by_cell_budget [[1::int]] 2048 250 = [[[1]]]"
    by (simp add: group_by_cell_budget_def group_step_def)
  have "\<exists>err. encode_group tight_llama toy_ops (le_pin gpu_engine) [] [[1]] = ([], Inl (Systemic err))
      \<and> failure_class err = ResourceExhausted"
    by (simp add: encode_group_def encode_shape_for_def u32_max_def i32_max_def gpu_engine_def sample_engine_def bge_pin_def
        tight_llama_def resource_exhausted_def engine_error_resource_exhausted_def Let_def)
  then obtain err where "encode_group tight_llama toy_ops (le_pin gpu_engine) [] [[1]] = ([], Inl (Systemic err))"
    and err: "failure_class err = ResourceExhausted" by blast
  then have "encode_groups tight_llama toy_ops (le_pin gpu_engine) [[[1]]] [] = ([], Inl err)"
    by (simp add: isolate.simps attempt_of_def)
  with err bi gl gr show ?thesis by (simp add: loaded_embed_def llama_embed_def Let_def)
qed

lemma sample_cpu_loader:
  "model_loader sample_lwp l CpuOnly = (Suc l, Inr (LoadedReady (sample_engine, cpu_world)))"
  "\<not> loaded_is_accelerated (LoadedReady (sample_engine, cpu_world))"
  "loaded_is_accelerated (LoadedReady (gpu_engine, x))"
  by (simp_all add: model_loader_def sample_lwp_def loaded_is_accelerated_def llama_is_accelerated_def sample_engine_def
      gpu_engine_def selection_cpu_def selection_new_def)

lemma tight_degrades:
  "be_degraded_reason (broker_run (loaded_ops tight_llama toy_ops) (model_loader sample_lwp) sample_broker [([''a''], Query)])
     = Some ACCELERATOR_RESOURCE_EXHAUSTED"
proof -
  obtain err where "loaded_embed tight_llama toy_ops (LoadedReady (gpu_engine, [])) [''a''] Query
      = (LoadedReady (gpu_engine, []), Inl err)" "failure_class err = ResourceExhausted"
    using tight_exhausted by blast
  then show ?thesis
    using sample_cpu_loader
    by (simp add: broker_run_def broker_embed_def sample_broker_def must_recover_def demote_def loaded_ops_def
        split: prod.splits)
qed

text \<open>
  However the broker's engine was loaded and whatever is embedded afterwards, with
  any llama.cpp and any loader, the state stays consistent: a live engine or a terminal
  failure and never both, so that no \<open>expect\<close> can fire; the accelerator lease is held only by
  an accelerated engine that can still be demoted; a demoted engine is not accelerated.
\<close>

lemma broker_engine_invariant:
  assumes "load_with (loaded_ops M F) (model_loader lwp) lease l = (l1, Inr b)"
  shows "broker_inv (loaded_ops M F) (\<lambda>_. True) (broker_run (loaded_ops M F) (model_loader lwp) b reqs)"
  using loaded.load_with_inv [OF assms] loaded.run_inv by blast

lemma broker_engine_invariant_witness:
  "broker_inv (loaded_ops tight_llama toy_ops) (\<lambda>_. True)
     (broker_run (loaded_ops tight_llama toy_ops) (model_loader sample_lwp) sample_broker [([''a''], Query)])"
  by (rule broker_engine_invariant [OF sample_load])

text \<open>
  C5 (error). Every line a client sends is either refused, with the code of the first thing wrong
  with it and the engine untouched, or is one demand that the engine meets: \<open>embed\<close> is called
  once, with exactly the texts of the request and the role of its method, and its vectors, or its
  failure as an \<open>internal_error\<close>, are passed on under the id of the request. No other answer
  exists, and only a demand to stop stops the connection. It holds of the broker's engine in
  every state it can be in; the checks of the protocol on the number and the dimension of the
  vectors therefore never fire.
\<close>

theorem line_meets_demand:
  assumes "load_with (loaded_ops M F) (model_loader lwp) lease l = (l1, Inr b)"
    and "s = broker_run (loaded_ops M F) (model_loader lwp) b reqs"
    and "handle_line codec (broker_ops (loaded_ops M F) (model_loader lwp)) lims raw s = (s', Some oc)"
  shows "case line_demand codec lims raw of
      None \<Rightarrow> s' = s \<and> \<not> out_stop oc
        \<and> (\<exists>e. resp_error (out_response oc) = Some e \<and> error_code e = refusal_code codec raw)
    | Some (i, d) \<Rightarrow>
        (s', out_response oc) = meet_demand codec (broker_ops (loaded_ops M F) (model_loader lwp)) i d s
        \<and> (out_stop oc \<longleftrightarrow> d = AskStop)"
proof -
  have "broker_inv (loaded_ops M F) (\<lambda>_. True) s"
    unfolding assms(2) by (rule broker_engine_invariant [OF assms(1)])
  from loaded.broker.handle_line_demand [OF this assms(3)] show ?thesis
    by (auto simp: refuses_def meets_def split: option.splits)
qed

lemma sample_shutdown_line:
  "handle_line sample_codec E limits_default ''q'' s
     = (s, Some \<lparr>out_response = success '''' (json_obj [(''stopping'', JBool True)]), out_stop = True\<rparr>)
   \<and> line_demand sample_codec limits_default ''q'' = Some ('''', AskStop)"
  by (simp add: handle_line_def sample_codec_def utf8_valid.simps byte_of_def trim_def trim_start.simps trim_end.simps
      lead_ws_def trail_ws_def white_space_def starts_with_def ends_with_def dispatch_def extract_request_id_def
      obj_get_def validate_schema_def validate_version_def dispatch_method_def line_demand_def request_of_def
      accepted_def demand_of_def answered_id_def)

theorem line_meets_demand_witness:
  "(sample_broker, success '''' (json_obj [(''stopping'', JBool True)]))
     = meet_demand sample_codec (broker_ops (loaded_ops tight_llama toy_ops) (model_loader sample_lwp)) '''' AskStop sample_broker"
  using line_meets_demand [OF sample_load, where s = sample_broker and M = tight_llama and F = toy_ops and reqs = "[]"
      and codec = sample_codec and lims = limits_default and raw = "''q''"]
    sample_shutdown_line [of "broker_ops (loaded_ops tight_llama toy_ops) (model_loader sample_lwp)" sample_broker]
  by (simp add: broker_run_def)

text \<open>
  C15 (safety). The demotion happens at most once: once the engine is degraded, no later \<open>embed\<close>
  calls the loader again, takes the lease back, changes the reason or makes the engine
  accelerated.
\<close>

theorem demotion_is_final:
  assumes "load_with (loaded_ops M F) (model_loader lwp) lease l = (l1, Inr b)"
    and "be_degraded_reason (broker_run (loaded_ops M F) (model_loader lwp) b reqs) = Some reason"
  shows "case (broker_run (loaded_ops M F) (model_loader lwp) b reqs,
      broker_run (loaded_ops M F) (model_loader lwp) (broker_run (loaded_ops M F) (model_loader lwp) b reqs) later) of
    (b1, b2) \<Rightarrow> be_degraded_reason b2 = Some reason \<and> be_loader b2 = be_loader b1 \<and> \<not> be_accelerator_lease b2
      \<and> be_terminal_failure b2 = be_terminal_failure b1 \<and> \<not> broker_is_accelerated (loaded_ops M F) b2"
proof -
  have "broker_inv (loaded_ops M F) (\<lambda>_. True) (broker_run (loaded_ops M F) (model_loader lwp) b reqs)"
    using loaded.load_with_inv [OF assms(1)] loaded.run_inv by blast
  from loaded.run_demoted [OF this assms(2), of lwp later] show ?thesis by simp
qed

theorem demotion_is_final_witness:
  "case (broker_run (loaded_ops tight_llama toy_ops) (model_loader sample_lwp) sample_broker [([''a''], Query)],
      broker_run (loaded_ops tight_llama toy_ops) (model_loader sample_lwp)
        (broker_run (loaded_ops tight_llama toy_ops) (model_loader sample_lwp) sample_broker [([''a''], Query)])
        [([''b''], Document)]) of
    (b1, b2) \<Rightarrow> be_degraded_reason b2 = Some ACCELERATOR_RESOURCE_EXHAUSTED \<and> be_loader b2 = be_loader b1
      \<and> \<not> be_accelerator_lease b2 \<and> be_terminal_failure b2 = be_terminal_failure b1
      \<and> \<not> broker_is_accelerated (loaded_ops tight_llama toy_ops) b2"
  by (rule demotion_is_final [OF sample_load tight_degrades])

text \<open>
  C24 (functional). Exhaustion of the accelerator is not shown to the client when the CPU can serve:
  if the engine under lease fails for want of resources and the CPU engine loads, the request is
  answered by the CPU engine, the lease is released and the reason is recorded.
\<close>

theorem exhaustion_falls_back:
  assumes "be_terminal_failure b = None" and "be_inner b = Some inner"
    and "loaded_embed M F inner texts r = (inner1, Inl err)" and "failure_class err = ResourceExhausted"
    and "loaded_is_accelerated inner1" and "be_accelerator_lease b" and "be_loader b = Some l"
    and "model_loader lwp l CpuOnly = (l1, Inr cpu)" and "\<not> loaded_is_accelerated cpu"
  shows "case broker_embed (loaded_ops M F) (model_loader lwp) b texts r of (b', res) \<Rightarrow>
    res = snd (loaded_embed M F cpu texts r) \<and> be_inner b' = Some (fst (loaded_embed M F cpu texts r))
    \<and> \<not> be_accelerator_lease b' \<and> be_degraded_reason b' = Some ACCELERATOR_RESOURCE_EXHAUSTED
    \<and> be_terminal_failure b' = None"
  using assms
  by (auto simp: broker_embed_def must_recover_def demote_def loaded_ops_def Let_def split: prod.splits)

theorem exhaustion_falls_back_witness:
  "case broker_embed (loaded_ops tight_llama toy_ops) (model_loader sample_lwp) sample_broker [''a''] Query of (b', res) \<Rightarrow>
    res = snd (loaded_embed tight_llama toy_ops (LoadedReady (sample_engine, cpu_world)) [''a''] Query)
    \<and> be_inner b' = Some (fst (loaded_embed tight_llama toy_ops (LoadedReady (sample_engine, cpu_world)) [''a''] Query))
    \<and> \<not> be_accelerator_lease b' \<and> be_degraded_reason b' = Some ACCELERATOR_RESOURCE_EXHAUSTED
    \<and> be_terminal_failure b' = None"
proof -
  obtain err where "loaded_embed tight_llama toy_ops (LoadedReady (gpu_engine, [])) [''a''] Query
      = (LoadedReady (gpu_engine, []), Inl err)" "failure_class err = ResourceExhausted"
    using tight_exhausted by blast
  then show ?thesis
    by (intro exhaustion_falls_back [where inner = "LoadedReady (gpu_engine, [])" and ?inner1.0 = "LoadedReady (gpu_engine, [])" and l = 1])
      (simp_all add: sample_broker_def sample_cpu_loader)
qed

text \<open>
  Without the lease there is no acceleration: an engine loaded without it refuses
  an accelerated backend, and no sequence of requests makes it accelerated.
\<close>

lemma no_lease_no_acceleration:
  assumes "load_with (loaded_ops M F) (model_loader lwp) False l = (l1, Inr b)"
  shows "\<not> broker_is_accelerated (loaded_ops M F) (broker_run (loaded_ops M F) (model_loader lwp) b reqs)"
  using loaded.load_with_inv [OF assms] loaded.run_unaccelerated by blast

lemma no_lease_no_acceleration_witness:
  "\<exists>b. load_with (loaded_ops tight_llama toy_ops) (model_loader sample_lwp) False 0 = (1, Inr b)
     \<and> \<not> broker_is_accelerated (loaded_ops tight_llama toy_ops)
          (broker_run (loaded_ops tight_llama toy_ops) (model_loader sample_lwp) b [([''a''], Query)])"
proof -
  obtain b where b: "load_with (loaded_ops tight_llama toy_ops) (model_loader sample_lwp) False 0 = (1, Inr b)"
    using sample_cpu_loader by (auto simp: load_with_def loaded_ops_def)
  from no_lease_no_acceleration [OF b] b show ?thesis by blast
qed

end
