(* ===== verification/Broker.thy ===== *)
theory Broker
  imports Broker_Queue Broker_Engine
begin

text \<open>
  \<open>src/src/broker/mod.rs\<close> from the moment the queue exists, with the request watchdog of
  \<open>watchdog.rs\<close>: many connections, one queue, one engine. (Leases, transport, the owner watchdog
  and the start of the process are in \<open>Broker_Start\<close>.) Every connection thread, the scheduler loop and the clock are
  interleaved by the step relation \<open>broker_step\<close>: a connection runs one turn of
  \<open>handle_connection\<close> at a time and blocks on its reply channel; the scheduler takes a request,
  serves it, and sends the reply. A reply channel (\<open>sync_channel(1)\<close>, one per request) is the
  mailbox of the connection that made it, named by the connection's number.
\<close>

section \<open>Requests\<close>

definition QUEUE_CAPACITY :: nat where
  "QUEUE_CAPACITY = 64"

definition QUEUE_DEADLINE :: duration where
  "QUEUE_DEADLINE = from_secs 30"

definition REQUEST_WATCHDOG_TIMEOUT :: duration where
  "REQUEST_WATCHDOG_TIMEOUT = from_secs 60"

record broker_request =
  req_line :: bytes
  req_reply :: nat

definition request_id :: "'f json_codec \<Rightarrow> bytes \<Rightarrow> string" where
  "request_id codec line =
     (case codec_from_slice codec line of
        Inl _ \<Rightarrow> ''''
      | Inr request \<Rightarrow>
          (case value_get request ''request_id'' of
             None \<Rightarrow> ''''
           | Some v \<Rightarrow> (case value_as_str v of None \<Rightarrow> '''' | Some i \<Rightarrow> i)))"

definition request_class_of :: "'f json_codec \<Rightarrow> bytes \<Rightarrow> request_class" where
  "request_class_of codec line =
     (case codec_from_slice codec line of
        Inl _ \<Rightarrow> Interactive
      | Inr request \<Rightarrow>
          (case value_get request ''method'' of
             None \<Rightarrow> Interactive
           | Some v \<Rightarrow>
               (case value_as_str v of
                  None \<Rightarrow> Interactive
                | Some meth \<Rightarrow> if meth = ''embed_batch'' then Batch else Interactive)))"

definition failure_reply :: "'f json_codec \<Rightarrow> bytes \<Rightarrow> string \<Rightarrow> string \<Rightarrow> (io_error, protocol_reply) result" where
  "failure_reply codec line kind message = internal_error_reply codec (request_id codec line) kind message"

section \<open>Connections\<close>

datatype phase =
    Reading
  | Waiting
  | Mailed "(io_error, protocol_reply option) result"
  | Closed "(io_error, unit) result"

record 'w connection =
  c_reader :: buf_reader
  c_line :: bytes
  c_writer :: 'w
  c_phase :: phase

definition connection_new :: "buf_reader \<Rightarrow> 'w \<Rightarrow> 'w connection" where
  "connection_new rd w = \<lparr>c_reader = rd, c_line = [], c_writer = w, c_phase = Reading\<rparr>"

text \<open>\<open>write_reply(..)?\<close>, then the phase that follows it.\<close>

definition send_reply :: "'w writer \<Rightarrow> protocol_reply \<Rightarrow> phase \<Rightarrow> 'w connection \<Rightarrow> 'w connection" where
  "send_reply W reply next c =
     (case write_reply W (c_writer c) reply of
        (w, Inl e) \<Rightarrow> c\<lparr>c_writer := w, c_phase := Closed (Inl e)\<rparr>
      | (w, Inr _) \<Rightarrow> c\<lparr>c_writer := w, c_phase := next\<rparr>)"

text \<open>
  One turn of the loop of \<open>handle_connection\<close>: from its head to the next \<open>continue\<close>, \<open>return\<close> or
  \<open>recv\<close>, or from a reply that has arrived to the head again.
\<close>

definition handle_connection_turn ::
  "'f json_codec \<Rightarrow> 'w writer \<Rightarrow> instant \<Rightarrow> nat \<Rightarrow> 'w connection \<Rightarrow> broker_request broker_queue
     \<Rightarrow> 'w connection \<times> broker_request broker_queue" where
  "handle_connection_turn codec W now i c q =
     (case c_phase c of
        Reading \<Rightarrow>
          (case read_request codec limits_default (c_reader c) (c_line c) of
             (rd, line, res) \<Rightarrow>
               (let c1 = c\<lparr>c_reader := rd, c_line := line\<rparr>
                in case res of
                     Inl e \<Rightarrow> (c1\<lparr>c_phase := Closed (Inl e)\<rparr>, q)
                   | Inr FramedEof \<Rightarrow> (c1\<lparr>c_phase := Closed (Inr ())\<rparr>, q)
                   | Inr (FramedRejected reply) \<Rightarrow> (send_reply W reply Reading c1, q)
                   | Inr FramedLine \<Rightarrow>
                       (case try_enqueue (request_class_of codec line) \<lparr>req_line = line, req_reply = i\<rparr>
                               (now + QUEUE_DEADLINE) q of
                          (q1, Inl Full) \<Rightarrow>
                            (case failure_reply codec line ''BrokerQueueFull'' ''broker queue is full'' of
                               Inl e \<Rightarrow> (c1\<lparr>c_phase := Closed (Inl e)\<rparr>, q1)
                             | Inr reply \<Rightarrow> (send_reply W reply Reading c1, q1))
                        | (q1, Inr _) \<Rightarrow> (c1\<lparr>c_phase := Waiting\<rparr>, q1))))
      | Waiting \<Rightarrow> (c, q)
      | Mailed (Inl e) \<Rightarrow> (c\<lparr>c_phase := Closed (Inl e)\<rparr>, q)
      | Mailed (Inr None) \<Rightarrow> (c\<lparr>c_phase := Reading\<rparr>, q)
      | Mailed (Inr (Some reply)) \<Rightarrow>
          (send_reply W reply (if stop_connection reply then Closed (Inr ()) else Reading) c, q)
      | Closed r \<Rightarrow> (c, q))"

section \<open>The scheduler and the request watchdog\<close>

record ('s, 'w) broker =
  bk_queue :: "broker_request broker_queue"
  bk_engine :: 's
  bk_now :: instant
  bk_conns :: "nat \<rightharpoonup> 'w connection"
  bk_serving :: "broker_request option"
  bk_active_since :: "instant option"

definition broker_start :: "'s \<Rightarrow> ('s, 'w) broker" where
  "broker_start e =
     \<lparr>bk_queue = queue_new QUEUE_CAPACITY, bk_engine = e, bk_now = 0, bk_conns = Map.empty, bk_serving = None,
      bk_active_since = None\<rparr>"

text \<open>\<open>request.reply.send(..)\<close>; a send to a connection that is gone is ignored.\<close>

definition mail ::
  "nat \<Rightarrow> (io_error, protocol_reply option) result \<Rightarrow> ('s, 'w) broker \<Rightarrow> ('s, 'w) broker" where
  "mail i reply b =
     (case bk_conns b i of
        None \<Rightarrow> b
      | Some c \<Rightarrow> b\<lparr>bk_conns := (bk_conns b)(i \<mapsto> c\<lparr>c_phase := Mailed reply\<rparr>)\<rparr>)"

text \<open>\<open>RequestWatchdog::arm\<close>, and the drop of the \<open>ActiveRequest\<close> it returns.\<close>

definition watchdog_arm :: "('s, 'w) broker \<Rightarrow> ('s, 'w) broker" where
  "watchdog_arm b = b\<lparr>bk_active_since := Some (bk_now b)\<rparr>"

definition active_request_drop :: "('s, 'w) broker \<Rightarrow> ('s, 'w) broker" where
  "active_request_drop b = b\<lparr>bk_active_since := None\<rparr>"

lemmas watchdog_defs = watchdog_arm_def active_request_drop_def

text \<open>\<open>queue.dequeue()\<close>: an expired request is answered at once, a ready one arms the watchdog.\<close>

definition scheduler_take :: "'f json_codec \<Rightarrow> ('s, 'w) broker \<Rightarrow> ('s, 'w) broker" where
  "scheduler_take codec b =
     (case dequeue (bk_now b) (bk_queue b) of
        (q, None) \<Rightarrow> b\<lparr>bk_queue := q\<rparr>
      | (q, Some (DeqExpired r)) \<Rightarrow>
          mail (req_reply r)
            (case failure_reply codec (req_line r) ''BrokerRequestExpired'' ''broker request expired'' of
               Inl e \<Rightarrow> Inl e | Inr reply \<Rightarrow> Inr (Some reply))
            (b\<lparr>bk_queue := q\<rparr>)
      | (q, Some (DeqReady r)) \<Rightarrow>
          watchdog_arm (b\<lparr>bk_queue := q, bk_serving := Some r\<rparr>))"

text \<open>\<open>process_line\<close>, the reply, and the drop of the watchdog's guard.\<close>

definition scheduler_finish ::
  "'f json_codec \<Rightarrow> ('s, 'f) embed_engine \<Rightarrow> broker_request \<Rightarrow> ('s, 'w) broker \<Rightarrow> ('s, 'w) broker" where
  "scheduler_finish codec E r b =
     (case process_line codec E limits_default (req_line r) (bk_engine b) of
        (e, reply) \<Rightarrow>
          active_request_drop (mail (req_reply r) reply (b\<lparr>bk_engine := e, bk_serving := None\<rparr>)))"

text \<open>
  The watchdog thread copies the mark under its lock (\<open>bk_active_since\<close>), lets go of the lock, and
  aborts the process when the copy is too old by the clock it reads then, at \<open>now\<close>.
\<close>

definition watchdog_aborts :: "instant option \<Rightarrow> instant \<Rightarrow> bool" where
  "watchdog_aborts since now =
     (case since of None \<Rightarrow> False | Some t \<Rightarrow> REQUEST_WATCHDOG_TIMEOUT \<le> now - t)"

inductive broker_step ::
  "'f json_codec \<Rightarrow> ('s, 'f) embed_engine \<Rightarrow> 'w writer \<Rightarrow> ('s, 'w) broker \<Rightarrow> ('s, 'w) broker \<Rightarrow> bool"
  for codec :: "'f json_codec" and E :: "('s, 'f) embed_engine" and W :: "'w writer" where
  accept: "bk_conns b i = None \<Longrightarrow>
    broker_step codec E W b (b\<lparr>bk_conns := (bk_conns b)(i \<mapsto> connection_new rd w)\<rparr>)"
| turn: "bk_conns b i = Some c \<Longrightarrow> handle_connection_turn codec W (bk_now b) i c (bk_queue b) = (c', q') \<Longrightarrow>
    broker_step codec E W b (b\<lparr>bk_conns := (bk_conns b)(i \<mapsto> c'), bk_queue := q'\<rparr>)"
| take: "bk_serving b = None \<Longrightarrow> broker_step codec E W b (scheduler_take codec b)"
| finish: "bk_serving b = Some r \<Longrightarrow> broker_step codec E W b (scheduler_finish codec E r b)"
| tick: "bk_now b \<le> t \<Longrightarrow> broker_step codec E W b (b\<lparr>bk_now := t\<rparr>)"

inductive broker_reach ::
  "'f json_codec \<Rightarrow> ('s, 'f) embed_engine \<Rightarrow> 'w writer \<Rightarrow> ('s, 'w) broker \<Rightarrow> ('s, 'w) broker \<Rightarrow> bool"
  for codec :: "'f json_codec" and E :: "('s, 'f) embed_engine" and W :: "'w writer" and b0 :: "('s, 'w) broker" where
  start: "broker_reach codec E W b0 b0"
| step: "broker_reach codec E W b0 b \<Longrightarrow> broker_step codec E W b b' \<Longrightarrow> broker_reach codec E W b0 b'"

inductive_cases broker_stepE: "broker_step codec E W b b'"

section \<open>The invariant\<close>

text \<open>The requests in the queue, and those in the system: queued or being served.\<close>

definition q_items :: "broker_request broker_queue \<Rightarrow> broker_request multiset" where
  "q_items q = image_mset q_value (mset (interactive (q_state q)) + mset (batch (q_state q)))"

definition in_system :: "('s, 'w) broker \<Rightarrow> broker_request multiset" where
  "in_system b = q_items (bk_queue b) + (case bk_serving b of None \<Rightarrow> {#} | Some r \<Rightarrow> {#r#})"

definition is_waiting :: "'w connection option \<Rightarrow> bool" where
  "is_waiting oc \<longleftrightarrow> (case oc of None \<Rightarrow> False | Some c \<Rightarrow> c_phase c = Waiting)"

text \<open>
  One request in the system for each waiting connection and none for any other, and it is the
  line that connection is waiting on.
\<close>

definition matched :: "broker_request multiset \<Rightarrow> (nat \<rightharpoonup> 'w connection) \<Rightarrow> bool" where
  "matched M conns \<longleftrightarrow>
     (\<forall>i. count (image_mset req_reply M) i = (if is_waiting (conns i) then 1 else 0))
     \<and> (\<forall>r. r \<in># M \<longrightarrow> (\<exists>c. conns (req_reply r) = Some c \<and> c_line c = req_line r))"

definition broker_ok :: "('s \<Rightarrow> bool) \<Rightarrow> ('s, 'w) broker \<Rightarrow> bool" where
  "broker_ok ok b \<longleftrightarrow>
     matched (in_system b) (bk_conns b) \<and> queue_inv (bk_queue b) \<and> q_capacity (bk_queue b) = QUEUE_CAPACITY
     \<and> (bk_active_since b = None \<longleftrightarrow> bk_serving b = None) \<and> ok (bk_engine b)"

lemma matched_idle:
  assumes "matched M conns" and "\<not> is_waiting (conns i)" and "c_phase c \<noteq> Waiting"
  shows "matched M (conns(i \<mapsto> c))"
proof -
  have "req_reply r \<noteq> i" if "r \<in># M" for r
  proof
    assume "req_reply r = i"
    with that have "i \<in># image_mset req_reply M" by auto
    then have "count (image_mset req_reply M) i \<noteq> 0" by (simp only: count_eq_zero_iff not_not)
    with assms show False by (simp add: matched_def)
  qed
  with assms show ?thesis by (auto simp: matched_def is_waiting_def)
qed

lemma matched_enqueue:
  assumes "matched M conns" and "\<not> is_waiting (conns i)" and "c_phase c = Waiting" and "c_line c = l"
  shows "matched (add_mset \<lparr>req_line = l, req_reply = i\<rparr> M) (conns(i \<mapsto> c))"
proof -
  have "count (image_mset req_reply M) i = 0" using assms(1,2) by (simp add: matched_def)
  then have "req_reply r \<noteq> i" if "r \<in># M" for r
    using that by (metis count_eq_zero_iff image_eqI multiset.set_map)
  with assms show ?thesis by (auto simp: matched_def is_waiting_def)
qed

lemma matched_reply:
  assumes "matched (add_mset r M) conns" and "conns (req_reply r) = Some c"
  shows "matched M (conns(req_reply r \<mapsto> c\<lparr>c_phase := Mailed reply\<rparr>))"
proof -
  have one: "count (image_mset req_reply (add_mset r M)) i = (if is_waiting (conns i) then 1 else 0)" for i
    using assms(1) unfolding matched_def by blast
  have "Suc (count (image_mset req_reply M) (req_reply r)) \<le> 1"
    using one [of "req_reply r"] by (simp split: if_splits)
  then have zero: "count (image_mset req_reply M) (req_reply r) = 0" by simp
  then have other: "req_reply r' \<noteq> req_reply r" if "r' \<in># M" for r'
    using that by (metis count_eq_zero_iff image_eqI multiset.set_map)
  have "count (image_mset req_reply M) i = (if is_waiting (conns i) then 1 else 0)" if "i \<noteq> req_reply r" for i
    using one [of i] that by simp
  with zero other assms(1) show ?thesis by (auto simp: matched_def is_waiting_def)
qed

lemma matched_member: "matched (add_mset r M) conns \<Longrightarrow> \<exists>c. conns (req_reply r) = Some c"
  by (auto simp: matched_def)

section \<open>The operations keep it\<close>

lemma try_enqueue_items:
  assumes "try_enqueue cls v d q = (q', res)"
  shows "case res of Inl e \<Rightarrow> q' = q | Inr u \<Rightarrow> q_items q' = add_mset v (q_items q)"
  using assms
  by (auto simp: try_enqueue_def q_items_def Let_def split: if_splits request_class.splits)

lemma dequeue_items:
  assumes "dequeue now q = (q', res)"
  shows "case res of
           None \<Rightarrow> q_items q' = q_items q
         | Some (DeqReady r) \<Rightarrow> q_items q = add_mset r (q_items q')
         | Some (DeqExpired r) \<Rightarrow> q_items q = add_mset r (q_items q')"
  using assms
  by (auto simp: dequeue_def take_next_def pop_front_def q_items_def split: if_splits list.splits)

lemma queue_capacity_kept:
  "q_capacity (fst (try_enqueue cls v d q)) = q_capacity q" "q_capacity (fst (dequeue now q)) = q_capacity q"
  by (auto simp: try_enqueue_def dequeue_def Let_def split: request_class.split prod.split option.split)

lemma send_reply_phase: "next \<noteq> Waiting \<Longrightarrow> c_phase (send_reply W reply next c) \<noteq> Waiting"
  by (auto simp: send_reply_def split: prod.split sum.split)

lemma turn_cases:
  assumes "handle_connection_turn codec W now i c q = (c', q')"
  obtains (blocked) "c_phase c = Waiting" "c' = c" "q' = q"
  | (idle) "c_phase c \<noteq> Waiting" "c_phase c' \<noteq> Waiting" "q' = q"
  | (enqueued) cls d where "c_phase c \<noteq> Waiting" "c_phase c' = Waiting"
      "try_enqueue cls \<lparr>req_line = c_line c', req_reply = i\<rparr> d q = (q', Inr ())"
proof (cases "c_phase c")
  case Reading
  obtain rd line res where rr: "read_request codec limits_default (c_reader c) (c_line c) = (rd, line, res)"
    using prod_cases3 by blast
  obtain q1 er where te: "try_enqueue (request_class_of codec line) \<lparr>req_line = line, req_reply = i\<rparr> (now + QUEUE_DEADLINE) q = (q1, er)"
    by (cases "try_enqueue (request_class_of codec line) \<lparr>req_line = line, req_reply = i\<rparr> (now + QUEUE_DEADLINE) q")
  show ?thesis
  proof (cases "res = Inr FramedLine \<and> er = Inr ()")
    case True
    with assms Reading rr te have "c' = c\<lparr>c_reader := rd, c_line := line, c_phase := Waiting\<rparr>" "q' = q1"
      by (simp_all add: handle_connection_turn_def)
    with True te Reading show ?thesis by (intro enqueued) auto
  next
    case False
    have "er = Inl Full \<Longrightarrow> q1 = q" using try_enqueue_items [OF te] by simp
    with False assms Reading rr te have "c_phase c' \<noteq> Waiting \<and> q' = q"
      by (cases er; cases res)
        (auto simp: handle_connection_turn_def send_reply_phase Let_def
          split: framed_request.splits sum.splits queue_error.splits)
    with Reading show ?thesis by (intro idle) auto
  qed
next
  case Waiting
  with assms show ?thesis by (intro blocked) (auto simp: handle_connection_turn_def)
next
  case (Mailed m)
  with assms show ?thesis
    by (intro idle) (auto simp: handle_connection_turn_def send_reply_phase split: sum.splits option.splits)
next
  case (Closed r)
  with assms show ?thesis by (intro idle) (auto simp: handle_connection_turn_def)
qed

lemma mail_conns:
  "bk_conns b i = Some c \<Longrightarrow> mail i reply b = b\<lparr>bk_conns := (bk_conns b)(i \<mapsto> c\<lparr>c_phase := Mailed reply\<rparr>)\<rparr>"
  by (simp add: mail_def)

context honest_engine
begin

lemma broker_start_ok: "ok e \<Longrightarrow> broker_ok ok (broker_start e)"
  by (simp add: broker_ok_def broker_start_def matched_def in_system_def q_items_def queue_new_inv is_waiting_def)
    (simp add: queue_new_def)

lemma turn_ok:
  assumes "broker_ok ok b" and c: "bk_conns b i = Some c"
    and t: "handle_connection_turn codec W (bk_now b) i c (bk_queue b) = (c', q')"
  shows "broker_ok ok (b\<lparr>bk_conns := (bk_conns b)(i \<mapsto> c'), bk_queue := q'\<rparr>)"
  using t
proof (cases rule: turn_cases)
  case blocked
  with assms(1) c show ?thesis by (simp add: broker_ok_def in_system_def fun_upd_idem)
next
  case idle
  with assms(1) c matched_idle [of "in_system b" "bk_conns b" i c'] show ?thesis
    by (simp add: broker_ok_def in_system_def is_waiting_def)
next
  case (enqueued cls d)
  let ?r = "\<lparr>req_line = c_line c', req_reply = i\<rparr>"
  have items: "q_items q' = add_mset ?r (q_items (bk_queue b))" using try_enqueue_items [OF enqueued(3)] by simp
  have q: "queue_inv q'" "q_capacity q' = q_capacity (bk_queue b)"
    using try_enqueue_inv [of "bk_queue b" cls ?r d] queue_capacity_kept(1) [of cls ?r d "bk_queue b"] enqueued(3) assms(1)
    by (simp_all add: broker_ok_def)
  have "matched (add_mset ?r (in_system b)) ((bk_conns b)(i \<mapsto> c'))"
    using matched_enqueue [of "in_system b" "bk_conns b" i c' "c_line c'"] assms(1) c enqueued
    by (simp add: broker_ok_def is_waiting_def)
  with items q assms(1) show ?thesis by (simp add: broker_ok_def in_system_def)
qed

lemma take_ok:
  assumes "broker_ok ok b" and "bk_serving b = None"
  shows "broker_ok ok (scheduler_take codec b)"
proof -
  obtain q res where d: "dequeue (bk_now b) (bk_queue b) = (q, res)" by (cases "dequeue (bk_now b) (bk_queue b)")
  have q: "queue_inv q" "q_capacity q = q_capacity (bk_queue b)"
    using dequeue_inv [of "bk_queue b" "bk_now b"] queue_capacity_kept(2) [of "bk_now b" "bk_queue b"] d assms(1)
    by (simp_all add: broker_ok_def)
  note items = dequeue_items [OF d]
  show ?thesis
  proof (cases res)
    case None
    with d q items assms show ?thesis by (simp add: scheduler_take_def watchdog_defs broker_ok_def in_system_def)
  next
    case (Some dq)
    show ?thesis
    proof (cases dq)
      case (DeqReady r)
      with d q items assms Some show ?thesis by (simp add: scheduler_take_def watchdog_defs broker_ok_def in_system_def)
    next
      case (DeqExpired r)
      have m: "matched (add_mset r (q_items q)) (bk_conns b)"
        using assms items Some DeqExpired by (simp add: broker_ok_def in_system_def)
      obtain c where c: "bk_conns b (req_reply r) = Some c" using matched_member [OF m] by blast
      from matched_reply [OF m c] d q assms Some DeqExpired c show ?thesis
        by (simp add: scheduler_take_def watchdog_defs mail_conns broker_ok_def in_system_def)
    qed
  qed
qed

lemma finish_ok:
  assumes "broker_ok ok b" and "bk_serving b = Some r"
  shows "broker_ok ok (scheduler_finish codec E r b)"
proof -
  obtain e reply where p: "process_line codec E limits_default (req_line r) (bk_engine b) = (e, reply)"
    by (cases "process_line codec E limits_default (req_line r) (bk_engine b)")
  have "ok e"
    using handle_line_keeps [of "bk_engine b" codec limits_default "req_line r"] p assms(1)
    by (auto simp: process_line_def broker_ok_def split: prod.splits option.splits sum.splits)
  have m: "matched (add_mset r (q_items (bk_queue b))) (bk_conns b)"
    using assms by (simp add: broker_ok_def in_system_def)
  obtain c where c: "bk_conns b (req_reply r) = Some c" using matched_member [OF m] by blast
  from matched_reply [OF m c] \<open>ok e\<close> p assms c show ?thesis
    by (simp add: scheduler_finish_def watchdog_defs mail_conns broker_ok_def in_system_def)
qed

lemma step_ok:
  assumes "broker_step codec E W b b'" and "broker_ok ok b"
  shows "broker_ok ok b'"
  using assms
proof (cases rule: broker_step.cases)
  case (accept i rd w)
  with assms(2) matched_idle [of "in_system b" "bk_conns b" i "connection_new rd w"] show ?thesis
    by (simp add: broker_ok_def in_system_def is_waiting_def connection_new_def)
next
  case (turn i c c' q')
  with assms(2) show ?thesis using turn_ok by simp
next
  case take
  with assms(2) show ?thesis using take_ok by simp
next
  case (finish r)
  with assms(2) show ?thesis using finish_ok by simp
next
  case (tick t)
  with assms(2) show ?thesis by (simp add: broker_ok_def in_system_def)
qed

lemma reach_ok: "broker_reach codec E W b0 b \<Longrightarrow> broker_ok ok b0 \<Longrightarrow> broker_ok ok b"
  by (induction rule: broker_reach.induct) (auto intro: step_ok)

end

section \<open>Properties of the broker\<close>

lemma size_q_items: "size (q_items q) = queue_len q"
  by (simp add: q_items_def queue_len_def)

text \<open>A run: one client sends a line, it is queued, and the scheduler takes it.\<close>

definition sample_request :: broker_request where
  "sample_request = \<lparr>req_line = ''{}'', req_reply = 0\<rparr>"

definition sample_client :: "bytes connection" where
  "sample_client = connection_new \<lparr>pending = ''{}'' @ [newline], script = []\<rparr> []"

definition sample_waiting :: "bytes connection" where
  "sample_waiting = \<lparr>c_reader = \<lparr>pending = [], script = []\<rparr>, c_line = ''{}'', c_writer = [], c_phase = Waiting\<rparr>"

definition sample_queued :: "broker_request broker_queue" where
  "sample_queued =
     \<lparr>q_capacity = QUEUE_CAPACITY,
      q_state = \<lparr>interactive = [\<lparr>q_value = sample_request, q_deadline = QUEUE_DEADLINE\<rparr>], batch = [],
                 interactive_since_batch_waited = 0\<rparr>\<rparr>"

definition sample_started :: "((context_params list loaded_engine, nat) broker_engine_state, bytes) broker" where
  "sample_started = broker_start sample_broker"

definition sample_serving :: "((context_params list loaded_engine, nat) broker_engine_state, bytes) broker" where
  "sample_serving =
     sample_started\<lparr>bk_conns := [0 \<mapsto> sample_waiting], bk_serving := Some sample_request, bk_active_since := Some 0\<rparr>"

abbreviation sample_ops :: "((context_params list loaded_engine, nat) broker_engine_state, unit) embed_engine" where
  "sample_ops \<equiv> broker_ops (loaded_ops tight_llama toy_ops) (model_loader sample_lwp)"

lemma sample_turn:
  "handle_connection_turn sample_codec vec_writer 0 0 sample_client (queue_new QUEUE_CAPACITY) = (sample_waiting, sample_queued)"
proof -
  define rd where "rd = \<lparr>pending = ''{}'' @ [newline], script = []\<rparr>"
  have pos: "position (\<lambda>b. b = newline) (''{}'' @ [newline]) = Some 2"
    by (simp add: newline_def)
  have fb: "fill_buf rd = (rd, FillOk (''{}'' @ [newline]))" by (simp add: fill_buf_def rd_def)
  have ab: "absorb MAX_REQUEST_BYTES (''{}'' @ [newline]) [] False = (''{}'', False)"
    by (simp add: absorb_def content_len_def pos [simplified] MAX_REQUEST_BYTES_def)
  have "read_line_loop MAX_REQUEST_BYTES rd [] False = (\<lparr>pending = [], script = []\<rparr>, ''{}'', Inr LineRead)"
    using fb ab pos
    by (subst read_line_loop.simps) (simp add: has_newline_def content_len_def consume_def, simp add: rd_def)
  then have "read_request sample_codec limits_default rd [] = (\<lparr>pending = [], script = []\<rparr>, ''{}'', Inr FramedLine)"
    by (simp add: read_request_def read_line_capped_def limits_default_def)
  then show ?thesis
    by (simp add: rd_def handle_connection_turn_def sample_client_def connection_new_def request_class_of_def sample_codec_def
        value_get_def obj_get_def try_enqueue_def queue_new_def QUEUE_CAPACITY_def sample_waiting_def sample_queued_def
        sample_request_def Let_def)
qed

lemma sample_reach: "broker_reach sample_codec sample_ops vec_writer sample_started sample_serving"
proof -
  let ?b1 = "sample_started\<lparr>bk_conns := [0 \<mapsto> sample_client]\<rparr>"
  let ?b2 = "?b1\<lparr>bk_conns := [0 \<mapsto> sample_waiting], bk_queue := sample_queued\<rparr>"
  have "broker_step sample_codec sample_ops vec_writer sample_started ?b1"
    using broker_step.accept [of sample_started 0 sample_codec sample_ops vec_writer
        "\<lparr>pending = ''{}'' @ [newline], script = []\<rparr>" "[]"]
    by (simp add: sample_client_def sample_started_def broker_start_def)
  moreover have "broker_step sample_codec sample_ops vec_writer ?b1 ?b2"
    using broker_step.turn [of ?b1 0 sample_client sample_codec vec_writer sample_waiting sample_queued sample_ops]
      sample_turn by (simp add: sample_started_def broker_start_def)
  moreover have "broker_step sample_codec sample_ops vec_writer ?b2 sample_serving"
  proof -
    have "scheduler_take sample_codec ?b2 = sample_serving"
      by (simp add: scheduler_take_def watchdog_defs dequeue_def take_next_def pop_front_def sample_queued_def sample_started_def
          broker_start_def sample_serving_def QUEUE_DEADLINE_def from_secs_def queue_new_def)
    then show ?thesis
      using broker_step.take [of ?b2 sample_codec sample_ops vec_writer] by (simp add: sample_started_def broker_start_def)
  qed
  ultimately show ?thesis by (meson broker_reach.intros)
qed

text \<open>
  C6 (invariant). No request is lost, answered twice or answered to the wrong client, whatever the
  interleaving of connections, scheduler and time: in every reachable state of the broker with
  the engine of the program, each connection that waits for a reply has exactly one request
  queued or in service, namely its own line, no other connection has any, the queue holds at
  most 64 requests, and a look of the watchdog that copies its mark while no request is served never
  aborts the broker, however late it reads the clock. A copy taken while a request was served may
  still be judged after that request ended; the reply is sent before the mark is taken back, which
  is one step here.
\<close>

theorem broker_requests_matched:
  assumes "load_with (loaded_ops M F) (model_loader lwp) lease l = (l1, Inr e)"
    and "broker_reach codec (broker_ops (loaded_ops M F) (model_loader lwp)) W (broker_start e) b"
  shows "matched (in_system b) (bk_conns b) \<and> size (q_items (bk_queue b)) \<le> 64
    \<and> (bk_serving b = None \<longrightarrow> (\<forall>now. \<not> watchdog_aborts (bk_active_since b) now))
    \<and> broker_inv (loaded_ops M F) (\<lambda>_. True) (bk_engine b)"
proof -
  have "broker_inv (loaded_ops M F) (\<lambda>_. True) e" using loaded.load_with_inv [OF assms(1)] by blast
  then have "broker_ok (broker_inv (loaded_ops M F) (\<lambda>_. True)) b"
    using loaded.broker.reach_ok [OF assms(2)] loaded.broker.broker_start_ok by blast
  then show ?thesis
    by (auto simp: broker_ok_def size_q_items queue_inv_def QUEUE_CAPACITY_def watchdog_aborts_def split: option.splits)
qed

theorem broker_requests_matched_witness:
  "matched (in_system sample_serving) (bk_conns sample_serving) \<and> size (q_items (bk_queue sample_serving)) \<le> 64
   \<and> broker_inv (loaded_ops tight_llama toy_ops) (\<lambda>_. True) (bk_engine sample_serving)"
  using broker_requests_matched [OF sample_load sample_reach [unfolded sample_started_def]] by blast

text \<open>
  The reply goes to the connection that asked, and answers the line it sent: when
  the scheduler finishes a request, exactly one waiting connection is mailed the result of
  processing its own line, and every other connection is left as it was.
\<close>

lemma reply_answers_own_line:
  assumes "load_with (loaded_ops M F) (model_loader lwp) lease l = (l1, Inr e)"
    and "broker_reach codec (broker_ops (loaded_ops M F) (model_loader lwp)) W (broker_start e) b"
    and "bk_serving b = Some r"
  shows "\<exists>c. bk_conns b (req_reply r) = Some c \<and> c_phase c = Waiting
    \<and> bk_conns (scheduler_finish codec (broker_ops (loaded_ops M F) (model_loader lwp)) r b)
      = (bk_conns b)(req_reply r \<mapsto> c\<lparr>c_phase := Mailed (snd (process_line codec
          (broker_ops (loaded_ops M F) (model_loader lwp)) limits_default (c_line c) (bk_engine b)))\<rparr>)"
proof -
  have "broker_inv (loaded_ops M F) (\<lambda>_. True) e" using loaded.load_with_inv [OF assms(1)] by blast
  then have "broker_ok (broker_inv (loaded_ops M F) (\<lambda>_. True)) b"
    using loaded.broker.reach_ok [OF assms(2)] loaded.broker.broker_start_ok by blast
  then have m: "matched (in_system b) (bk_conns b)" by (simp add: broker_ok_def)
  then obtain c where c: "bk_conns b (req_reply r) = Some c" "c_line c = req_line r"
    using assms(3) by (auto simp: matched_def in_system_def)
  have "count (image_mset req_reply (in_system b)) (req_reply r) \<noteq> 0" using assms(3) by (simp add: in_system_def)
  with m c have "c_phase c = Waiting" by (auto simp: matched_def is_waiting_def split: if_splits)
  with c show ?thesis by (auto simp: scheduler_finish_def watchdog_defs mail_def split: prod.split)
qed

lemma reply_answers_own_line_witness:
  "\<exists>c. bk_conns sample_serving 0 = Some c \<and> c_phase c = Waiting
    \<and> bk_conns (scheduler_finish sample_codec sample_ops sample_request sample_serving)
      = (bk_conns sample_serving)(0 \<mapsto> c\<lparr>c_phase := Mailed (snd (process_line sample_codec sample_ops limits_default
          (c_line c) (bk_engine sample_serving)))\<rparr>)"
  using reply_answers_own_line [OF sample_load sample_reach [unfolded sample_started_def], of sample_request]
  by (simp add: sample_serving_def) (simp add: sample_request_def)

end
