(* ===== verification/Broker_Schedule.thy ===== *)
theory Broker_Schedule
  imports Broker
begin

text \<open>
  The scheduler loop of \<open>serve_with_loader\<close> (\<open>src/src/broker/mod.rs\<close>) run against an arbitrary
  environment. A schedule is a list of events: clients that connect, connection threads that get
  a turn, moves of the scheduler thread, time that passes. \<open>run_schedule\<close> executes one; it is the
  step relation of \<open>Broker\<close>, with a thread that has nothing to do left as it is. The wait of a
  client is measured by the position of its request in the queue (the waits of the locale
  \<open>fair_class\<close>), which gives a bound on the moves of the scheduler until it is answered.
\<close>

section \<open>Schedules\<close>

datatype 'w broker_event =
    Accept nat buf_reader 'w
  | Turn nat
  | Move
  | Elapse duration

text \<open>Half a turn of the scheduler's loop: \<open>dequeue\<close>, or what follows a ready request.\<close>

definition scheduler_move ::
  "'f json_codec \<Rightarrow> ('s, 'f) embed_engine \<Rightarrow> ('s, 'w) broker \<Rightarrow> ('s, 'w) broker" where
  "scheduler_move codec E b =
     (case bk_serving b of
        None \<Rightarrow> scheduler_take codec b
      | Some r \<Rightarrow> scheduler_finish codec E r b)"

definition connection_move :: "'f json_codec \<Rightarrow> 'w writer \<Rightarrow> nat \<Rightarrow> ('s, 'w) broker \<Rightarrow> ('s, 'w) broker" where
  "connection_move codec W i b =
     (case bk_conns b i of
        None \<Rightarrow> b
      | Some c \<Rightarrow>
          (case handle_connection_turn codec W (bk_now b) i c (bk_queue b) of
             (c', q') \<Rightarrow> b\<lparr>bk_conns := (bk_conns b)(i \<mapsto> c'), bk_queue := q'\<rparr>))"

fun broker_do ::
  "'f json_codec \<Rightarrow> ('s, 'f) embed_engine \<Rightarrow> 'w writer \<Rightarrow> 'w broker_event \<Rightarrow> ('s, 'w) broker \<Rightarrow> ('s, 'w) broker"
where
  "broker_do codec E W (Accept i rd w) b =
     (if bk_conns b i = None then b\<lparr>bk_conns := (bk_conns b)(i \<mapsto> connection_new rd w)\<rparr> else b)"
| "broker_do codec E W (Turn i) b = connection_move codec W i b"
| "broker_do codec E W Move b = scheduler_move codec E b"
| "broker_do codec E W (Elapse d) b = b\<lparr>bk_now := bk_now b + d\<rparr>"

primrec run_schedule ::
  "'f json_codec \<Rightarrow> ('s, 'f) embed_engine \<Rightarrow> 'w writer \<Rightarrow> 'w broker_event list \<Rightarrow> ('s, 'w) broker \<Rightarrow> ('s, 'w) broker"
where
  "run_schedule codec E W [] b = b"
| "run_schedule codec E W (ev # evs) b = run_schedule codec E W evs (broker_do codec E W ev b)"

primrec scheduler_moves :: "'w broker_event list \<Rightarrow> nat" where
  "scheduler_moves [] = 0"
| "scheduler_moves (ev # evs) = (case ev of Move \<Rightarrow> 1 | _ \<Rightarrow> 0) + scheduler_moves evs"

lemma broker_do_step: "broker_step codec E W b (broker_do codec E W ev b) \<or> broker_do codec E W ev b = b"
proof (cases ev)
  case (Accept i rd w)
  then show ?thesis by (auto intro: broker_step.accept)
next
  case (Turn i)
  then show ?thesis
    by (auto simp: connection_move_def intro: broker_step.turn split: option.split prod.split)
next
  case Move
  then show ?thesis
    by (auto simp: scheduler_move_def intro: broker_step.take broker_step.finish split: option.split)
next
  case (Elapse d)
  then show ?thesis by (auto intro: broker_step.tick)
qed

text \<open>What a schedule reaches is reachable.\<close>

lemma run_schedule_reach: "broker_reach codec E W b0 b \<Longrightarrow> broker_reach codec E W b0 (run_schedule codec E W evs b)"
proof (induction evs arbitrary: b)
  case (Cons ev evs)
  then show ?case
    using broker_do_step [of codec E W b ev] by (auto intro: broker_reach.step)
qed simp

section \<open>The wait of a request\<close>

text \<open>A request of connection \<open>i\<close> is at position \<open>p\<close> of its class.\<close>

definition waits_at :: "broker_request broker_queue \<Rightarrow> nat \<Rightarrow> request_class \<Rightarrow> nat \<Rightarrow> bool" where
  "waits_at q i c p \<longleftrightarrow>
     p < length (queue_of (q_state q) c) \<and> req_reply (q_value (queue_of (q_state q) c ! p)) = i"

definition class_wait :: "'t broker_queue \<Rightarrow> request_class \<Rightarrow> nat \<Rightarrow> nat" where
  "class_wait q c p = (case c of Batch \<Rightarrow> batch_wait q p | Interactive \<Rightarrow> interactive_wait q p)"

lemma class_wait_bound: "queue_len q \<le> 64 \<Longrightarrow> p < length (queue_of (q_state q) c) \<Longrightarrow> class_wait q c p \<le> 575"
  by (auto simp: class_wait_def batch_wait_def interactive_wait_def queue_len_def queue_of_def split: request_class.splits)

lemma push_keeps_wait:
  assumes "try_enqueue cls r dl q = (q', Inr ())" and "waits_at q i c p"
  shows "waits_at q' i c p \<and> class_wait q' c p = class_wait q c p"
proof -
  have s: "q_push cls \<lparr>q_value = r, q_deadline = dl\<rparr> q = Some q'" using assms(1) by (simp add: q_push_def)
  have "class_wait q' c p = class_wait q c p"
    using bq_batch.push_wait [OF s] bq_interactive.push_wait [OF s]
    by (simp add: class_wait_def split: request_class.split)
  moreover have "waits_at q' i c p"
    using assms(2) by (auto simp: waits_at_def bq.push_contents [OF s] nth_append)
  ultimately show ?thesis by blast
qed

text \<open>A dequeue hands out the request, or brings it nearer.\<close>

lemma pop_progress:
  assumes "waits_at q i c p"
  shows "\<exists>q' d v. q_pop q = Some (q', d, v)
    \<and> (req_reply (q_value v) = i \<or> (\<exists>p'. waits_at q' i c p' \<and> class_wait q' c p' < class_wait q c p))"
proof -
  have l: "p < length (queue_of (q_state q) c)" using assms by (simp add: waits_at_def)
  obtain q' d v where pop: "q_pop q = Some (q', d, v)" using q_pop_nonempty [OF l] by blast
  note cont = bq.pop_contents [OF pop]
  have "req_reply (q_value v) = i \<or> (\<exists>p'. waits_at q' i c p' \<and> class_wait q' c p' < class_wait q c p)"
  proof (cases "d = c")
    case False
    have "class_wait q' c p < class_wait q c p"
      using bq_batch.pop_other [of p q q' d v] bq_interactive.pop_other [of p q q' d v] l pop False
      by (cases c) (simp_all add: class_wait_def)
    moreover have "waits_at q' i c p" using assms cont False by (simp add: waits_at_def)
    ultimately show ?thesis by blast
  next
    case True
    show ?thesis
    proof (cases p)
      case 0
      with assms cont True show ?thesis by (simp add: waits_at_def)
    next
      case (Suc p')
      have "class_wait q' c p' < class_wait q c p"
        using bq_batch.pop_same [of p' q q' v] bq_interactive.pop_same [of p' q q' v] l pop True Suc
        by (cases c) (simp_all add: class_wait_def)
      moreover have "waits_at q' i c p'" using assms cont True Suc by (simp add: waits_at_def)
      ultimately show ?thesis by blast
    qed
  qed
  with pop show ?thesis by blast
qed

lemma dequeue_of_pop:
  "q_pop q = Some (q', d, v) \<Longrightarrow>
     dequeue now q = (q', Some (if q_deadline v \<le> now then DeqExpired (q_value v) else DeqReady (q_value v)))"
  by (auto simp: q_pop_def dequeue_def split: prod.splits option.splits)

text \<open>The moves of the scheduler connection \<open>i\<close> waits for at most.\<close>

definition owes :: "('s, 'w) broker \<Rightarrow> nat \<Rightarrow> nat \<Rightarrow> bool" where
  "owes b i n \<longleftrightarrow>
     (case bk_serving b of
        None \<Rightarrow> \<exists>c p. waits_at (bk_queue b) i c p \<and> n = 2 * class_wait (bk_queue b) c p + 2
      | Some r \<Rightarrow>
          (if req_reply r = i then n = 1
           else \<exists>c p. waits_at (bk_queue b) i c p \<and> n = 2 * class_wait (bk_queue b) c p + 3))"

lemma owes_positive: "owes b i n \<Longrightarrow> 0 < n"
  by (auto simp: owes_def split: option.splits if_splits)

lemma owes_cong: "bk_queue b' = bk_queue b \<Longrightarrow> bk_serving b' = bk_serving b \<Longrightarrow> owes b' i n = owes b i n"
  by (simp add: owes_def split: option.split)

lemma owes_mono:
  assumes "owes b i n" and "bk_serving b' = bk_serving b"
    and "\<And>k p. waits_at (bk_queue b) i k p \<Longrightarrow>
      waits_at (bk_queue b') i k p \<and> class_wait (bk_queue b') k p = class_wait (bk_queue b) k p"
  shows "owes b' i n"
  using assms by (fastforce simp: owes_def split: option.splits if_splits)

lemma waits_at_ex:
  assumes "r \<in># q_items q"
  shows "\<exists>c p. waits_at q (req_reply r) c p"
proof -
  from assms consider x where "x \<in> set (queue_of (q_state q) Interactive)" "q_value x = r"
    | x where "x \<in> set (queue_of (q_state q) Batch)" "q_value x = r"
    by (auto simp: q_items_def queue_of_def)
  then show ?thesis
    by cases (fastforce simp: waits_at_def in_set_conv_nth)+
qed

lemma owes_ex:
  assumes "broker_ok ok b" and "is_waiting (bk_conns b i)"
  shows "\<exists>n \<le> 1153. owes b i n"
proof -
  have "count (image_mset req_reply (in_system b)) i \<noteq> 0" using assms by (simp add: broker_ok_def matched_def)
  then have "i \<in># image_mset req_reply (in_system b)" by (meson not_in_iff)
  then obtain r where r: "r \<in># in_system b" "req_reply r = i" by auto
  have len: "queue_len (bk_queue b) \<le> 64" using assms(1) by (simp add: broker_ok_def queue_inv_def QUEUE_CAPACITY_def)
  show ?thesis
  proof (cases "\<exists>r'. bk_serving b = Some r' \<and> req_reply r' = i")
    case True
    then show ?thesis by (auto simp: owes_def)
  next
    case False
    with r have "r \<in># q_items (bk_queue b)" by (auto simp: in_system_def split: option.splits)
    then obtain c p where w: "waits_at (bk_queue b) i c p" using waits_at_ex r(2) by blast
    have "class_wait (bk_queue b) c p \<le> 575" using class_wait_bound [OF len] w by (simp add: waits_at_def)
    then have "2 * class_wait (bk_queue b) c p + 3 \<le> 1153" by simp
    moreover have "owes b i (2 * class_wait (bk_queue b) c p + (if bk_serving b = None then 2 else 3))"
      using False w by (auto simp: owes_def split: option.split)
    ultimately show ?thesis by (intro exI [of _ "2 * class_wait (bk_queue b) c p + (if bk_serving b = None then 2 else 3)"]) simp
  qed
qed

section \<open>The environment does not lengthen it\<close>

definition expired_answer :: "'f json_codec \<Rightarrow> bytes \<Rightarrow> (io_error, protocol_reply option) result" where
  "expired_answer codec line =
     (case failure_reply codec line ''BrokerRequestExpired'' ''broker request expired'' of
        Inl e \<Rightarrow> Inl e | Inr reply \<Rightarrow> Inr (Some reply))"

text \<open>The answers a line can get: it expired in the queue, or a sound engine processed it.\<close>

definition answer_of ::
  "'f json_codec \<Rightarrow> ('s, 'f) embed_engine \<Rightarrow> ('s \<Rightarrow> bool) \<Rightarrow> bytes \<Rightarrow> (io_error, protocol_reply option) result \<Rightarrow> bool"
where
  "answer_of codec E ok line reply \<longleftrightarrow>
     reply = expired_answer codec line
     \<or> (\<exists>s. ok s \<and> reply = snd (process_line codec E limits_default line s))"

lemma matched_line:
  assumes "matched M conns" and "r \<in># M" and "conns (req_reply r) = Some c"
  shows "c_line c = req_line r"
  using assms by (auto simp: matched_def)

lemma environment_keeps:
  assumes "ev \<noteq> Move" and "bk_conns b i = Some c" and "c_phase c = Waiting" and "owes b i n"
  shows "bk_conns (broker_do codec E W ev b) i = Some c \<and> owes (broker_do codec E W ev b) i n"
proof (cases ev)
  case (Turn j)
  show ?thesis
  proof (cases "bk_conns b j")
    case None
    with Turn assms show ?thesis by (simp add: connection_move_def)
  next
    case (Some cj)
    obtain c' q' where t: "handle_connection_turn codec W (bk_now b) j cj (bk_queue b) = (c', q')"
      by (cases "handle_connection_turn codec W (bk_now b) j cj (bk_queue b)")
    let ?b' = "b\<lparr>bk_conns := (bk_conns b)(j \<mapsto> c'), bk_queue := q'\<rparr>"
    have "bk_conns ?b' i = Some c \<and> owes ?b' i n"
      using t
    proof (cases rule: turn_cases)
      case blocked
      with assms Some owes_cong [of ?b' b i n] show ?thesis by auto
    next
      case idle
      with assms Some owes_cong [of ?b' b i n] show ?thesis by auto
    next
      case (enqueued cls d)
      with assms Some have "i \<noteq> j" by auto
      moreover have "waits_at q' i k p \<and> class_wait q' k p = class_wait (bk_queue b) k p"
        if "waits_at (bk_queue b) i k p" for k p
        using push_keeps_wait enqueued(3) that by blast
      ultimately show ?thesis using assms owes_mono [OF assms(4), of ?b'] by simp
    qed
    with Turn Some t show ?thesis by (simp add: connection_move_def)
  qed
next
  case (Accept j rd w)
  with assms owes_cong [of "b\<lparr>bk_conns := (bk_conns b)(j \<mapsto> connection_new rd w)\<rparr>" b] show ?thesis by auto
next
  case (Elapse d)
  with assms owes_cong [of "b\<lparr>bk_now := bk_now b + d\<rparr>" b] show ?thesis by auto
qed (use assms in simp)

section \<open>Every move shortens it\<close>

lemma take_shortens:
  assumes "broker_ok ok b" and c: "bk_conns b i = Some c" and "owes b i n" and idle: "bk_serving b = None"
  shows "bk_conns (scheduler_take codec b) i = Some (c\<lparr>c_phase := Mailed (expired_answer codec (c_line c))\<rparr>)
    \<or> (bk_conns (scheduler_take codec b) i = Some c \<and> (\<exists>m < n. owes (scheduler_take codec b) i m))"
proof -
  obtain k p where w: "waits_at (bk_queue b) i k p" and n: "n = 2 * class_wait (bk_queue b) k p + 2"
    using assms(3) idle by (auto simp: owes_def)
  obtain q' d v where pop: "q_pop (bk_queue b) = Some (q', d, v)"
    and nearer: "req_reply (q_value v) = i
      \<or> (\<exists>p'. waits_at q' i k p' \<and> class_wait q' k p' < class_wait (bk_queue b) k p)"
    using pop_progress [OF w] by blast
  note dq = dequeue_of_pop [OF pop, of "bk_now b"]
  show ?thesis
  proof (cases "q_deadline v \<le> bk_now b")
    case True
    with dq have d: "dequeue (bk_now b) (bk_queue b) = (q', Some (DeqExpired (q_value v)))" by simp
    have t: "scheduler_take codec b =
      mail (req_reply (q_value v)) (expired_answer codec (req_line (q_value v))) (b\<lparr>bk_queue := q'\<rparr>)"
      by (simp add: scheduler_take_def d expired_answer_def)
    have m: "matched (add_mset (q_value v) (q_items q')) (bk_conns b)"
      using assms(1) idle dequeue_items [OF d] by (simp add: broker_ok_def in_system_def)
    show ?thesis
    proof (cases "req_reply (q_value v) = i")
      case True
      have "c_line c = req_line (q_value v)" using matched_line [OF m] True c by simp
      with t c True show ?thesis by (simp add: mail_def)
    next
      case False
      with nearer n obtain p' where "waits_at q' i k p'" "2 * class_wait q' k p' + 2 < n" by auto
      with t c False idle show ?thesis by (auto simp: mail_def owes_def split: option.split)
    qed
  next
    case False
    with dq have t: "scheduler_take codec b = watchdog_arm (b\<lparr>bk_queue := q', bk_serving := Some (q_value v)\<rparr>)"
      by (simp add: scheduler_take_def)
    show ?thesis
    proof (cases "req_reply (q_value v) = i")
      case True
      with t c n show ?thesis by (auto simp: owes_def watchdog_arm_def)
    next
      case False
      with nearer n obtain p' where "waits_at q' i k p'" "2 * class_wait q' k p' + 3 < n" by auto
      with t c False show ?thesis by (auto simp: owes_def watchdog_arm_def)
    qed
  qed
qed

lemma finish_shortens:
  assumes "broker_ok ok b" and c: "bk_conns b i = Some c" and "owes b i n" and busy: "bk_serving b = Some r"
  shows "bk_conns (scheduler_finish codec E r b) i
      = Some (c\<lparr>c_phase := Mailed (snd (process_line codec E limits_default (c_line c) (bk_engine b)))\<rparr>)
    \<or> (bk_conns (scheduler_finish codec E r b) i = Some c \<and> (\<exists>m < n. owes (scheduler_finish codec E r b) i m))"
proof -
  obtain e reply where p: "process_line codec E limits_default (req_line r) (bk_engine b) = (e, reply)"
    by (cases "process_line codec E limits_default (req_line r) (bk_engine b)")
  have f: "scheduler_finish codec E r b =
    active_request_drop (mail (req_reply r) reply (b\<lparr>bk_engine := e, bk_serving := None\<rparr>))"
    by (simp add: scheduler_finish_def p)
  show ?thesis
  proof (cases "req_reply r = i")
    case True
    have "matched (in_system b) (bk_conns b)" using assms(1) by (simp add: broker_ok_def)
    then have "c_line c = req_line r" using matched_line [of _ _ r c] busy True c by (simp add: in_system_def)
    with f p c True show ?thesis by (simp add: active_request_drop_def mail_def)
  next
    case False
    with assms(3) busy obtain k p where w: "waits_at (bk_queue b) i k p"
      and n: "n = 2 * class_wait (bk_queue b) k p + 3" by (auto simp: owes_def)
    then have "\<exists>m < n. owes (scheduler_finish codec E r b) i m"
      by (intro exI [of _ "2 * class_wait (bk_queue b) k p + 2"])
        (auto simp: f active_request_drop_def mail_def owes_def split: option.split)
    moreover have "bk_conns (scheduler_finish codec E r b) i = Some c"
      using c False by (simp add: f active_request_drop_def mail_def split: option.split)
    ultimately show ?thesis by blast
  qed
qed

context honest_engine
begin

lemma do_ok: "broker_ok ok b \<Longrightarrow> broker_ok ok (broker_do codec E W ev b)"
  using broker_do_step [of codec E W b ev] step_ok by force

lemma move_shortens:
  assumes "broker_ok ok b" and "bk_conns b i = Some c" and "owes b i n"
  shows "(\<exists>reply. bk_conns (scheduler_move codec E b) i = Some (c\<lparr>c_phase := Mailed reply\<rparr>)
      \<and> answer_of codec E ok (c_line c) reply)
    \<or> (bk_conns (scheduler_move codec E b) i = Some c \<and> (\<exists>m < n. owes (scheduler_move codec E b) i m))"
proof (cases "bk_serving b")
  case None
  with take_shortens [OF assms None, of codec] show ?thesis by (auto simp: scheduler_move_def answer_of_def)
next
  case (Some r)
  have "ok (bk_engine b)" using assms(1) by (simp add: broker_ok_def)
  with finish_shortens [OF assms Some, of codec E] Some show ?thesis by (auto simp: scheduler_move_def answer_of_def)
qed

lemma answered_within:
  assumes "broker_ok ok b" and "bk_conns b i = Some c" and "c_phase c = Waiting"
    and "owes b i n" and "n \<le> scheduler_moves evs"
  shows "\<exists>k \<le> length evs. \<exists>reply. bk_conns (run_schedule codec E W (take k evs) b) i = Some (c\<lparr>c_phase := Mailed reply\<rparr>)
    \<and> answer_of codec E ok (c_line c) reply"
  using assms
proof (induction evs arbitrary: b n)
  case Nil
  then show ?case using owes_positive by fastforce
next
  case (Cons ev evs)
  let ?b' = "broker_do codec E W ev b"
  note ok' = do_ok [OF Cons.prems(1), of codec W ev]
  have later: ?case if kept: "bk_conns ?b' i = Some c" "owes ?b' i m" "m \<le> scheduler_moves evs" for m
  proof -
    obtain k reply where "k \<le> length evs"
      "bk_conns (run_schedule codec E W (take k evs) ?b') i = Some (c\<lparr>c_phase := Mailed reply\<rparr>)"
      "answer_of codec E ok (c_line c) reply"
      using Cons.IH [OF ok' kept(1) Cons.prems(3) kept(2,3)] by blast
    then show ?thesis by (intro exI [of _ "Suc k"]) auto
  qed
  show ?case
  proof (cases "ev = Move")
    case False
    then show ?thesis
      using environment_keeps [OF False Cons.prems(2-4)] Cons.prems(5) later [of n]
      by (cases ev) auto
  next
    case True
    then consider reply where "bk_conns ?b' i = Some (c\<lparr>c_phase := Mailed reply\<rparr>)" "answer_of codec E ok (c_line c) reply"
      | m where "bk_conns ?b' i = Some c" "m < n" "owes ?b' i m"
      using move_shortens [OF Cons.prems(1,2,4), of codec] by auto
    then show ?thesis
    proof cases
      case 1
      then show ?thesis by (intro exI [of _ "Suc 0"]) auto
    next
      case 2
      with Cons.prems(5) True later [of m] show ?thesis by auto
    qed
  qed
qed

end

section \<open>Every client is answered\<close>

text \<open>
  C3 (liveness). No client waits for ever: from any reachable state, a connection that waits for a
  reply is sent one before the scheduler has made 1153 moves (a move is a dequeue, or the
  processing of the request it returned), whatever other clients connect, send and close in
  between and however much time passes; the connection is otherwise untouched until then, and the
  reply answers its own line: the expiry notice, or what \<open>process_line\<close> makes of it on an engine
  in a sound state.
\<close>

theorem waiting_client_answered:
  assumes "load_with (loaded_ops M F) (model_loader lwp) lease l = (l1, Inr e)"
    and "broker_reach codec (broker_ops (loaded_ops M F) (model_loader lwp)) W (broker_start e) b"
    and "bk_conns b i = Some c" and "c_phase c = Waiting" and "1153 \<le> scheduler_moves evs"
  shows "\<exists>k \<le> length evs. \<exists>reply.
    bk_conns (run_schedule codec (broker_ops (loaded_ops M F) (model_loader lwp)) W (take k evs) b) i
      = Some (c\<lparr>c_phase := Mailed reply\<rparr>)
    \<and> answer_of codec (broker_ops (loaded_ops M F) (model_loader lwp)) (broker_inv (loaded_ops M F) (\<lambda>_. True))
        (c_line c) reply"
proof -
  have "broker_inv (loaded_ops M F) (\<lambda>_. True) e" using loaded.load_with_inv [OF assms(1)] by blast
  then have ok: "broker_ok (broker_inv (loaded_ops M F) (\<lambda>_. True)) b"
    using loaded.broker.reach_ok [OF assms(2)] loaded.broker.broker_start_ok by blast
  obtain n where n: "n \<le> 1153" "owes b i n"
    using owes_ex [OF ok, of i] assms(3,4) by (auto simp: is_waiting_def)
  show ?thesis
    by (rule loaded.broker.answered_within [OF ok assms(3,4) n(2) order_trans [OF n(1) assms(5)]])
qed

lemma scheduler_moves_replicate: "scheduler_moves (replicate n Move) = n"
  by (induction n) auto

theorem waiting_client_answered_witness:
  "\<exists>k \<le> 1153. \<exists>reply.
    bk_conns (run_schedule sample_codec sample_ops vec_writer (take k (replicate 1153 Move)) sample_serving) 0
      = Some (sample_waiting\<lparr>c_phase := Mailed reply\<rparr>)
    \<and> answer_of sample_codec sample_ops (broker_inv (loaded_ops tight_llama toy_ops) (\<lambda>_. True)) ''{}'' reply"
  using waiting_client_answered [OF sample_load sample_reach [unfolded sample_started_def],
      of 0 sample_waiting "replicate 1153 Move"]
  by (simp only: length_replicate scheduler_moves_replicate)
    (simp add: sample_serving_def sample_waiting_def)

end
