(* ===== verification/Broker_Conversation.thy ===== *)
theory Broker_Conversation
  imports Broker_Schedule
begin

text \<open>
  What one client of the broker sees (\<open>handle_connection\<close> of \<open>src/src/broker/mod.rs\<close> against the
  scheduler and every other connection). The reference is that of the single-client loop in
  theory \<open>Protocol\<close>: the bytes of the client cut into frames, each frame answered once, in order.
  An exchange is a frame with its answer; the exchanges of a connection are recovered from its
  state, and the frames still to come are those of its reader.
\<close>

section \<open>Exchanges\<close>

type_synonym exchange = "frame \<times> protocol_reply option"

text \<open>The bytes the answers of a list of exchanges put on the wire.\<close>

definition transcript :: "exchange list \<Rightarrow> bytes" where
  "transcript xs = concat (map (\<lambda>x. case snd x of None \<Rightarrow> [] | Some reply \<Rightarrow> reply_line reply @ [newline]) xs)"

lemma transcript_simps [simp]:
  "transcript [] = []"
  "transcript (xs @ [(f, None)]) = transcript xs"
  "transcript (xs @ [(f, Some reply)]) = transcript xs @ reply_line reply @ [newline]"
  by (simp_all add: transcript_def)

definition stops :: "exchange \<Rightarrow> bool" where
  "stops x = (case snd x of None \<Rightarrow> False | Some reply \<Rightarrow> stop_connection reply)"

text \<open>
  The answers a frame may get: a line that is too long is refused; any other line was processed by
  a sound engine, or expired in the queue, or found the queue full.
\<close>

definition permitted :: "'f json_codec \<Rightarrow> ('s, 'f) embed_engine \<Rightarrow> ('s \<Rightarrow> bool) \<Rightarrow> exchange \<Rightarrow> bool" where
  "permitted codec E ok x =
     (case fst x of
        TooLong \<Rightarrow>
          snd x = Some \<lparr>reply_line = render codec (oversize_response limits_default), stop_connection = False\<rparr>
      | Frame line \<Rightarrow>
          answer_of codec E ok line (Inr (snd x))
          \<or> (\<exists>reply. failure_reply codec line ''BrokerQueueFull'' ''broker queue is full'' = Inr reply \<and> snd x = Some reply))"

text \<open>The frame a connection has read and not answered yet.\<close>

definition in_flight :: "'w connection \<Rightarrow> frame list" where
  "in_flight c = (case c_phase c of Waiting \<Rightarrow> [Frame (c_line c)] | Mailed _ \<Rightarrow> [Frame (c_line c)] | _ \<Rightarrow> [])"

definition unread :: "'w connection \<Rightarrow> frame list" where
  "unread c = frames MAX_REQUEST_BYTES (stream (c_reader c))"

text \<open>
  The exchanges \<open>xs\<close> account for connection \<open>c\<close>, which was opened on the bytes \<open>input\<close> with \<open>out\<close>
  written: they explain what it has written, and with the frame in flight and the unread ones
  they are all the frames of its input. Only the last exchange can stop the connection, and a
  connection that is closed was stopped or has answered everything.
\<close>

definition accounts ::
  "'f json_codec \<Rightarrow> ('s, 'f) embed_engine \<Rightarrow> ('s \<Rightarrow> bool) \<Rightarrow> bytes \<Rightarrow> bytes \<Rightarrow> bytes connection \<Rightarrow> exchange list \<Rightarrow> bool"
where
  "accounts codec E ok input out c xs \<longleftrightarrow>
     c_writer c = out @ transcript xs
     \<and> frames MAX_REQUEST_BYTES input = map fst xs @ in_flight c @ unread c
     \<and> list_all (permitted codec E ok) xs
     \<and> list_all (\<lambda>x. \<not> stops x) (butlast xs)
     \<and> clean_reader (c_reader c)
     \<and> (case c_phase c of
          Closed r \<Rightarrow> r = Inr () \<and> (unread c = [] \<or> xs \<noteq> [] \<and> stops (last xs))
        | Mailed r \<Rightarrow> list_all (\<lambda>x. \<not> stops x) xs \<and> (\<exists>a. r = Inr a \<and> permitted codec E ok (Frame (c_line c), a))
        | _ \<Rightarrow> list_all (\<lambda>x. \<not> stops x) xs)"

lemma no_stops_butlast: "list_all P xs \<Longrightarrow> list_all P (butlast xs)"
  by (simp add: list_all_iff in_set_butlastD)

lemma accounts_new:
  "clean_reader rd \<Longrightarrow> accounts codec E ok (stream rd) out (connection_new rd out) []"
  by (simp add: accounts_def connection_new_def in_flight_def unread_def)

section \<open>What a connection does to its account\<close>

lemma send_reply_vec:
  "send_reply vec_writer reply nxt c = c\<lparr>c_writer := c_writer c @ reply_line reply @ [newline], c_phase := nxt\<rparr>"
  by (simp add: send_reply_def write_reply_def vec_writer_def)

lemma failure_reply_total:
  assumes "codec_total codec"
  obtains reply where "failure_reply codec line k m = Inr reply" and "\<not> stop_connection reply"
  using assms by (auto simp: failure_reply_def internal_error_reply_def serialize_total)

lemma answer_total:
  assumes "codec_total codec" and "answer_of codec E ok line reply"
  shows "\<exists>a. reply = Inr a"
proof -
  obtain r where "failure_reply codec line ''BrokerRequestExpired'' ''broker request expired'' = Inr r"
    using failure_reply_total [OF assms(1)] by blast
  moreover have "\<exists>a. snd (process_line codec E limits_default line s) = Inr a" for s
    using assms(1) by (auto simp: process_line_def serialize_total split: prod.split option.split)
  ultimately show ?thesis using assms(2) by (auto simp: answer_of_def expired_answer_def)
qed

lemma accounts_mailed:
  assumes "accounts codec E ok input out c xs" and "codec_total codec" and "c_phase c = Waiting"
    and "answer_of codec E ok (c_line c) reply"
  shows "accounts codec E ok input out (c\<lparr>c_phase := Mailed reply\<rparr>) xs"
  using assms answer_total [OF assms(2,4)]
  by (auto simp: accounts_def in_flight_def unread_def permitted_def)

text \<open>A reply is written: one more exchange, and the connection reads on or stops.\<close>

lemma accounts_sent:
  assumes "accounts codec E ok input out c xs" and "c_phase c = Mailed (Inr (Some reply))"
  shows "accounts codec E ok input out
    (send_reply vec_writer reply (if stop_connection reply then Closed (Inr ()) else Reading) c)
    (xs @ [(Frame (c_line c), Some reply)])"
  using assms by (auto simp: accounts_def in_flight_def unread_def send_reply_vec stops_def)

lemma turn_accounts:
  assumes acc: "accounts codec E ok input out c xs" and total: "codec_total codec"
    and t: "handle_connection_turn codec vec_writer now i c q = (c', q')"
  shows "\<exists>xs'. accounts codec E ok input out c' xs'"
proof (cases "c_phase c")
  case Reading
  obtain rd line res where rr: "read_request codec limits_default (c_reader c) (c_line c) = (rd, line, res)"
    using prod_cases3 by blast
  let ?c1 = "c\<lparr>c_reader := rd, c_line := line\<rparr>"
  have m: "max_request_bytes limits_default = MAX_REQUEST_BYTES" by (simp add: limits_default_def)
  have "clean_reader (c_reader c)" using acc by (simp add: accounts_def)
  note spec = read_request_spec [OF total this rr, unfolded m]
  show ?thesis
  proof (cases "unread c")
    case Nil
    with spec have "res = Inr FramedEof" by (simp add: unread_def)
    with t Reading rr have "c' = ?c1\<lparr>c_phase := Closed (Inr ())\<rparr>" by (simp add: handle_connection_turn_def)
    with acc Reading Nil spec have "accounts codec E ok input out c' xs"
      by (simp add: accounts_def in_flight_def unread_def)
    then show ?thesis by blast
  next
    case (Cons f fs)
    show ?thesis
    proof (cases f)
      case TooLong
      let ?reply = "\<lparr>reply_line = render codec (oversize_response limits_default), stop_connection = False\<rparr>"
      from spec Cons TooLong have "res = Inr (FramedRejected ?reply)" by (simp add: unread_def)
      with t Reading rr have "c' = send_reply vec_writer ?reply Reading ?c1" by (simp add: handle_connection_turn_def)
      with acc Reading Cons TooLong spec have "accounts codec E ok input out c' (xs @ [(TooLong, Some ?reply)])"
        by (simp add: accounts_def in_flight_def unread_def send_reply_vec permitted_def stops_def)
      then show ?thesis by blast
    next
      case (Frame l)
      with spec Cons have res: "res = Inr FramedLine" "line = l" by (simp_all add: unread_def)
      obtain q1 er where te: "try_enqueue (request_class_of codec line) \<lparr>req_line = line, req_reply = i\<rparr>
        (now + QUEUE_DEADLINE) q = (q1, er)"
        by (cases "try_enqueue (request_class_of codec line) \<lparr>req_line = line, req_reply = i\<rparr> (now + QUEUE_DEADLINE) q")
      show ?thesis
      proof (cases er)
        case (Inr u)
        with t Reading rr res te have "c' = ?c1\<lparr>c_phase := Waiting\<rparr>" by (simp add: handle_connection_turn_def)
        with acc Reading Cons Frame spec res have "accounts codec E ok input out c' xs"
          by (simp add: accounts_def in_flight_def unread_def)
        then show ?thesis by blast
      next
        case (Inl e)
        obtain reply where f: "failure_reply codec line ''BrokerQueueFull'' ''broker queue is full'' = Inr reply"
          "\<not> stop_connection reply" using failure_reply_total [OF total] .
        with t Reading rr res te Inl have "c' = send_reply vec_writer reply Reading ?c1"
          by (cases e) (simp add: handle_connection_turn_def)
        with acc Reading Cons Frame spec res f have "accounts codec E ok input out c' (xs @ [(Frame l, Some reply)])"
          by (simp add: accounts_def in_flight_def unread_def send_reply_vec permitted_def stops_def)
        then show ?thesis by blast
      qed
    qed
  qed
next
  case (Mailed r)
  with acc obtain a where a: "r = Inr a" "permitted codec E ok (Frame (c_line c), a)" by (auto simp: accounts_def)
  show ?thesis
  proof (cases a)
    case None
    with t Mailed a have "c' = c\<lparr>c_phase := Reading\<rparr>" by (simp add: handle_connection_turn_def)
    with acc Mailed a None have "accounts codec E ok input out c' (xs @ [(Frame (c_line c), None)])"
      by (simp add: accounts_def in_flight_def unread_def stops_def)
    then show ?thesis by blast
  next
    case (Some reply)
    with t Mailed a show ?thesis
      using accounts_sent [OF acc, of reply] by (auto simp: handle_connection_turn_def)
  qed
qed (use acc t in \<open>auto simp: handle_connection_turn_def\<close>)

section \<open>What the scheduler does to it\<close>

lemma mail_other: "i \<noteq> j \<Longrightarrow> bk_conns (mail j reply b) i = bk_conns b i"
  by (simp add: mail_def split: option.split)

lemma move_spares_idle:
  assumes "broker_ok ok b" and "\<not> is_waiting (bk_conns b i)"
  shows "bk_conns (scheduler_move codec E b) i = bk_conns b i"
proof -
  have m: "matched (in_system b) (bk_conns b)" using assms(1) by (simp add: broker_ok_def)
  have other: "req_reply r \<noteq> i" if "r \<in># in_system b" for r
  proof
    assume "req_reply r = i"
    with that have "count (image_mset req_reply (in_system b)) i \<noteq> 0" by (auto simp: not_in_iff [symmetric])
    with m assms(2) show False by (simp add: matched_def)
  qed
  show ?thesis
  proof (cases "bk_serving b")
    case (Some r)
    then have "req_reply r \<noteq> i" using other by (simp add: in_system_def)
    with Some show ?thesis
      by (simp add: scheduler_move_def scheduler_finish_def active_request_drop_def mail_other split: prod.split)
  next
    case None
    obtain q res where d: "dequeue (bk_now b) (bk_queue b) = (q, res)" by (cases "dequeue (bk_now b) (bk_queue b)")
    have "req_reply r \<noteq> i" if "res = Some (DeqExpired r)" for r
      using dequeue_items [OF d] that other [of r] None by (simp add: in_system_def)
    with None d show ?thesis
      by (auto simp: scheduler_move_def scheduler_take_def watchdog_arm_def mail_other split: option.split dequeued.split)
  qed
qed

context honest_engine
begin

lemma do_accounts:
  assumes "broker_ok ok b" and "bk_conns b i = Some c" and acc: "accounts codec E ok input out c xs" and "codec_total codec"
  shows "\<exists>c' xs'. bk_conns (broker_do codec E vec_writer ev b) i = Some c' \<and> accounts codec E ok input out c' xs'"
proof (cases ev)
  case (Turn j)
  show ?thesis
  proof (cases "j = i")
    case True
    obtain c' q' where t: "handle_connection_turn codec vec_writer (bk_now b) i c (bk_queue b) = (c', q')"
      by (cases "handle_connection_turn codec vec_writer (bk_now b) i c (bk_queue b)")
    with turn_accounts [OF acc assms(4) t] Turn True assms(2) show ?thesis by (simp add: connection_move_def)
  next
    case False
    with Turn assms(2) acc show ?thesis by (auto simp: connection_move_def split: option.split prod.split)
  qed
next
  case Move
  show ?thesis
  proof (cases "c_phase c = Waiting")
    case True
    obtain n where "owes b i n" using owes_ex [OF assms(1), of i] True assms(2) by (auto simp: is_waiting_def)
    from move_shortens [OF assms(1,2) this, of codec] Move acc accounts_mailed [OF acc assms(4) True]
    show ?thesis by auto
  next
    case False
    then have "\<not> is_waiting (bk_conns b i)" using assms(2) by (simp add: is_waiting_def)
    from move_spares_idle [OF assms(1) this, of codec E] Move assms(2) acc show ?thesis by auto
  qed
qed (use assms in auto)

lemma run_accounts:
  assumes "broker_ok ok b" and "bk_conns b i = Some c" and "accounts codec E ok input out c xs" and "codec_total codec"
  shows "\<exists>c' xs'. bk_conns (run_schedule codec E vec_writer evs b) i = Some c' \<and> accounts codec E ok input out c' xs'"
  using assms(1-3)
proof (induction evs arbitrary: b c xs)
  case (Cons ev evs)
  obtain c' xs' where "bk_conns (broker_do codec E vec_writer ev b) i = Some c'" "accounts codec E ok input out c' xs'"
    using do_accounts [OF Cons.prems assms(4)] by blast
  with Cons.IH [OF do_ok [OF Cons.prems(1)]] show ?case by simp
qed auto

end

section \<open>Every conversation is in order\<close>

text \<open>
  C2 (refinement). To each client the shared broker is a server of its own, but for a notice of overload
  in place of an answer. Open a connection in
  any reachable state and let any schedule follow: other clients, the scheduler, the clock. At
  that moment the frames of the client's input are those answered so far, then the one in
  flight, then those not read yet; what it was sent is exactly the answers, in the order of the
  frames, one line each and none for a blank line; each answer is a permitted one for its own
  frame; nothing follows an answer that stops the connection; and a connection is closed only
  without an error, after such an answer or with every frame answered. The hypotheses: \<open>serde_json\<close>
  can print a response, and neither side of the connection fails.
\<close>

theorem broker_conversation:
  assumes "load_with (loaded_ops M F) (model_loader lwp) lease l = (l1, Inr e)"
    and "broker_reach codec (broker_ops (loaded_ops M F) (model_loader lwp)) vec_writer (broker_start e) b"
    and "bk_conns b i = None" and "codec_total codec" and "clean_reader rd"
  shows "\<exists>c xs.
    bk_conns (run_schedule codec (broker_ops (loaded_ops M F) (model_loader lwp)) vec_writer (Accept i rd [] # evs) b) i = Some c
    \<and> frames MAX_REQUEST_BYTES (stream rd) = map fst xs @ in_flight c @ unread c
    \<and> c_writer c = transcript xs
    \<and> list_all (permitted codec (broker_ops (loaded_ops M F) (model_loader lwp))
        (broker_inv (loaded_ops M F) (\<lambda>_. True))) xs
    \<and> list_all (\<lambda>x. \<not> stops x) (butlast xs)
    \<and> (case c_phase c of
         Closed r \<Rightarrow> r = Inr () \<and> (map fst xs = frames MAX_REQUEST_BYTES (stream rd) \<or> xs \<noteq> [] \<and> stops (last xs))
       | _ \<Rightarrow> list_all (\<lambda>x. \<not> stops x) xs)"
proof -
  let ?E = "broker_ops (loaded_ops M F) (model_loader lwp)"
  have "broker_inv (loaded_ops M F) (\<lambda>_. True) e" using loaded.load_with_inv [OF assms(1)] by blast
  then have "broker_ok (broker_inv (loaded_ops M F) (\<lambda>_. True)) b"
    using loaded.broker.reach_ok [OF assms(2)] loaded.broker.broker_start_ok by blast
  then have ok: "broker_ok (broker_inv (loaded_ops M F) (\<lambda>_. True)) (broker_do codec ?E vec_writer (Accept i rd []) b)"
    by (rule loaded.broker.do_ok)
  have "bk_conns (broker_do codec ?E vec_writer (Accept i rd []) b) i = Some (connection_new rd [])"
    using assms(3) by simp
  from loaded.broker.run_accounts [OF ok this accounts_new [OF assms(5)] assms(4), where evs = evs]
  obtain c xs where run: "bk_conns (run_schedule codec ?E vec_writer (Accept i rd [] # evs) b) i = Some c"
    and acc: "accounts codec ?E (broker_inv (loaded_ops M F) (\<lambda>_. True)) (stream rd) [] c xs"
    by (simp only: run_schedule.simps) blast
  show ?thesis
    by (rule exI [of _ c], rule exI [of _ xs])
      (use run acc in \<open>auto simp: accounts_def in_flight_def split: phase.splits\<close>)
qed

lemma sample_at_start: "broker_reach sample_codec sample_ops vec_writer sample_started sample_started"
  by (rule broker_reach.start)

lemma sample_reader_two: "clean_reader \<lparr>pending = ''{}'' @ [newline], script = []\<rparr>"
  by (simp add: clean_reader_def)

text \<open>One client, served: its turn, the dequeue, the processing, the reply, and the end of its input.\<close>

theorem broker_conversation_witness:
  "\<exists>c xs.
    bk_conns (run_schedule sample_codec sample_ops vec_writer
      (Accept 0 \<lparr>pending = ''{}'' @ [newline], script = []\<rparr> [] # [Turn 0, Move, Move, Turn 0, Turn 0]) sample_started) 0 = Some c
    \<and> frames MAX_REQUEST_BYTES (''{}'' @ [newline]) = map fst xs @ in_flight c @ unread c
    \<and> c_writer c = transcript xs"
  using broker_conversation [OF sample_load sample_at_start [unfolded sample_started_def], of 0
      "\<lparr>pending = ''{}'' @ [newline], script = []\<rparr>" "[Turn 0, Move, Move, Turn 0, Turn 0]"]
    sample_codec_total sample_reader_two
  by (fastforce simp: sample_started_def broker_start_def stream_def simp del: run_schedule.simps)

end
