(* ===== verification/Prepare.thy ===== *)
theory Prepare
  imports Manifest Json
begin

text \<open>
  \<open>src/src/prepare.rs\<close>: acquiring a model into the shared cache, and cleaning up after a killed
  acquisition. The cache directory is a map from file names to contents. What the operating
  system, the network and the crates \<open>ureq\<close>, \<open>tempfile\<close>, \<open>fs4\<close> and \<open>sha2\<close> answer is the record
  \<open>prep_os\<close>. The state keeps, beside the directory and the events written, every directory the run
  passed through, so that a property can speak of a crash at any moment.
\<close>

section \<open>Names\<close>

definition PARTIAL_PREFIX :: string where
  "PARTIAL_PREFIX = ''.julie-prepare-''"

definition PARTIAL_SUFFIX :: string where
  "PARTIAL_SUFFIX = ''.partial''"

definition partial_prefix :: "string \<Rightarrow> string" where
  "partial_prefix model_id = PARTIAL_PREFIX @ model_id @ ''.''"

text \<open>\<open>str::rsplit_once\<close> on a character.\<close>

definition rsplit_once :: "string \<Rightarrow> char \<Rightarrow> (string \<times> string) option" where
  "rsplit_once s c =
     (if c \<in> set s
      then Some (rev (tl (dropWhile (\<lambda>x. x \<noteq> c) (rev s))), rev (takeWhile (\<lambda>x. x \<noteq> c) (rev s)))
      else None)"

definition model_of_partial :: "string \<Rightarrow> string option" where
  "model_of_partial name =
     (case strip_prefix name PARTIAL_PREFIX of
        None \<Rightarrow> None
      | Some rest \<Rightarrow>
          (case strip_suffix rest PARTIAL_SUFFIX of
             None \<Rightarrow> None
           | Some inner \<Rightarrow>
               (case rsplit_once inner (CHR ''.'') of
                  None \<Rightarrow> None
                | Some (model_id, random) \<Rightarrow>
                    if model_id \<noteq> [] \<and> random \<noteq> [] then Some model_id else None)))"

definition COPY_CHUNK_BYTES :: nat where
  "COPY_CHUNK_BYTES = 64 * 1024"

definition UNKNOWN_MODEL_EXIT :: nat where
  "UNKNOWN_MODEL_EXIT = 2"

section \<open>Requests and events\<close>

record prepare_request =
  pr_model_id :: string
  pr_file_name :: string
  pr_source_url :: string
  pr_sha256 :: string
  pr_size_bytes :: nat

definition from_pin :: "model_pin \<Rightarrow> prepare_request" where
  "from_pin pin =
     \<lparr>pr_model_id = pin_id pin, pr_file_name = pin_file pin, pr_source_url = pin_url pin,
      pr_sha256 = pin_sha256 pin, pr_size_bytes = pin_size_bytes pin\<rparr>"

record prepared =
  prep_path :: path
  already_cached :: bool

type_synonym directory = "string \<rightharpoonup> bytes"

record prep_state =
  ps_dir :: directory
  ps_trace :: "directory list"
  ps_events :: "json list"

definition set_dir :: "directory \<Rightarrow> prep_state \<Rightarrow> prep_state" where
  "set_dir d st = st\<lparr>ps_dir := d, ps_trace := ps_trace st @ [d]\<rparr>"

text \<open>Write errors on the event sink are ignored by the source.\<close>

definition emit :: "json \<Rightarrow> prep_state \<Rightarrow> prep_state" where
  "emit v st = st\<lparr>ps_events := ps_events st @ [v]\<rparr>"

definition emit_progress :: "string \<Rightarrow> nat \<Rightarrow> nat \<Rightarrow> prep_state \<Rightarrow> prep_state" where
  "emit_progress model_id received total_bytes st =
     emit (json_obj [(''event'', JString ''progress''), (''model_id'', JString model_id),
                     (''received_bytes'', json_nat received), (''total_bytes'', json_nat total_bytes)]) st"

definition emit_done :: "string \<Rightarrow> path \<Rightarrow> string \<Rightarrow> prep_state \<Rightarrow> prep_state" where
  "emit_done model_id p sha st =
     emit (json_obj [(''event'', JString ''done''), (''model_id'', JString model_id),
                     (''path'', JString (path_display p)), (''sha256'', JString sha)]) st"

definition emit_error :: "string \<Rightarrow> string \<Rightarrow> path option \<Rightarrow> string option \<Rightarrow> prep_state \<Rightarrow> prep_state" where
  "emit_error model_id message expected_path source_url st =
     emit (json_obj [(''event'', JString ''error''), (''model_id'', JString model_id),
                     (''message'', JString message),
                     (''expected_path'', json_opt_str (map_option path_display expected_path)),
                     (''source_url'', json_opt_str source_url)]) st"

definition report :: "prepare_request \<Rightarrow> path \<Rightarrow> string \<Rightarrow> prep_state \<Rightarrow> prep_state \<times> string" where
  "report request final_path message st =
     (emit_error (pr_model_id request) message (Some final_path) (Some (pr_source_url request)) st, message)"

section \<open>The download\<close>

definition DOWNLOAD_CONNECT_TIMEOUT :: duration where
  "DOWNLOAD_CONNECT_TIMEOUT = from_secs 30"

definition DOWNLOAD_RESPONSE_TIMEOUT :: duration where
  "DOWNLOAD_RESPONSE_TIMEOUT = from_secs 300"

definition DOWNLOAD_TOTAL_SECS :: nat where
  "DOWNLOAD_TOTAL_SECS = 2700"

definition DOWNLOAD_MIN_BYTES_PER_SECOND :: nat where
  "DOWNLOAD_MIN_BYTES_PER_SECOND = 64 * 1024"

definition div_ceil :: "nat \<Rightarrow> nat \<Rightarrow> nat" where
  "div_ceil a b = (a + b - 1) div b"

definition download_total_timeout :: "nat \<Rightarrow> duration" where
  "download_total_timeout size_bytes =
     from_secs (max (div_ceil size_bytes DOWNLOAD_MIN_BYTES_PER_SECOND) DOWNLOAD_TOTAL_SECS)"

record download_timeouts =
  dt_connect :: duration
  dt_response :: duration
  dt_total :: duration

text \<open>A successful read of the body, at most \<open>COPY_CHUNK_BYTES\<close> long and empty at its end, or an error.\<close>

datatype body_event = Chunk bytes | BodyErr string

text \<open>
  The answers of the environment. \<open>os_fetch\<close> gives the offered content length and the body;
  \<open>os_write\<close> and \<open>os_elapsed\<close> are indexed by the number of the chunk.
\<close>

record prep_os =
  os_sha256 :: "bytes \<Rightarrow> bytes"
  os_create_dir :: "string option"
  os_open_lock :: "string option"
  os_try_lock :: bool
  os_lock :: "string option"
  os_read_cached :: "string option"
  os_remove_stale :: "string option"
  os_available_space :: "(string, nat) result"
  os_fetch :: "download_timeouts \<Rightarrow> string \<Rightarrow> (string, nat option \<times> body_event list) result"
  os_temp_name :: "(string, string) result"
  os_write :: "nat \<Rightarrow> string option"
  os_elapsed :: "nat \<Rightarrow> bool"
  os_flush :: "string option"
  os_persist :: "string option"

definition file_digest :: "prep_os \<Rightarrow> bytes \<Rightarrow> (string, string) result" where
  "file_digest os content =
     (case os_read_cached os of Some e \<Rightarrow> Inl e | None \<Rightarrow> Inr (hex (os_sha256 os content)))"

definition digest_matches :: "prep_os \<Rightarrow> string \<Rightarrow> bytes \<Rightarrow> bool" where
  "digest_matches os expected content \<longleftrightarrow> eq_ignore_ascii_case (hex (os_sha256 os content)) expected"

text \<open>The copy loop: the bytes received so far are the content of the partial file \<open>tmp\<close>.\<close>

fun download_loop ::
  "prep_os \<Rightarrow> prepare_request \<Rightarrow> string \<Rightarrow> nat \<Rightarrow> bytes \<Rightarrow> body_event list \<Rightarrow> prep_state
     \<Rightarrow> prep_state \<times> (string, bytes) result" where
  "download_loop os request tmp n received [] st = (st, Inr received)"
| "download_loop os request tmp n received (BodyErr e # evs) st =
     (st, Inl (''cannot read '' @ pr_source_url request @ '': '' @ e @ ''; retry prepare''))"
| "download_loop os request tmp n received (Chunk bs # evs) st =
     (if bs = [] then (st, Inr received)
      else if pr_size_bytes request < length received + length bs then
        (st, Inl (''oversized response for '' @ pr_model_id request @ '': '' @ pr_source_url request
               @ '' sent more than the pinned '' @ show_nat (pr_size_bytes request) @ '' bytes''))
      else
        (case os_write os n of
           Some e \<Rightarrow> (st, Inl (''cannot write the partial download: '' @ e))
         | None \<Rightarrow>
             (let st1 = set_dir ((ps_dir st)(tmp \<mapsto> received @ bs)) st;
                  st2 = (if os_elapsed os n
                         then emit_progress (pr_model_id request) (length received + length bs) (pr_size_bytes request) st1
                         else st1)
              in download_loop os request tmp (Suc n) (received @ bs) evs st2)))"

text \<open>After the temporary file was made: copy, flush, verify, rename. The caller drops the file on an error.\<close>

definition download_into ::
  "prep_os \<Rightarrow> prepare_request \<Rightarrow> path \<Rightarrow> string \<Rightarrow> body_event list \<Rightarrow> prep_state
     \<Rightarrow> prep_state \<times> (string, unit) result" where
  "download_into os request final_path tmp body st =
     (case download_loop os request tmp 0 [] body
             (emit_progress (pr_model_id request) 0 (pr_size_bytes request) st) of
        (st1, Inl e) \<Rightarrow> (st1, Inl e)
      | (st1, Inr content) \<Rightarrow>
          (case os_flush os of
             Some e \<Rightarrow> (st1, Inl (''cannot flush the partial download: '' @ e))
           | None \<Rightarrow>
               (let st2 = emit_progress (pr_model_id request) (length content) (pr_size_bytes request) st1
                in if \<not> digest_matches os (pr_sha256 request) content then
                     (st2, Inl (''sha256 mismatch for '' @ pr_model_id request @ '': expected '' @ pr_sha256 request
                             @ '', downloaded '' @ hex (os_sha256 os content)))
                   else
                     (case os_persist os of
                        Some e \<Rightarrow> (st2, Inl (''cannot place '' @ path_display final_path @ '': '' @ e))
                      | None \<Rightarrow>
                          (set_dir ((ps_dir st2)(tmp := None, pr_file_name request \<mapsto> content)) st2, Inr ())))))"

definition size_mismatch :: "prepare_request \<Rightarrow> nat option \<Rightarrow> bool" where
  "size_mismatch request offered = (case offered of Some n \<Rightarrow> n \<noteq> pr_size_bytes request | None \<Rightarrow> False)"

definition download_verified ::
  "prep_os \<Rightarrow> prepare_request \<Rightarrow> path \<Rightarrow> path \<Rightarrow> download_timeouts \<Rightarrow> prep_state
     \<Rightarrow> prep_state \<times> (string, unit) result" where
  "download_verified os request final_path cache_dir timeouts st =
     (case os_fetch os timeouts (pr_source_url request) of
        Inl e \<Rightarrow> (st, Inl (''cannot fetch '' @ pr_source_url request @ '': '' @ e @ ''; retry prepare''))
      | Inr (offered, body) \<Rightarrow>
          if size_mismatch request offered then
            (st, Inl (''declared size mismatch for '' @ pr_model_id request @ '': the pin declares ''
                   @ show_nat (pr_size_bytes request) @ '' bytes, '' @ pr_source_url request @ '' offers ''
                   @ show_nat (the offered)))
          else
            (case os_temp_name os of
               Inl e \<Rightarrow> (st, Inl (''cannot create a partial file in '' @ path_display cache_dir @ '': '' @ e))
             | Inr random \<Rightarrow>
                 (let tmp = partial_prefix (pr_model_id request) @ random @ PARTIAL_SUFFIX
                  in case download_into os request final_path tmp body (set_dir ((ps_dir st)(tmp \<mapsto> [])) st) of
                       (st1, Inl e) \<Rightarrow> (set_dir ((ps_dir st1)(tmp := None)) st1, Inl e)
                     | (st1, Inr _) \<Rightarrow> (st1, Inr ()))))"

definition preflight_disk :: "prep_os \<Rightarrow> path \<Rightarrow> nat \<Rightarrow> (string, unit) result" where
  "preflight_disk os cache_dir size_bytes =
     (case os_available_space os of
        Inl e \<Rightarrow> Inl (''cannot measure free space in '' @ path_display cache_dir @ '': '' @ e)
      | Inr available \<Rightarrow>
          if available < size_bytes then
            Inl (''insufficient disk space in '' @ path_display cache_dir @ '': need '' @ show_nat size_bytes
              @ '' bytes, '' @ show_nat available @ '' available'')
          else Inr ())"

text \<open>The part of \<open>acquire_locked\<close> after the cache was found not to hold the model.\<close>

definition acquire_fresh ::
  "prep_os \<Rightarrow> prepare_request \<Rightarrow> path \<Rightarrow> path \<Rightarrow> download_timeouts \<Rightarrow> prep_state
     \<Rightarrow> prep_state \<times> (string, prepared) result" where
  "acquire_fresh os request final_path cache_dir timeouts st =
     (case preflight_disk os cache_dir (pr_size_bytes request) of
        Inl e \<Rightarrow> (st, Inl e)
      | Inr _ \<Rightarrow>
          (case download_verified os request final_path cache_dir timeouts st of
             (st1, Inl e) \<Rightarrow> (st1, Inl e)
           | (st1, Inr _) \<Rightarrow>
               (emit_done (pr_model_id request) final_path (pr_sha256 request) st1,
                Inr \<lparr>prep_path = final_path, already_cached = False\<rparr>)))"

definition acquire_locked ::
  "prep_os \<Rightarrow> prepare_request \<Rightarrow> path \<Rightarrow> path \<Rightarrow> download_timeouts \<Rightarrow> prep_state
     \<Rightarrow> prep_state \<times> (string, prepared) result" where
  "acquire_locked os request final_path cache_dir timeouts st =
     (case ps_dir st (pr_file_name request) of
        None \<Rightarrow> acquire_fresh os request final_path cache_dir timeouts st
      | Some content \<Rightarrow>
          (case file_digest os content of
             Inl e \<Rightarrow> (st, Inl (''cannot read cached '' @ path_display final_path @ '': '' @ e))
           | Inr digest \<Rightarrow>
               if eq_ignore_ascii_case digest (pr_sha256 request) then
                 (emit_done (pr_model_id request) final_path (pr_sha256 request) st,
                  Inr \<lparr>prep_path = final_path, already_cached = True\<rparr>)
               else
                 (case os_remove_stale os of
                    Some e \<Rightarrow> (st, Inl (''cannot remove stale '' @ path_display final_path @ '': '' @ e))
                  | None \<Rightarrow>
                      acquire_fresh os request final_path cache_dir timeouts
                        (set_dir ((ps_dir st)(pr_file_name request := None)) st))))"

definition hold_cache_lock ::
  "prep_os \<Rightarrow> prepare_request \<Rightarrow> path \<Rightarrow> prep_state \<Rightarrow> prep_state \<times> (string, unit) result" where
  "hold_cache_lock os request cache_dir st =
     (let lock_name = pr_model_id request @ ''.lock'';
          lock_path = path_join cache_dir lock_name
      in case os_open_lock os of
           Some e \<Rightarrow> (st, Inl (''cannot open the cache lock '' @ path_display lock_path @ '': '' @ e))
         | None \<Rightarrow>
             (let st1 = (case ps_dir st lock_name of
                           None \<Rightarrow> set_dir ((ps_dir st)(lock_name \<mapsto> [])) st | Some _ \<Rightarrow> st)
              in if os_try_lock os then (st1, Inr ())
                 else
                   (let st2 = emit (json_obj [(''event'', JString ''waiting''), (''model_id'', JString (pr_model_id request))]) st1
                    in case os_lock os of
                         Some e \<Rightarrow> (st2, Inl (''cannot take the cache lock '' @ path_display lock_path @ '': '' @ e))
                       | None \<Rightarrow> (st2, Inr ()))))"

definition acquire_with_timeouts ::
  "prep_os \<Rightarrow> prepare_request \<Rightarrow> path \<Rightarrow> download_timeouts \<Rightarrow> prep_state \<Rightarrow> prep_state \<times> (string, prepared) result" where
  "acquire_with_timeouts os request cache_dir timeouts st =
     (let final_path = path_join cache_dir (pr_file_name request)
      in case os_create_dir os of
           Some e \<Rightarrow>
             (case report request final_path (''cannot create cache directory '' @ path_display cache_dir @ '': '' @ e) st of
                (st1, err) \<Rightarrow> (st1, Inl err))
         | None \<Rightarrow>
             (case hold_cache_lock os request cache_dir st of
                (st1, Inl message) \<Rightarrow> (case report request final_path message st1 of (st2, err) \<Rightarrow> (st2, Inl err))
              | (st1, Inr _) \<Rightarrow>
                  (case acquire_locked os request final_path cache_dir timeouts st1 of
                     (st2, Inr p) \<Rightarrow> (st2, Inr p)
                   | (st2, Inl message) \<Rightarrow> (case report request final_path message st2 of (st3, err) \<Rightarrow> (st3, Inl err)))))"

definition acquire ::
  "prep_os \<Rightarrow> prepare_request \<Rightarrow> path \<Rightarrow> prep_state \<Rightarrow> prep_state \<times> (string, prepared) result" where
  "acquire os request cache_dir st =
     acquire_with_timeouts os request cache_dir
       \<lparr>dt_connect = DOWNLOAD_CONNECT_TIMEOUT, dt_response = DOWNLOAD_RESPONSE_TIMEOUT,
        dt_total = download_total_timeout (pr_size_bytes request)\<rparr> st"

section \<open>The subcommand\<close>

definition resolve :: "string option \<Rightarrow> (string, model_pin) result" where
  "resolve model_id =
     (case model_id of
        None \<Rightarrow> (case default_model of Some pin \<Rightarrow> Inr pin | None \<Rightarrow> Inl ''panic: manifest carries a default-tier pin'')
      | Some i \<Rightarrow>
          (case by_id i of
             Some pin \<Rightarrow> Inr pin
           | None \<Rightarrow> Inl (''unknown model id '' @ squote @ i @ squote @ ''; known ids: '' @ join_str '', '' (map pin_id manifest))))"

text \<open>\<open>cache_dir\<close> on Unix, from the variable and the home directory.\<close>

definition cache_dir :: "string option \<Rightarrow> path option \<Rightarrow> (string, path) result" where
  "cache_dir configured home =
     (if (case configured of Some p \<Rightarrow> p \<noteq> [] | None \<Rightarrow> False) then Inr (path_of (the configured))
      else
        (case home of
           Some h \<Rightarrow> Inr (path_join (path_join h ''.cache'') ''julie-semantic'')
         | None \<Rightarrow> Inl ''cannot resolve the home directory; set JULIE_EMBEDDING_CACHE_DIR''))"

definition prepare_run ::
  "prep_os \<Rightarrow> string option \<Rightarrow> path option \<Rightarrow> string option \<Rightarrow> prep_state \<Rightarrow> prep_state \<times> nat" where
  "prepare_run os configured home model_id st =
     (case resolve model_id of
        Inl message \<Rightarrow>
          (emit_error (case model_id of Some i \<Rightarrow> i | None \<Rightarrow> DEFAULT_MODEL_ID) message None None st, UNKNOWN_MODEL_EXIT)
      | Inr pin \<Rightarrow>
          (case cache_dir configured home of
             Inl e \<Rightarrow> (emit_error (pin_id pin) e None (Some (pin_url pin)) st, 1)
           | Inr dir \<Rightarrow>
               (case acquire os (from_pin pin) dir st of
                  (st1, Inr _) \<Rightarrow> (st1, 0)
                | (st1, Inl _) \<Rightarrow> (st1, 1))))"

section \<open>Cleaning up\<close>

datatype remove_result = Removed | RemoveNotFound | RemoveErr string

text \<open>\<open>Path::file_stem\<close> of a file name.\<close>

definition file_stem :: "string \<Rightarrow> string" where
  "file_stem name =
     (case rsplit_once name (CHR ''.'') of
        None \<Rightarrow> name
      | Some (stem, ext) \<Rightarrow> if stem = [] then name else stem)"

datatype dir_listing = DirNotFound | DirErr string | DirEntries "(string, string) result list"

record clean_acc =
  ca_attributed :: "(string \<times> string) list"
  ca_unattributed :: "string list"
  ca_locks :: "string list"

definition classify_entry :: "string \<Rightarrow> clean_acc \<Rightarrow> clean_acc" where
  "classify_entry name acc =
     (if ends_with name ''.lock'' then acc\<lparr>ca_locks := ca_locks acc @ [name]\<rparr>
      else if starts_with name PARTIAL_PREFIX \<and> ends_with name PARTIAL_SUFFIX then
        (case model_of_partial name of
           Some model_id \<Rightarrow> acc\<lparr>ca_attributed := ca_attributed acc @ [(model_id, name)]\<rparr>
         | None \<Rightarrow> acc\<lparr>ca_unattributed := ca_unattributed acc @ [name]\<rparr>)
      else acc)"

fun classify_entries :: "(string, string) result list \<Rightarrow> clean_acc \<Rightarrow> (string, clean_acc) result" where
  "classify_entries [] acc = Inr acc"
| "classify_entries (Inl e # es) acc = Inl e"
| "classify_entries (Inr name # es) acc = classify_entries es (classify_entry name acc)"

text \<open>\<open>remove_partial\<close> for each name in turn, stopping at the first error.\<close>

fun remove_partials ::
  "(string \<Rightarrow> remove_result) \<Rightarrow> string list \<Rightarrow> directory \<Rightarrow> string list \<Rightarrow> directory \<times> (string, string list) result" where
  "remove_partials rm [] d removed = (d, Inr removed)"
| "remove_partials rm (name # names) d removed =
     (case rm name of
        Removed \<Rightarrow> remove_partials rm names (d(name := None)) (removed @ [name])
      | RemoveNotFound \<Rightarrow> remove_partials rm names d removed
      | RemoveErr e \<Rightarrow> (d, Inl e))"

text \<open>
  \<open>listing\<close> is what \<open>read_dir\<close> gives, \<open>hold\<close> whether \<open>try_hold\<close> can take a lock file, \<open>rm\<close> the answer
  of \<open>remove_file\<close>. The names removed are returned sorted.
\<close>

definition clean_stale_partials ::
  "dir_listing \<Rightarrow> (string \<Rightarrow> bool) \<Rightarrow> (string \<Rightarrow> remove_result) \<Rightarrow> directory
     \<Rightarrow> directory \<times> (string, string list) result" where
  "clean_stale_partials listing hold rm d =
     (case listing of
        DirNotFound \<Rightarrow> (d, Inr [])
      | DirErr e \<Rightarrow> (d, Inl e)
      | DirEntries entries \<Rightarrow>
          (case classify_entries entries \<lparr>ca_attributed = [], ca_unattributed = [], ca_locks = []\<rparr> of
             Inl e \<Rightarrow> (d, Inl e)
           | Inr acc \<Rightarrow>
               (let held = filter (\<lambda>l. \<not> hold l) (ca_locks acc);
                    held_models = map file_stem held;
                    stale = map snd (filter (\<lambda>(model_id, name). model_id \<notin> set held_models) (ca_attributed acc))
                in case remove_partials rm stale d [] of
                     (d1, Inl e) \<Rightarrow> (d1, Inl e)
                   | (d1, Inr removed) \<Rightarrow>
                       (if held = [] then
                          (case remove_partials rm (ca_unattributed acc) d1 removed of
                             (d2, Inl e) \<Rightarrow> (d2, Inl e)
                           | (d2, Inr removed2) \<Rightarrow> (d2, Inr (sort removed2)))
                        else (d1, Inr (sort removed))))))"

section \<open>Partial names\<close>

lemma rsplit_once_append: "c \<notin> set b \<Longrightarrow> rsplit_once (a @ c # b) c = Some (a, b)"
  by (simp add: rsplit_once_def dropWhile_append takeWhile_append)

lemma model_of_partial_roundtrip:
  assumes "i \<noteq> []" and "random \<noteq> []" and "CHR ''.'' \<notin> set random"
  shows "model_of_partial (partial_prefix i @ random @ PARTIAL_SUFFIX) = Some i"
proof -
  have "strip_prefix (partial_prefix i @ random @ PARTIAL_SUFFIX) PARTIAL_PREFIX
      = Some ((i @ CHR ''.'' # random) @ PARTIAL_SUFFIX)"
    by (simp add: partial_prefix_def strip_prefix_Some)
  with assms show ?thesis
    unfolding model_of_partial_def by (simp only: option.case strip_suffix_append rsplit_once_append prod.case if_True simp_thms)
qed

section \<open>What the directory holds at every moment\<close>

text \<open>
  A directory a run from \<open>d0\<close> may pass through: under the final name the old file, nothing, or a
  file with the pinned digest; under a partial name an old file or at most the pinned size.
\<close>

definition safe_dir :: "prep_os \<Rightarrow> prepare_request \<Rightarrow> directory \<Rightarrow> directory \<Rightarrow> bool" where
  "safe_dir os request d0 d \<longleftrightarrow>
     (case d (pr_file_name request) of
        None \<Rightarrow> True
      | Some c \<Rightarrow> d0 (pr_file_name request) = Some c \<or> digest_matches os (pr_sha256 request) c)
     \<and> (\<forall>n c. starts_with n PARTIAL_PREFIX \<longrightarrow> d n = Some c \<longrightarrow> d0 n = Some c \<or> length c \<le> pr_size_bytes request)"

definition safe_run :: "prep_os \<Rightarrow> prepare_request \<Rightarrow> directory \<Rightarrow> prep_state \<Rightarrow> bool" where
  "safe_run os request d0 st \<longleftrightarrow> safe_dir os request d0 (ps_dir st) \<and> list_all (safe_dir os request d0) (ps_trace st)"

text \<open>The names an acquisition writes to do not collide.\<close>

definition names_apart :: "prepare_request \<Rightarrow> bool" where
  "names_apart request \<longleftrightarrow>
     \<not> starts_with (pr_file_name request) PARTIAL_PREFIX \<and> pr_file_name request \<noteq> pr_model_id request @ ''.lock''
     \<and> \<not> starts_with (pr_model_id request @ ''.lock'') PARTIAL_PREFIX"

lemma safe_run_set_dir:
  "safe_run os request d0 st \<Longrightarrow> safe_dir os request d0 d \<Longrightarrow> safe_run os request d0 (set_dir d st)"
  by (simp add: safe_run_def set_dir_def)

lemma emit_fields [simp]:
  "ps_dir (emit v st) = ps_dir st" "ps_trace (emit v st) = ps_trace st"
  by (simp_all add: emit_def)

lemmas emit_defs = emit_progress_def emit_done_def emit_error_def report_def

lemma safe_run_emit [simp]: "safe_run os request d0 (emit v st) = safe_run os request d0 st"
  by (simp add: safe_run_def)

lemma ps_dir_set_dir [simp]: "ps_dir (set_dir d st) = d"
  by (simp add: set_dir_def)

lemma partial_name: "starts_with (partial_prefix i @ r) PARTIAL_PREFIX"
  by (simp add: partial_prefix_def)

lemma download_loop_result:
  assumes "download_loop os request tmp n received evs st = (st', res)"
    and "starts_with tmp PARTIAL_PREFIX" and "pr_file_name request \<noteq> tmp"
    and "safe_run os request d0 st" and "length received \<le> pr_size_bytes request"
  shows "safe_run os request d0 st' \<and> (\<forall>m. m \<noteq> tmp \<longrightarrow> ps_dir st' m = ps_dir st m)"
  using assms
proof (induction os request tmp n received evs st arbitrary: st' res rule: download_loop.induct)
  case (3 os request tmp n received bs evs st)
  show ?case
  proof (cases "bs \<noteq> [] \<and> length received + length bs \<le> pr_size_bytes request \<and> os_write os n = None")
    case True
    let ?st1 = "set_dir ((ps_dir st)(tmp \<mapsto> received @ bs)) st"
    let ?st2 = "if os_elapsed os n
      then emit_progress (pr_model_id request) (length received + length bs) (pr_size_bytes request) ?st1 else ?st1"
    have "safe_dir os request d0 ((ps_dir st)(tmp \<mapsto> received @ bs))"
      using "3.prems"(3,4) True by (auto simp: safe_run_def safe_dir_def)
    then have s2: "safe_run os request d0 ?st2"
      using "3.prems"(4) by (simp add: safe_run_set_dir emit_progress_def)
    have run: "download_loop os request tmp (Suc n) (received @ bs) evs ?st2 = (st', res)"
      using "3.prems"(1) True by (simp add: Let_def not_less)
    have "safe_run os request d0 st' \<and> (\<forall>m. m \<noteq> tmp \<longrightarrow> ps_dir st' m = ps_dir ?st2 m)"
      using "3.IH" [OF _ _ _ refl refl run] True "3.prems"(2,3) s2 by simp
    then show ?thesis by (simp add: emit_progress_def)
  next
    case False
    with "3.prems" show ?thesis by (auto split: if_splits option.splits)
  qed
qed auto

text \<open>
  What each stage establishes: every directory it passes through is safe, only the named files
  change, and on success the final name holds a file with the pinned digest.
\<close>

definition stage_ok ::
  "prep_os \<Rightarrow> prepare_request \<Rightarrow> directory \<Rightarrow> string set \<Rightarrow> prep_state \<Rightarrow> prep_state \<times> (string, 'a) result \<Rightarrow> bool" where
  "stage_ok os request d0 N st r \<longleftrightarrow>
     safe_run os request d0 (fst r) \<and> (\<forall>m. m \<notin> N \<longrightarrow> ps_dir (fst r) m = ps_dir st m)
     \<and> (case snd r of
          Inl e \<Rightarrow> True
        | Inr _ \<Rightarrow> \<exists>c. ps_dir (fst r) (pr_file_name request) = Some c \<and> digest_matches os (pr_sha256 request) c)"

lemma download_into_ok:
  assumes "starts_with tmp PARTIAL_PREFIX" and "pr_file_name request \<noteq> tmp" and "names_apart request"
    and "safe_run os request d0 st"
  shows "stage_ok os request d0 {tmp, pr_file_name request} st (download_into os request final_path tmp body st)
    \<and> (\<forall>u. snd (download_into os request final_path tmp body st) = Inr u \<longrightarrow>
         ps_dir (fst (download_into os request final_path tmp body st)) tmp = None)"
proof -
  let ?st0 = "emit_progress (pr_model_id request) 0 (pr_size_bytes request) st"
  obtain st1 res where run: "download_loop os request tmp 0 [] body ?st0 = (st1, res)"
    by (cases "download_loop os request tmp 0 [] body ?st0")
  have s1: "safe_run os request d0 st1" "\<And>m. m \<noteq> tmp \<Longrightarrow> ps_dir st1 m = ps_dir st m"
    using download_loop_result [OF run assms(1,2), of d0] assms(4) by (auto simp: emit_progress_def)
  show ?thesis
  proof (cases "\<exists>content. res = Inr content \<and> os_flush os = None \<and> digest_matches os (pr_sha256 request) content \<and> os_persist os = None")
    case True
    then obtain content where c: "res = Inr content" "os_flush os = None" "digest_matches os (pr_sha256 request) content"
      "os_persist os = None" by blast
    let ?d = "(ps_dir st1)(tmp := None, pr_file_name request \<mapsto> content)"
    have "safe_dir os request d0 ?d"
      using s1(1) c(3) assms(3) by (auto simp: safe_run_def safe_dir_def names_apart_def)
    then show ?thesis
      using s1 c run assms(2)
      by (auto simp: download_into_def Let_def stage_ok_def emit_progress_def safe_run_set_dir)
  next
    case False
    with run s1 show ?thesis
      by (auto simp: download_into_def Let_def stage_ok_def emit_progress_def split: sum.splits option.splits)
  qed
qed

lemma download_verified_ok:
  assumes "names_apart request" and "safe_run os request d0 st"
  shows "stage_ok os request d0 ({n. starts_with n PARTIAL_PREFIX} \<union> {pr_file_name request}) st
      (download_verified os request final_path dir timeouts st)
    \<and> (\<forall>n. starts_with n PARTIAL_PREFIX \<longrightarrow>
         ps_dir (fst (download_verified os request final_path dir timeouts st)) n \<in> {None, ps_dir st n})"
proof -
  consider (fetched) offered body random where "os_fetch os timeouts (pr_source_url request) = Inr (offered, body)"
      "\<not> size_mismatch request offered" "os_temp_name os = Inr random"
    | (failed) "\<exists>e. download_verified os request final_path dir timeouts st = (st, Inl e)"
  proof (cases "os_fetch os timeouts (pr_source_url request)")
    case (Inl e)
    then show ?thesis using that(2) by (simp add: download_verified_def)
  next
    case (Inr ob)
    then show ?thesis
      using that by (cases ob; cases "size_mismatch request (fst ob)"; cases "os_temp_name os") (auto simp: download_verified_def)
  qed
  then show ?thesis
  proof cases
    case failed
    with assms(2) show ?thesis by (auto simp: stage_ok_def)
  next
    case fetched
    let ?tmp = "partial_prefix (pr_model_id request) @ random @ PARTIAL_SUFFIX"
    let ?st0 = "set_dir ((ps_dir st)(?tmp \<mapsto> [])) st"
    have tmp: "starts_with ?tmp PARTIAL_PREFIX" by (simp add: partial_prefix_def)
    with assms(1) have ne: "pr_file_name request \<noteq> ?tmp" by (auto simp: names_apart_def)
    have "safe_dir os request d0 ((ps_dir st)(?tmp \<mapsto> []))"
      using assms(2) ne by (auto simp: safe_run_def safe_dir_def)
    with assms(2) have s0: "safe_run os request d0 ?st0" by (simp add: safe_run_set_dir)
    obtain st1 res where into: "download_into os request final_path ?tmp body ?st0 = (st1, res)"
      by (cases "download_into os request final_path ?tmp body ?st0")
    note ok = download_into_ok [OF tmp ne assms(1) s0, of final_path body, unfolded into fst_conv snd_conv]
    have other: "ps_dir st1 m = ps_dir st m" if "m \<noteq> ?tmp" "m \<noteq> pr_file_name request" for m
      using ok that by (auto simp: stage_ok_def)
    have notfile: "starts_with n PARTIAL_PREFIX \<Longrightarrow> n \<noteq> pr_file_name request" for n
      using assms(1) by (auto simp: names_apart_def)
    show ?thesis
    proof (cases res)
      case (Inl e)
      have "download_verified os request final_path dir timeouts st = (set_dir ((ps_dir st1)(?tmp := None)) st1, Inl e)"
        using fetched into Inl by (simp add: download_verified_def Let_def)
      moreover have "safe_dir os request d0 ((ps_dir st1)(?tmp := None))"
        using ok ne by (auto simp: stage_ok_def safe_run_def safe_dir_def)
      ultimately show ?thesis
        using ok tmp other notfile by (auto simp: stage_ok_def safe_run_set_dir)
    next
      case (Inr u)
      have "download_verified os request final_path dir timeouts st = (st1, Inr ())"
        using fetched into Inr by (simp add: download_verified_def Let_def)
      moreover have "ps_dir st1 n \<in> {None, ps_dir st n}" if "starts_with n PARTIAL_PREFIX" for n
        using ok Inr other [of n] notfile [OF that] by (cases "n = ?tmp") auto
      moreover have "ps_dir st1 m = ps_dir st m" if "m \<noteq> pr_file_name request" "\<not> starts_with m PARTIAL_PREFIX" for m
        using other [of m] that tmp by metis
      ultimately show ?thesis using ok Inr by (simp add: stage_ok_def)
    qed
  qed
qed

lemma stage_ok_weaken: "stage_ok os request d0 N st r \<Longrightarrow> N \<subseteq> N' \<Longrightarrow> stage_ok os request d0 N' st r"
  by (auto simp: stage_ok_def)

text \<open>The names an acquisition may change.\<close>

definition touched :: "prepare_request \<Rightarrow> string set" where
  "touched request =
     {n. starts_with n PARTIAL_PREFIX} \<union> {pr_file_name request, pr_model_id request @ ''.lock''}"

text \<open>No stage leaves a partial file behind that was not there.\<close>

definition partials_kept :: "prep_state \<Rightarrow> prep_state \<Rightarrow> bool" where
  "partials_kept st st' \<longleftrightarrow> (\<forall>n. starts_with n PARTIAL_PREFIX \<longrightarrow> ps_dir st' n \<in> {None, ps_dir st n})"

lemma acquire_fresh_ok:
  assumes "names_apart request" and "safe_run os request d0 st"
  shows "stage_ok os request d0 (touched request) st (acquire_fresh os request final_path dir timeouts st)
    \<and> partials_kept st (fst (acquire_fresh os request final_path dir timeouts st))"
proof -
  obtain st1 res where dv: "download_verified os request final_path dir timeouts st = (st1, res)"
    by (cases "download_verified os request final_path dir timeouts st")
  note ok = download_verified_ok [OF assms, of final_path dir timeouts, unfolded dv fst_conv snd_conv]
  show ?thesis
    using ok dv assms(2)
    by (cases "preflight_disk os dir (pr_size_bytes request)"; cases res)
      (auto simp: acquire_fresh_def stage_ok_def partials_kept_def emit_done_def touched_def)
qed

lemma acquire_locked_ok:
  assumes "names_apart request" and "safe_run os request d0 st"
  shows "stage_ok os request d0 (touched request) st (acquire_locked os request final_path dir timeouts st)
    \<and> partials_kept st (fst (acquire_locked os request final_path dir timeouts st))"
proof (cases "ps_dir st (pr_file_name request)")
  case None
  then show ?thesis using acquire_fresh_ok [OF assms] by (simp add: acquire_locked_def)
next
  case (Some content)
  let ?st1 = "set_dir ((ps_dir st)(pr_file_name request := None)) st"
  have "safe_dir os request d0 ((ps_dir st)(pr_file_name request := None))"
    using assms by (auto simp: safe_run_def safe_dir_def)
  with assms(2) have "safe_run os request d0 ?st1" by (simp add: safe_run_set_dir)
  note fresh = acquire_fresh_ok [OF assms(1) this, of final_path dir timeouts]
  have notfile: "starts_with n PARTIAL_PREFIX \<Longrightarrow> n \<noteq> pr_file_name request" for n
    using assms(1) by (auto simp: names_apart_def)
  have fr: "stage_ok os request d0 (touched request) st (acquire_fresh os request final_path dir timeouts ?st1)
      \<and> partials_kept st (fst (acquire_fresh os request final_path dir timeouts ?st1))"
    using fresh notfile by (fastforce simp: stage_ok_def partials_kept_def touched_def)
  consider (replace) "acquire_locked os request final_path dir timeouts st = acquire_fresh os request final_path dir timeouts ?st1"
    | (cached) "digest_matches os (pr_sha256 request) content"
        "\<exists>r. acquire_locked os request final_path dir timeouts st
          = (emit_done (pr_model_id request) final_path (pr_sha256 request) st, Inr r)"
    | (failed) "\<exists>e. acquire_locked os request final_path dir timeouts st = (st, Inl e)"
    using Some by (cases "os_read_cached os"; cases "digest_matches os (pr_sha256 request) content"; cases "os_remove_stale os")
      (auto simp: acquire_locked_def file_digest_def digest_matches_def)
  then show ?thesis
  proof cases
    case replace
    with fr show ?thesis by simp
  next
    case cached
    with assms(2) Some show ?thesis by (auto simp: stage_ok_def partials_kept_def emit_done_def)
  next
    case failed
    with assms(2) show ?thesis by (auto simp: stage_ok_def partials_kept_def)
  qed
qed

lemma hold_cache_lock_ok:
  assumes "names_apart request" and "safe_run os request d0 st" and "hold_cache_lock os request dir st = (st1, res)"
  shows "safe_run os request d0 st1 \<and> (\<forall>m. m \<noteq> pr_model_id request @ ''.lock'' \<longrightarrow> ps_dir st1 m = ps_dir st m)"
proof -
  let ?d = "(ps_dir st)(pr_model_id request @ ''.lock'' \<mapsto> [])"
  have "safe_dir os request d0 ?d"
    using assms(1,2) by (auto simp: safe_run_def safe_dir_def names_apart_def)
  with assms(2) have "safe_run os request d0 (set_dir ?d st)" by (simp add: safe_run_set_dir)
  with assms(2,3) show ?thesis
    by (auto simp: hold_cache_lock_def Let_def split: option.splits if_splits)
qed

lemma acquire_ok:
  assumes "names_apart request" and "safe_run os request d0 st"
  shows "stage_ok os request d0 (touched request) st (acquire os request dir st)
    \<and> partials_kept st (fst (acquire os request dir st))"
proof -
  let ?fp = "path_join dir (pr_file_name request)"
  let ?t = "\<lparr>dt_connect = DOWNLOAD_CONNECT_TIMEOUT, dt_response = DOWNLOAD_RESPONSE_TIMEOUT,
        dt_total = download_total_timeout (pr_size_bytes request)\<rparr>"
  obtain st1 l where h: "hold_cache_lock os request dir st = (st1, l)" by (cases "hold_cache_lock os request dir st")
  note lock = hold_cache_lock_ok [OF assms h]
  obtain st2 r where a: "acquire_locked os request ?fp dir ?t st1 = (st2, r)"
    by (cases "acquire_locked os request ?fp dir ?t st1")
  note ok = acquire_locked_ok [OF assms(1) conjunct1 [OF lock], of ?fp dir ?t, unfolded a fst_conv snd_conv]
  have notlock: "starts_with n PARTIAL_PREFIX \<Longrightarrow> n \<noteq> pr_model_id request @ ''.lock''" for n
    using assms(1) by (auto simp: names_apart_def)
  show ?thesis
    using ok lock h a assms(2) notlock
    by (cases "os_create_dir os"; cases l; cases r)
      (auto simp: acquire_def acquire_with_timeouts_def stage_ok_def partials_kept_def touched_def emit_defs Let_def)
qed

section \<open>A server that delivers\<close>

text \<open>No call fails, there is room, and the server sends the pinned file in the nonempty chunks \<open>cs\<close>.\<close>

definition serves :: "prep_os \<Rightarrow> prepare_request \<Rightarrow> bytes list \<Rightarrow> bool" where
  "serves os request cs \<longleftrightarrow>
     os_create_dir os = None \<and> os_open_lock os = None \<and> os_lock os = None \<and> os_read_cached os = None
     \<and> os_remove_stale os = None \<and> (\<exists>a. os_available_space os = Inr a \<and> pr_size_bytes request \<le> a)
     \<and> (\<forall>t. os_fetch os t (pr_source_url request) = Inr (Some (pr_size_bytes request), map Chunk cs))
     \<and> (\<exists>r. os_temp_name os = Inr r) \<and> (\<forall>n. os_write os n = None) \<and> os_flush os = None \<and> os_persist os = None
     \<and> [] \<notin> set cs \<and> length (concat cs) = pr_size_bytes request
     \<and> digest_matches os (pr_sha256 request) (concat cs)"

lemma download_loop_serves:
  assumes "\<forall>n. os_write os n = None" and "[] \<notin> set cs"
    and "length received + length (concat cs) \<le> pr_size_bytes request"
  shows "\<exists>st'. download_loop os request tmp n received (map Chunk cs) st = (st', Inr (received @ concat cs))"
  using assms(2,3)
proof (induction cs arbitrary: received n st)
  case (Cons c cs)
  then show ?case
    using assms(1) Cons.IH [of "received @ c"] by (auto simp: Let_def not_less)
qed simp

lemma acquire_fresh_serves:
  assumes "serves os request cs"
  shows "\<exists>st'. acquire_fresh os request fp dir t st = (st', Inr \<lparr>prep_path = fp, already_cached = False\<rparr>)
    \<and> ps_dir st' (pr_file_name request) = Some (concat cs)"
proof -
  from assms obtain r where r: "os_temp_name os = Inr r" by (auto simp: serves_def)
  let ?tmp = "partial_prefix (pr_model_id request) @ r @ PARTIAL_SUFFIX"
  have dl: "\<exists>st'. download_loop os request tmp 0 [] (map Chunk cs) s = (st', Inr (concat cs))" for tmp s
    using download_loop_serves [of os cs "[]" request tmp 0 s] assms by (simp add: serves_def)
  have "\<exists>st'. download_into os request fp tmp (map Chunk cs) s = (st', Inr ())
      \<and> ps_dir st' (pr_file_name request) = Some (concat cs)" for tmp s
  proof -
    obtain st' where "download_loop os request tmp 0 [] (map Chunk cs)
        (emit_progress (pr_model_id request) 0 (pr_size_bytes request) s) = (st', Inr (concat cs))"
      using dl by blast
    then show ?thesis using assms by (simp add: download_into_def serves_def Let_def)
  qed
  then obtain st1 where "download_into os request fp ?tmp (map Chunk cs) (set_dir ((ps_dir st)(?tmp \<mapsto> [])) st) = (st1, Inr ())"
    "ps_dir st1 (pr_file_name request) = Some (concat cs)" by blast
  then show ?thesis
    using assms r
    by (auto simp: acquire_fresh_def preflight_disk_def download_verified_def size_mismatch_def serves_def Let_def emit_done_def)
qed

definition cached_ok :: "prep_os \<Rightarrow> prepare_request \<Rightarrow> directory \<Rightarrow> bool" where
  "cached_ok os request d = (case d (pr_file_name request) of None \<Rightarrow> False | Some c \<Rightarrow> digest_matches os (pr_sha256 request) c)"

lemma hold_cache_lock_serves:
  assumes "serves os request cs" and "names_apart request"
  shows "\<exists>st1. hold_cache_lock os request dir st = (st1, Inr ())
    \<and> ps_dir st1 (pr_file_name request) = ps_dir st (pr_file_name request)"
  using assms
  by (cases "os_try_lock os"; cases "ps_dir st (pr_model_id request @ ''.lock'')")
    (simp_all add: hold_cache_lock_def serves_def names_apart_def Let_def)

lemma acquire_serves:
  assumes "serves os request cs" and "names_apart request"
  shows "\<exists>st'. acquire os request dir st
      = (st', Inr \<lparr>prep_path = path_join dir (pr_file_name request), already_cached = cached_ok os request (ps_dir st)\<rparr>)
    \<and> ps_dir st' (pr_file_name request)
        = (if cached_ok os request (ps_dir st) then ps_dir st (pr_file_name request) else Some (concat cs))"
proof -
  let ?fp = "path_join dir (pr_file_name request)"
  obtain st1 where h: "hold_cache_lock os request dir st = (st1, Inr ())"
    "ps_dir st1 (pr_file_name request) = ps_dir st (pr_file_name request)"
    using hold_cache_lock_serves [OF assms] by blast
  have "\<exists>st'. acquire_locked os request ?fp dir t st1
      = (st', Inr \<lparr>prep_path = ?fp, already_cached = cached_ok os request (ps_dir st)\<rparr>)
    \<and> ps_dir st' (pr_file_name request)
        = (if cached_ok os request (ps_dir st) then ps_dir st (pr_file_name request) else Some (concat cs))" for t
    using h(2) assms(1) acquire_fresh_serves [OF assms(1), of ?fp dir t]
    by (auto simp: acquire_locked_def cached_ok_def file_digest_def digest_matches_def emit_done_def serves_def
        split: option.split)
  then obtain st2 where "acquire_locked os request ?fp dir
      \<lparr>dt_connect = DOWNLOAD_CONNECT_TIMEOUT, dt_response = DOWNLOAD_RESPONSE_TIMEOUT,
        dt_total = download_total_timeout (pr_size_bytes request)\<rparr> st1
      = (st2, Inr \<lparr>prep_path = ?fp, already_cached = cached_ok os request (ps_dir st)\<rparr>)"
    "ps_dir st2 (pr_file_name request)
        = (if cached_ok os request (ps_dir st) then ps_dir st (pr_file_name request) else Some (concat cs))"
    by blast
  then show ?thesis
    using h(1) assms(1) by (simp add: acquire_def acquire_with_timeouts_def serves_def)
qed

lemma acquire_fresh_done:
  "acquire_fresh os request fp dir t st = (st', Inr p) \<Longrightarrow>
     p = \<lparr>prep_path = fp, already_cached = False\<rparr> \<and> (\<exists>s. st' = emit_done (pr_model_id request) fp (pr_sha256 request) s)"
  by (auto simp: acquire_fresh_def split: sum.splits prod.splits)

lemma acquire_locked_done:
  "acquire_locked os request fp dir t st = (st', Inr p) \<Longrightarrow>
     prep_path p = fp \<and> (\<exists>s. st' = emit_done (pr_model_id request) fp (pr_sha256 request) s)"
  by (auto simp: acquire_locked_def split: option.splits sum.splits if_splits dest!: acquire_fresh_done)

section \<open>What cleaning removes\<close>

definition is_partial :: "string \<Rightarrow> bool" where
  "is_partial n \<longleftrightarrow> starts_with n PARTIAL_PREFIX \<and> ends_with n PARTIAL_SUFFIX \<and> \<not> ends_with n ''.lock''"

text \<open>A partial no running \<open>prepare\<close> can own, by the locks in the listing that could not be taken.\<close>

definition abandoned :: "(string \<Rightarrow> bool) \<Rightarrow> string set \<Rightarrow> string \<Rightarrow> bool" where
  "abandoned hold names n \<longleftrightarrow>
     (case model_of_partial n of
        Some m \<Rightarrow> \<forall>l\<in>names. ends_with l ''.lock'' \<longrightarrow> \<not> hold l \<longrightarrow> file_stem l \<noteq> m
      | None \<Rightarrow> \<forall>l\<in>names. ends_with l ''.lock'' \<longrightarrow> hold l)"

definition acc_of :: "string set \<Rightarrow> clean_acc \<Rightarrow> bool" where
  "acc_of names acc \<longleftrightarrow>
     set (ca_locks acc) = {l \<in> names. ends_with l ''.lock''}
     \<and> set (ca_attributed acc) = {(m, n). n \<in> names \<and> is_partial n \<and> model_of_partial n = Some m}
     \<and> set (ca_unattributed acc) = {n \<in> names. is_partial n \<and> model_of_partial n = None}"

lemma classify_entry_acc: "acc_of names acc \<Longrightarrow> acc_of (insert n names) (classify_entry n acc)"
  by (auto simp: acc_of_def classify_entry_def is_partial_def split: option.splits)

lemma classify_entries_acc:
  "classify_entries es acc = Inr acc' \<Longrightarrow> acc_of names acc \<Longrightarrow> acc_of (names \<union> {n. Inr n \<in> set es}) acc'"
proof (induction es acc arbitrary: names rule: classify_entries.induct)
  case (3 n es acc)
  have "classify_entries es (classify_entry n acc) = Inr acc'" using "3.prems"(1) by simp
  then have "acc_of (insert n names \<union> {m. Inr m \<in> set es}) acc'"
    using "3.prems"(2) by (intro "3.IH" classify_entry_acc)
  moreover have "insert n names \<union> {m. Inr m \<in> set es} = names \<union> {m. Inr m \<in> set (Inr n # es)}" by auto
  ultimately show ?case by simp
qed auto

lemma remove_partials_only:
  "remove_partials rm ns d rs = (d', res) \<Longrightarrow> d' n \<noteq> d n \<Longrightarrow> n \<in> set ns"
proof (induction rm ns d rs arbitrary: d' res rule: remove_partials.induct)
  case (2 rm name names d removed)
  then show ?case by (cases "rm name"; cases "n = name") (auto simp del: fun_upd_apply, simp)
qed simp

lemma remove_partials_all:
  "(\<And>n. n \<in> set ns \<Longrightarrow> rm n = Removed) \<Longrightarrow>
     remove_partials rm ns d rs = (\<lambda>n. if n \<in> set ns then None else d n, Inr (rs @ ns))"
  by (induction ns arbitrary: d rs) (auto simp: fun_eq_iff)

lemma clean_acc:
  assumes "classify_entries es \<lparr>ca_attributed = [], ca_unattributed = [], ca_locks = []\<rparr> = Inr acc"
  shows "acc_of {n. Inr n \<in> set es} acc"
proof -
  have "acc_of {} \<lparr>ca_attributed = [], ca_unattributed = [], ca_locks = []\<rparr>" by (simp add: acc_of_def)
  from classify_entries_acc [OF assms this] show ?thesis by simp
qed

lemma abandoned_stale:
  assumes "acc_of names acc"
  shows "n \<in> set (map snd (filter (\<lambda>(m, n). m \<notin> set (map file_stem (filter (\<lambda>l. \<not> hold l) (ca_locks acc)))) (ca_attributed acc)))
    \<longleftrightarrow> n \<in> names \<and> is_partial n \<and> model_of_partial n \<noteq> None \<and> abandoned hold names n"
  using assms by (auto simp: acc_of_def abandoned_def image_iff split: option.splits)

lemma abandoned_unattributed:
  assumes "acc_of names acc" and "filter (\<lambda>l. \<not> hold l) (ca_locks acc) = []"
  shows "n \<in> set (ca_unattributed acc) \<Longrightarrow> n \<in> names \<and> is_partial n \<and> abandoned hold names n"
  using assms by (auto simp: acc_of_def abandoned_def filter_empty_conv)

lemma clean_removes_abandoned:
  assumes "clean_stale_partials (DirEntries es) hold rm d = (d', res)" and "d' n \<noteq> d n"
  shows "Inr n \<in> set es \<and> is_partial n \<and> abandoned hold {m. Inr m \<in> set es} n"
proof (cases "classify_entries es \<lparr>ca_attributed = [], ca_unattributed = [], ca_locks = []\<rparr>")
  case (Inl e)
  with assms show ?thesis by (simp add: clean_stale_partials_def)
next
  case (Inr acc)
  note acc = clean_acc [OF Inr]
  let ?held = "filter (\<lambda>l. \<not> hold l) (ca_locks acc)"
  let ?stale = "map snd (filter (\<lambda>(m, n). m \<notin> set (map file_stem ?held)) (ca_attributed acc))"
  obtain d1 r1 where r1: "remove_partials rm ?stale d [] = (d1, r1)" by (cases "remove_partials rm ?stale d []")
  have stale: "n \<in> set ?stale" if "d1 n \<noteq> d n" using remove_partials_only [OF r1 that] .
  show ?thesis
  proof (cases "d1 n = d n")
    case False
    from stale [OF False] show ?thesis unfolding abandoned_stale [OF acc] by simp
  next
    case True
    with assms Inr r1 obtain removed d2 r2 where "?held = []" "r1 = Inr removed"
      "remove_partials rm (ca_unattributed acc) d1 removed = (d2, r2)" "d2 n \<noteq> d1 n"
      by (auto simp: clean_stale_partials_def Let_def split: sum.splits prod.splits if_splits)
    then show ?thesis using remove_partials_only abandoned_unattributed [OF acc] by auto
  qed
qed

lemma clean_keeps:
  assumes "\<not> starts_with n PARTIAL_PREFIX"
  shows "fst (clean_stale_partials listing hold rm d) n = d n"
proof (cases listing)
  case (DirEntries es)
  obtain d' res where "clean_stale_partials (DirEntries es) hold rm d = (d', res)" by (metis prod.exhaust)
  with clean_removes_abandoned [OF this, of n] assms DirEntries show ?thesis by (auto simp: is_partial_def)
qed (simp_all add: clean_stale_partials_def)

section \<open>Properties of acquisition\<close>

text \<open>The pinned models satisfy what the runs rely on.\<close>

lemma pin_names_apart: "pin \<in> set manifest \<Longrightarrow> names_apart (from_pin pin)"
  by (auto simp: manifest_def PINS_def qwen3_pin_def bge_pin_def from_pin_def names_apart_def starts_with_def PARTIAL_PREFIX_def)

definition start_state :: "directory \<Rightarrow> prep_state" where
  "start_state d = \<lparr>ps_dir = d, ps_trace = [], ps_events = []\<rparr>"

lemma start_safe: "safe_run os request d (start_state d)"
  by (auto simp: safe_run_def start_state_def safe_dir_def split: option.split)

text \<open>
  C8 (safety). No unverified file is ever visible under its final name, even if the process dies
  at any moment: in every directory an acquisition of a pinned model passes through, the final
  name holds what was there before, nothing, or a file with the pinned digest, and a partial
  download never exceeds the pinned size, whatever the server sends.
\<close>

theorem acquire_crash_safe:
  assumes "by_id i = Some pin"
  shows "list_all (safe_dir os (from_pin pin) d) (ps_trace (fst (acquire os (from_pin pin) dir (start_state d))))
    \<and> safe_dir os (from_pin pin) d (ps_dir (fst (acquire os (from_pin pin) dir (start_state d))))"
proof -
  have "pin \<in> set manifest" using by_id_Some [OF assms] by simp
  from acquire_ok [OF pin_names_apart [OF this] start_safe, of os d dir] show ?thesis
    by (simp add: stage_ok_def safe_run_def)
qed

definition sample_os :: prep_os where
  "sample_os =
     \<lparr>os_sha256 = (\<lambda>bs. bs), os_create_dir = None, os_open_lock = None, os_try_lock = True, os_lock = None,
      os_read_cached = None, os_remove_stale = None, os_available_space = Inr 0,
      os_fetch = (\<lambda>t u. Inr (None, [Chunk ''a''])), os_temp_name = Inr ''x'', os_write = (\<lambda>n. None),
      os_elapsed = (\<lambda>n. False), os_flush = None, os_persist = None\<rparr>"

lemma bge_by_id: "by_id (pin_id bge_pin) = Some bge_pin"
  by (simp add: by_id_def PINS_def qwen3_pin_def bge_pin_def)

theorem acquire_crash_safe_witness:
  "list_all (safe_dir sample_os (from_pin bge_pin) Map.empty)
     (ps_trace (fst (acquire sample_os (from_pin bge_pin) (path_of ''/c'') (start_state Map.empty))))
   \<and> safe_dir sample_os (from_pin bge_pin) Map.empty
       (ps_dir (fst (acquire sample_os (from_pin bge_pin) (path_of ''/c'') (start_state Map.empty))))"
  by (rule acquire_crash_safe [OF bge_by_id])

text \<open>
  C25 (functional). An acquisition that reports success has the model: the final name holds a file
  with the pinned digest. Whatever the outcome, it leaves no partial download of its own, and
  changes no file but the model, its lock and partials.
\<close>

theorem acquire_delivers:
  assumes "by_id i = Some pin" and "acquire os (from_pin pin) dir (start_state d) = (st', res)"
  shows "(\<forall>p. res = Inr p \<longrightarrow> (\<exists>c. ps_dir st' (pin_file pin) = Some c \<and> digest_matches os (pin_sha256 pin) c))
    \<and> (\<forall>n. starts_with n PARTIAL_PREFIX \<longrightarrow> ps_dir st' n \<in> {None, d n})
    \<and> (\<forall>n. n \<notin> touched (from_pin pin) \<longrightarrow> ps_dir st' n = d n)"
proof -
  have "pin \<in> set manifest" using by_id_Some [OF assms(1)] by simp
  from acquire_ok [OF pin_names_apart [OF this] start_safe, of os d dir] assms(2) show ?thesis
    by (auto simp: stage_ok_def partials_kept_def start_state_def from_pin_def)
qed

lemma from_pin_file: "pr_file_name (from_pin pin) = pin_file pin"
  by (simp add: from_pin_def)

lemma start_state_dir: "ps_dir (start_state d) = d"
  by (simp add: start_state_def)

definition bge_digest :: bytes where
  "bge_digest = map char_of ([0xbf, 0x40, 0xc4, 0x2a, 0xd7, 0xd8, 0x93, 0x82, 0xe9, 0xba, 0x73, 0x76, 0xd5, 0xc4, 0xb7, 0x3f,
     0x6b, 0x55, 0x6c, 0xb5, 0x41, 0xfa, 0xb3, 0x7a, 0xaa, 0x1d, 0xa9, 0xc3, 0x20, 0x14, 0x9b, 0x65] :: nat list)"

definition good_os :: prep_os where
  "good_os = sample_os\<lparr>os_sha256 := (\<lambda>bs. bge_digest), os_available_space := Inr (pin_size_bytes bge_pin),
     os_fetch := (\<lambda>t u. Inr (Some (pin_size_bytes bge_pin), map Chunk (replicate (pin_size_bytes bge_pin) ''a'')))\<rparr>"

lemma hex_bge_digest: "hex bge_digest = pin_sha256 bge_pin"
  by (simp add: bge_digest_def bge_pin_def hex_def hex_byte_def hex_digit_def byte_of_def)
    (simp add: char_of_def bit_simps bit_0)

lemma good_os_serves: "serves good_os (from_pin bge_pin) (replicate (pin_size_bytes bge_pin) ''a'')"
proof -
  have "length (concat (replicate n ''a'')) = n" for n by (induction n) simp_all
  then show ?thesis
    by (simp add: serves_def good_os_def sample_os_def from_pin_def digest_matches_def hex_bge_digest)
qed

theorem acquire_delivers_witness:
  "\<exists>st' p c. acquire good_os (from_pin bge_pin) (path_of ''/c'') (start_state Map.empty) = (st', Inr p)
    \<and> ps_dir st' (pin_file bge_pin) = Some c \<and> digest_matches good_os (pin_sha256 bge_pin) c"
proof -
  have "bge_pin \<in> set manifest" by (simp add: manifest_def PINS_def)
  then obtain st' p where run: "acquire good_os (from_pin bge_pin) (path_of ''/c'') (start_state Map.empty) = (st', Inr p)"
    using acquire_serves [OF good_os_serves pin_names_apart, of "path_of ''/c''" "start_state Map.empty"] by blast
  from acquire_delivers [OF bge_by_id run] run show ?thesis by blast
qed
text \<open>
  C29 (liveness). When no call fails, there is room, and the server sends the pinned bytes, the
  acquisition succeeds, with a cached file that verifies left alone and anything else replaced
  by the download.
\<close>

theorem acquire_succeeds:
  assumes "by_id i = Some pin" and "serves os (from_pin pin) cs"
  shows "\<exists>st'. acquire os (from_pin pin) dir (start_state d)
      = (st', Inr \<lparr>prep_path = path_join dir (pin_file pin), already_cached = cached_ok os (from_pin pin) d\<rparr>)
    \<and> ps_dir st' (pin_file pin) = (if cached_ok os (from_pin pin) d then d (pin_file pin) else Some (concat cs))"
proof -
  have "pin \<in> set manifest" using by_id_Some [OF assms(1)] by simp
  from acquire_serves [OF assms(2) pin_names_apart [OF this], of dir "start_state d"] show ?thesis
    unfolding from_pin_file start_state_dir .
qed

theorem acquire_succeeds_witness:
  "\<exists>st'. acquire good_os (from_pin bge_pin) (path_of ''/c'') (start_state Map.empty)
      = (st', Inr \<lparr>prep_path = path_join (path_of ''/c'') (pin_file bge_pin), already_cached = False\<rparr>)
    \<and> ps_dir st' (pin_file bge_pin) = Some (concat (replicate (pin_size_bytes bge_pin) ''a''))"
  using acquire_succeeds [OF bge_by_id good_os_serves, of "path_of ''/c''" Map.empty] by (simp add: cached_ok_def)

text \<open>
  Every outcome is reported once, last: a success ends with the \<open>done\<close> event for the
  final path, a failure with the \<open>error\<close> event that carries the returned message, the expected
  path and the source URL. The caller never has to report it again.
\<close>

lemma acquire_reports_outcome:
  "case acquire os request dir st of
     (st', Inr p) \<Rightarrow> prep_path p = path_join dir (pr_file_name request)
       \<and> (\<exists>s. st' = emit_done (pr_model_id request) (prep_path p) (pr_sha256 request) s)
   | (st', Inl message) \<Rightarrow> (\<exists>s. st' = emit_error (pr_model_id request) message
       (Some (path_join dir (pr_file_name request))) (Some (pr_source_url request)) s)"
  by (auto simp: acquire_def acquire_with_timeouts_def report_def Let_def split: prod.split sum.split option.split
      dest!: acquire_locked_done)

text \<open>
  The name of a partial download says which model it belongs to, dots in the
  model id included.
\<close>

lemma partial_names_model:
  assumes "i \<noteq> []" and "random \<noteq> []" and "CHR ''.'' \<notin> set random"
  shows "model_of_partial (partial_prefix i @ random @ PARTIAL_SUFFIX) = Some i"
  using assms by (rule model_of_partial_roundtrip)

lemma partial_names_model_witness:
  "model_of_partial (partial_prefix ''qwen3-0.6b-f16'' @ ''x7Qa'' @ PARTIAL_SUFFIX) = Some ''qwen3-0.6b-f16''"
  by (rule partial_names_model) simp_all

text \<open>
  Cleaning never breaks a running download: a file it removes is a partial download in
  the listing whose model has no lock in the listing that could not be taken (and, where the
  name carries no model, no lock at all is held). Every other file stays.
\<close>

lemma clean_spares_held:
  assumes "clean_stale_partials (DirEntries es) hold rm d = (d', res)" and "d' n \<noteq> d n"
  shows "Inr n \<in> set es \<and> is_partial n \<and> abandoned hold {m. Inr m \<in> set es} n"
  using assms by (rule clean_removes_abandoned)

definition sample_partial :: string where
  "sample_partial = partial_prefix ''m'' @ ''x'' @ PARTIAL_SUFFIX"

text \<open>
  A partial whose model has no lock file in the listing is removed although no lock was taken for
  it, whereas the comment on \<open>clean_stale_partials\<close> promises removal only under the lock.
\<close>

lemma partial_without_lock_file_removed:
  "clean_stale_partials (DirEntries [Inr sample_partial]) (\<lambda>l. False) (\<lambda>n. Removed) [sample_partial \<mapsto> ''b'']
     = (Map.empty, Inr [sample_partial])"
proof -
  have m: "model_of_partial sample_partial = Some ''m''"
    unfolding sample_partial_def by (rule model_of_partial_roundtrip) simp_all
  have e: "\<not> ends_with sample_partial ''.lock''" "starts_with sample_partial PARTIAL_PREFIX"
    "ends_with sample_partial PARTIAL_SUFFIX"
    by (simp_all add: sample_partial_def partial_prefix_def PARTIAL_PREFIX_def PARTIAL_SUFFIX_def ends_with_def starts_with_def)
  show ?thesis by (simp add: clean_stale_partials_def classify_entry_def m e)
qed

lemma clean_spares_held_witness:
  "Inr sample_partial \<in> set [Inr sample_partial :: (string, string) result] \<and> is_partial sample_partial
   \<and> abandoned (\<lambda>l. False) {m. Inr m \<in> set [Inr sample_partial :: (string, string) result]} sample_partial"
  by (rule clean_spares_held [OF partial_without_lock_file_removed]) simp

end
