(* ===== verification/Cache_Processes.thy ===== *)
theory Cache_Processes
  imports Prepare
begin

text \<open>
  The processes that share one model cache (\<open>src/src/prepare.rs\<close>): any number of them acquire pinned
  models, as \<open>prepare\<close> does, or clean stale partials, as every start of a server does, and any of
  them may die at any moment. Theory \<open>Prepare\<close> has each operation as one function; here it is a
  sequence of the calls another process can see: opening and taking the lock file, creating,
  writing and renaming the partial, listing the directory, probing a lock, removing a file. (That
  the functions are runs of these steps is shown by \<open>acquire_runs\<close> and \<open>clean_runs\<close>.) A lock is the
  process that holds it. Two simplifications: a directory is listed in one step, and the random
  part of a temporary name is never used twice (\<open>cs_used\<close> remembers all names).
\<close>

section \<open>The shared cache\<close>

definition lock_name :: "prepare_request \<Rightarrow> string" where
  "lock_name r = pr_model_id r @ ''.lock''"

definition requests :: "prepare_request set" where
  "requests = from_pin ` set manifest"

datatype worker =
    LockOpened prepare_request
  | LockHeld prepare_request
  | Downloading prepare_request string bytes
  | LockKept prepare_request
  | Probing clean_acc "string list" "string list"
  | Removing "string list"

record cache_system =
  cs_dir :: directory
  cs_used :: "string set"
  cs_locks :: "string \<rightharpoonup> nat"
  cs_workers :: "nat \<rightharpoonup> worker"

definition cache_start :: "directory \<Rightarrow> cache_system" where
  "cache_start d = \<lparr>cs_dir = d, cs_used = dom d, cs_locks = Map.empty, cs_workers = Map.empty\<rparr>"

text \<open>The worker's next state, with the directory it leaves.\<close>

definition becomes :: "nat \<Rightarrow> worker \<Rightarrow> directory \<Rightarrow> cache_system \<Rightarrow> cache_system" where
  "becomes w x d s = s\<lparr>cs_dir := d, cs_used := cs_used s \<union> dom d, cs_workers := (cs_workers s)(w \<mapsto> x)\<rparr>"

text \<open>The end of a worker, however it came: the operating system takes its locks back.\<close>

definition gone :: "nat \<Rightarrow> cache_system \<Rightarrow> cache_system" where
  "gone w s =
     s\<lparr>cs_locks := (\<lambda>l. if cs_locks s l = Some w then None else cs_locks s l), cs_workers := (cs_workers s)(w := None)\<rparr>"

definition take_lock :: "nat \<Rightarrow> string \<Rightarrow> cache_system \<Rightarrow> cache_system" where
  "take_lock w l s = s\<lparr>cs_locks := (cs_locks s)(l \<mapsto> w)\<rparr>"

text \<open>The files a cleaning removes once it knows which locks it could not take.\<close>

definition to_remove :: "string list \<Rightarrow> clean_acc \<Rightarrow> string list" where
  "to_remove held acc =
     map snd (filter (\<lambda>(model_id, name). model_id \<notin> set (map file_stem held)) (ca_attributed acc))
     @ (if held = [] then ca_unattributed acc else [])"

lemma remove_partials_append:
  "remove_partials rm (xs @ ys) d rs =
     (case remove_partials rm xs d rs of
        (d1, Inl e) \<Rightarrow> (d1, Inl e) | (d1, Inr rs1) \<Rightarrow> remove_partials rm ys d1 rs1)"
  by (induction xs arbitrary: d rs) (auto split: remove_result.split)

text \<open>Cleaning as one function is: list, probe every lock, remove these files.\<close>

lemma clean_stale_partials_to_remove:
  "clean_stale_partials (DirEntries es) hold rm d =
     (case classify_entries es \<lparr>ca_attributed = [], ca_unattributed = [], ca_locks = []\<rparr> of
        Inl e \<Rightarrow> (d, Inl e)
      | Inr acc \<Rightarrow>
          (case remove_partials rm (to_remove (filter (\<lambda>l. \<not> hold l) (ca_locks acc)) acc) d [] of
             (d1, Inl e) \<Rightarrow> (d1, Inl e) | (d1, Inr removed) \<Rightarrow> (d1, Inr (sort removed))))"
  by (auto simp: clean_stale_partials_def to_remove_def remove_partials_append Let_def split: sum.split prod.split)

inductive cache_step :: "prep_os \<Rightarrow> cache_system \<Rightarrow> cache_system \<Rightarrow> bool" for os :: prep_os where
  open_lock: "cs_workers s w = None \<Longrightarrow> r \<in> requests \<Longrightarrow>
    cache_step os s (becomes w (LockOpened r)
      (case cs_dir s (lock_name r) of None \<Rightarrow> (cs_dir s)(lock_name r \<mapsto> []) | Some _ \<Rightarrow> cs_dir s) s)"
| lock: "cs_workers s w = Some (LockOpened r) \<Longrightarrow> cs_locks s (lock_name r) = None \<Longrightarrow>
    cache_step os s (take_lock w (lock_name r) (becomes w (LockHeld r) (cs_dir s) s))"
| remove_stale: "cs_workers s w = Some (LockHeld r) \<Longrightarrow> cs_dir s (pr_file_name r) = Some c \<Longrightarrow>
    \<not> digest_matches os (pr_sha256 r) c \<Longrightarrow>
    cache_step os s (becomes w (LockHeld r) ((cs_dir s)(pr_file_name r := None)) s)"
| create: "cs_workers s w = Some (LockHeld r) \<Longrightarrow> cs_dir s (pr_file_name r) = None \<Longrightarrow>
    random \<noteq> [] \<Longrightarrow> CHR ''.'' \<notin> set random \<Longrightarrow>
    tmp = partial_prefix (pr_model_id r) @ random @ PARTIAL_SUFFIX \<Longrightarrow> tmp \<notin> cs_used s \<Longrightarrow>
    cache_step os s (becomes w (Downloading r tmp []) ((cs_dir s)(tmp \<mapsto> [])) s)"
| append_chunk: "cs_workers s w = Some (Downloading r tmp got) \<Longrightarrow> cs_dir s tmp = Some c \<Longrightarrow>
    length got + length bs \<le> pr_size_bytes r \<Longrightarrow>
    cache_step os s (becomes w (Downloading r tmp (got @ bs)) ((cs_dir s)(tmp \<mapsto> c @ bs)) s)"
| persist: "cs_workers s w = Some (Downloading r tmp got) \<Longrightarrow> digest_matches os (pr_sha256 r) got \<Longrightarrow>
    cs_dir s tmp = Some c \<Longrightarrow>
    cache_step os s (becomes w (LockKept r) ((cs_dir s)(tmp := None, pr_file_name r \<mapsto> c)) s)"
| drop_temp: "cs_workers s w = Some (Downloading r tmp got) \<Longrightarrow>
    cache_step os s (becomes w (LockKept r) ((cs_dir s)(tmp := None)) s)"
| unlock: "cs_workers s w = Some (LockHeld r) \<or> cs_workers s w = Some (LockKept r) \<Longrightarrow>
    cache_step os s (gone w s)"
| list_dir: "cs_workers s w = None \<Longrightarrow> set names = dom (cs_dir s) \<Longrightarrow>
    classify_entries (map Inr names) \<lparr>ca_attributed = [], ca_unattributed = [], ca_locks = []\<rparr> = Inr acc \<Longrightarrow>
    cache_step os s (becomes w (Probing acc (ca_locks acc) []) (cs_dir s) s)"
| probe_free: "cs_workers s w = Some (Probing acc (l # ls) held) \<Longrightarrow> cs_dir s l \<noteq> None \<Longrightarrow> cs_locks s l = None \<Longrightarrow>
    cache_step os s (take_lock w l (becomes w (Probing acc ls held) (cs_dir s) s))"
| probe_held: "cs_workers s w = Some (Probing acc (l # ls) held) \<Longrightarrow>
    cache_step os s (becomes w (Probing acc ls (held @ [l])) (cs_dir s) s)"
| probed: "cs_workers s w = Some (Probing acc [] held) \<Longrightarrow>
    cache_step os s (becomes w (Removing (to_remove held acc)) (cs_dir s) s)"
| remove: "cs_workers s w = Some (Removing (n # ns)) \<Longrightarrow>
    cache_step os s (becomes w (Removing ns) ((cs_dir s)(n := None)) s)"
| finish_clean: "cs_workers s w = Some (Removing ns) \<Longrightarrow> cache_step os s (gone w s)"
| crash: "cache_step os s (gone w s)"

inductive cache_reach :: "prep_os \<Rightarrow> directory \<Rightarrow> cache_system \<Rightarrow> bool" for os :: prep_os and d0 :: directory where
  start: "cache_reach os d0 (cache_start d0)"
| step: "cache_reach os d0 s \<Longrightarrow> cache_step os s s' \<Longrightarrow> cache_reach os d0 s'"

section \<open>Names\<close>

lemma lock_name_stem: "pr_model_id r \<noteq> [] \<Longrightarrow> file_stem (lock_name r) = pr_model_id r"
  using rsplit_once_append [of "CHR ''.''" "''lock''" "pr_model_id r"] by (simp add: file_stem_def lock_name_def)

lemma lock_name_ends: "ends_with (lock_name r) ''.lock''"
  by (simp add: lock_name_def)

lemma temp_name_partial:
  assumes "random \<noteq> []" and "CHR ''.'' \<notin> set random" and "i \<noteq> []"
  shows "is_partial (partial_prefix i @ random @ PARTIAL_SUFFIX)"
    and "model_of_partial (partial_prefix i @ random @ PARTIAL_SUFFIX) = Some i"
proof -
  have "\<not> ends_with (t @ PARTIAL_SUFFIX) ''.lock''" for t
    by (simp add: ends_with_def PARTIAL_SUFFIX_def)
  from this [of "partial_prefix i @ random"] show "is_partial (partial_prefix i @ random @ PARTIAL_SUFFIX)"
    using ends_with_append [of "partial_prefix i @ random" PARTIAL_SUFFIX]
    by (simp add: is_partial_def partial_prefix_def starts_with_def)
  show "model_of_partial (partial_prefix i @ random @ PARTIAL_SUFFIX) = Some i"
    using assms by (intro model_of_partial_roundtrip)
qed

text \<open>The names of the pinned models do not collide.\<close>

lemma requests_pins: "r \<in> requests \<longleftrightarrow> r = from_pin qwen3_pin \<or> r = from_pin bge_pin"
  by (auto simp: requests_def manifest_def PINS_def)

lemma requests_apart: "r \<in> requests \<Longrightarrow> names_apart r"
  by (auto simp: requests_def pin_names_apart)

lemma requests_id: "r \<in> requests \<Longrightarrow> pr_model_id r \<noteq> []"
  by (auto simp: requests_pins from_pin_def qwen3_pin_def bge_pin_def)

lemma pin_files_end: "r \<in> requests \<Longrightarrow> ends_with (pr_file_name r) ''gguf''"
  by (auto simp: requests_pins from_pin_def qwen3_pin_def bge_pin_def ends_with_def)

lemma file_not_lock: "r \<in> requests \<Longrightarrow> pr_file_name r \<noteq> lock_name r'"
  using pin_files_end [of r] by (auto simp: lock_name_def ends_with_def)

lemma requests_file_inj: "r \<in> requests \<Longrightarrow> r' \<in> requests \<Longrightarrow> pr_file_name r = pr_file_name r' \<Longrightarrow> r = r'"
  unfolding requests_pins by (elim disjE) (simp_all add: from_pin_def qwen3_pin_def bge_pin_def)

lemma partial_not_lock: "is_partial n \<Longrightarrow> n \<noteq> lock_name r"
  using lock_name_ends [of r] by (auto simp: is_partial_def)

lemma partial_not_file: "is_partial n \<Longrightarrow> r \<in> requests \<Longrightarrow> n \<noteq> pr_file_name r"
  using requests_apart [of r] by (auto simp: is_partial_def names_apart_def)

section \<open>The invariant\<close>

definition holds :: "cache_system \<Rightarrow> nat \<Rightarrow> prepare_request \<Rightarrow> bool" where
  "holds s w r \<longleftrightarrow> r \<in> requests \<and> cs_dir s (lock_name r) \<noteq> None \<and> cs_locks s (lock_name r) = Some w"

text \<open>The file \<open>n\<close> is the partial of a running download for \<open>r\<close>.\<close>

definition live :: "cache_system \<Rightarrow> prepare_request \<Rightarrow> string \<Rightarrow> bool" where
  "live s r n \<longleftrightarrow> (\<exists>w got. cs_workers s w = Some (Downloading r n got))"

definition worker_ok :: "cache_system \<Rightarrow> nat \<Rightarrow> worker \<Rightarrow> bool" where
  "worker_ok s w x =
     (case x of
        LockOpened r \<Rightarrow> r \<in> requests \<and> cs_dir s (lock_name r) \<noteq> None
      | LockHeld r \<Rightarrow> holds s w r
      | LockKept r \<Rightarrow> holds s w r
      | Downloading r tmp got \<Rightarrow>
          holds s w r \<and> cs_dir s tmp = Some got \<and> is_partial tmp \<and> model_of_partial tmp = Some (pr_model_id r)
      | Probing acc ls held \<Rightarrow>
          (\<forall>m n. (m, n) \<in> set (ca_attributed acc) \<longrightarrow> is_partial n \<and> model_of_partial n = Some m \<and> n \<in> cs_used s)
          \<and> (\<forall>n. n \<in> set (ca_unattributed acc) \<longrightarrow> is_partial n \<and> model_of_partial n = None \<and> n \<in> cs_used s)
          \<and> (\<forall>m n r. (m, n) \<in> set (ca_attributed acc) \<longrightarrow> live s r n \<longrightarrow> lock_name r \<in> set ls \<union> set held)
      | Removing ns \<Rightarrow> (\<forall>n \<in> set ns. is_partial n \<and> n \<in> cs_used s \<and> (\<forall>r. \<not> live s r n)))"

definition final_ok :: "prep_os \<Rightarrow> directory \<Rightarrow> prepare_request \<Rightarrow> directory \<Rightarrow> bool" where
  "final_ok os d0 r d \<longleftrightarrow>
     (case d (pr_file_name r) of
        None \<Rightarrow> True
      | Some c \<Rightarrow> d0 (pr_file_name r) = Some c \<or> digest_matches os (pr_sha256 r) c)"

definition cache_ok :: "prep_os \<Rightarrow> directory \<Rightarrow> cache_system \<Rightarrow> bool" where
  "cache_ok os d0 s \<longleftrightarrow>
     dom (cs_dir s) \<subseteq> cs_used s \<and> (\<forall>w x. cs_workers s w = Some x \<longrightarrow> worker_ok s w x)
     \<and> (\<forall>r \<in> requests. final_ok os d0 r (cs_dir s))"

lemma downloading_ok:
  assumes "cache_ok os d0 s" and "cs_workers s w = Some (Downloading r n got)"
  shows "r \<in> requests" and "cs_locks s (lock_name r) = Some w" and "cs_dir s n = Some got" and "is_partial n"
    and "model_of_partial n = Some (pr_model_id r)" and "n \<in> cs_used s" and "cs_dir s (lock_name r) \<noteq> None"
proof -
  have w: "worker_ok s w (Downloading r n got)" using assms by (simp add: cache_ok_def)
  then show d: "r \<in> requests" "cs_locks s (lock_name r) = Some w" "cs_dir s n = Some got" "is_partial n"
    "model_of_partial n = Some (pr_model_id r)" "cs_dir s (lock_name r) \<noteq> None"
    by (simp_all add: worker_ok_def holds_def)
  show "n \<in> cs_used s" using assms(1) d(3) by (auto simp: cache_ok_def)
qed

lemma downloads_unique:
  assumes "cache_ok os d0 s" and "cs_workers s w = Some (Downloading r n got)"
    and "cs_workers s w' = Some (Downloading r' n' got')" and "pr_model_id r' = pr_model_id r"
  shows "w' = w"
proof -
  have "lock_name r' = lock_name r" using assms(4) by (simp add: lock_name_def)
  with downloading_ok(2) [OF assms(1,2)] downloading_ok(2) [OF assms(1,3)] show ?thesis by simp
qed

lemma same_temp_same_worker:
  assumes "cache_ok os d0 s" and "cs_workers s w = Some (Downloading r n got)"
    and "cs_workers s w' = Some (Downloading r' n got')"
  shows "w' = w"
proof -
  have "pr_model_id r' = pr_model_id r"
    using downloading_ok(5) [OF assms(1,2)] downloading_ok(5) [OF assms(1,3)] by simp
  then show ?thesis by (rule downloads_unique [OF assms])
qed

text \<open>What another worker must leave alone.\<close>

definition spares :: "nat \<Rightarrow> cache_system \<Rightarrow> cache_system \<Rightarrow> bool" where
  "spares w s s' \<longleftrightarrow>
     (\<forall>r \<in> requests. cs_dir s (lock_name r) \<noteq> None \<longrightarrow> cs_dir s' (lock_name r) \<noteq> None)
     \<and> (\<forall>v l. v \<noteq> w \<longrightarrow> cs_locks s l = Some v \<longrightarrow> cs_locks s' l = Some v)
     \<and> cs_used s \<subseteq> cs_used s'
     \<and> (\<forall>v r n got. v \<noteq> w \<longrightarrow> cs_workers s v = Some (Downloading r n got) \<longrightarrow> cs_dir s' n = cs_dir s n)
     \<and> (\<forall>r n. live s' r n \<longrightarrow> n \<in> cs_used s \<longrightarrow> live s r n)"

lemma spared_worker:
  assumes "worker_ok s v x" and "spares w s s'" and "v \<noteq> w" and "cs_workers s v = Some x"
  shows "worker_ok s' v x"
proof -
  have h: "holds s v r \<Longrightarrow> holds s' v r" for r
    using assms(2,3) by (auto simp: holds_def spares_def)
  have used: "n \<in> cs_used s \<Longrightarrow> n \<in> cs_used s'" for n using assms(2) by (auto simp: spares_def)
  have live: "live s' r n \<Longrightarrow> n \<in> cs_used s \<Longrightarrow> live s r n" for r n using assms(2) by (auto simp: spares_def)
  show ?thesis
  proof (cases x)
    case (LockOpened r)
    with assms show ?thesis by (auto simp: worker_ok_def spares_def)
  next
    case (Downloading r n got)
    with assms(2-4) have "cs_dir s' n = cs_dir s n" by (auto simp: spares_def)
    with assms(1) h Downloading show ?thesis by (simp add: worker_ok_def)
  next
    case (Probing acc ls held)
    with assms(1) used live show ?thesis by (simp add: worker_ok_def)
  next
    case (Removing ns)
    with assms(1) used live show ?thesis by (simp add: worker_ok_def) blast
  qed (use assms(1) h in \<open>simp_all add: worker_ok_def\<close>)
qed

lemma step_cache_ok:
  assumes "cache_ok os d0 s" and "spares w s s'" and "dom (cs_dir s') \<subseteq> cs_used s'"
    and "\<And>v. v \<noteq> w \<Longrightarrow> cs_workers s' v = cs_workers s v"
    and "\<And>x. cs_workers s' w = Some x \<Longrightarrow> worker_ok s' w x"
    and "\<And>r. r \<in> requests \<Longrightarrow> final_ok os d0 r (cs_dir s')"
  shows "cache_ok os d0 s'"
  unfolding cache_ok_def
proof (intro conjI allI impI ballI)
  show "worker_ok s' v x" if "cs_workers s' v = Some x" for v x
    using that assms(1,2,4,5) spared_worker [of s v x w s'] by (cases "v = w") (auto simp: cache_ok_def)
qed (use assms(3,6) in auto)

section \<open>Every step keeps it\<close>

text \<open>A step that changes the directory only where no other worker looks, and starts no download.\<close>

lemma becomes_ok:
  assumes ok: "cache_ok os d0 s" and x: "\<And>r n got. x = Downloading r n got \<Longrightarrow> live s r n \<or> n \<notin> cs_used s"
    and locks: "\<And>r. r \<in> requests \<Longrightarrow> cs_dir s (lock_name r) \<noteq> None \<Longrightarrow> d (lock_name r) \<noteq> None"
    and temps: "\<And>v r n got. v \<noteq> w \<Longrightarrow> cs_workers s v = Some (Downloading r n got) \<Longrightarrow> d n = cs_dir s n"
    and own: "worker_ok (becomes w x d s) w x"
    and final: "\<And>r. r \<in> requests \<Longrightarrow> final_ok os d0 r d"
  shows "cache_ok os d0 (becomes w x d s)"
proof (rule step_cache_ok [OF ok])
  have "live (becomes w x d s) r n \<Longrightarrow> n \<in> cs_used s \<Longrightarrow> live s r n" for r n
    using x by (auto simp: live_def becomes_def split: if_splits)
  then show "spares w s (becomes w x d s)"
    using locks temps by (auto simp: spares_def becomes_def)
qed (use own final in \<open>auto simp: becomes_def\<close>)

lemma taken_ok:
  assumes ok: "cache_ok os d0 s" and free: "cs_locks s l = None" and x: "\<And>r n got. x \<noteq> Downloading r n got"
    and own: "worker_ok (take_lock w l (becomes w x (cs_dir s) s)) w x"
  shows "cache_ok os d0 (take_lock w l (becomes w x (cs_dir s) s))"
proof (rule step_cache_ok [OF ok])
  show "spares w s (take_lock w l (becomes w x (cs_dir s) s))"
    using free x by (auto simp: spares_def take_lock_def becomes_def live_def split: if_splits)
qed (use ok own in \<open>auto simp: cache_ok_def take_lock_def becomes_def\<close>)

lemma gone_ok:
  assumes ok: "cache_ok os d0 s"
  shows "cache_ok os d0 (gone w s)"
proof (rule step_cache_ok [OF ok])
  show "spares w s (gone w s)" by (auto simp: spares_def gone_def live_def split: if_splits)
qed (use ok in \<open>auto simp: cache_ok_def gone_def\<close>)

lemma worker_of: "cache_ok os d0 s \<Longrightarrow> cs_workers s w = Some x \<Longrightarrow> worker_ok s w x"
  by (simp add: cache_ok_def)

lemma final_of: "cache_ok os d0 s \<Longrightarrow> r \<in> requests \<Longrightarrow> final_ok os d0 r (cs_dir s)"
  by (simp add: cache_ok_def)

lemma final_ok_same: "d (pr_file_name r) = d' (pr_file_name r) \<Longrightarrow> final_ok os d0 r d = final_ok os d0 r d'"
  by (simp add: final_ok_def)

lemma live_becomes:
  "live (becomes w x d s) r n \<Longrightarrow> (\<And>r n got. x \<noteq> Downloading r n got) \<Longrightarrow> live s r n"
  by (auto simp: live_def becomes_def split: if_splits)

lemma live_taken: "live (take_lock w l s) r n = live s r n"
  by (simp add: live_def take_lock_def)

lemma live_lock:
  assumes "cache_ok os d0 s" and "live s r n"
  shows "cs_locks s (lock_name r) \<noteq> None" and "cs_dir s (lock_name r) \<noteq> None" and "is_partial n"
    and "model_of_partial n = Some (pr_model_id r)" and "n \<in> cs_used s" and "r \<in> requests"
  using assms downloading_ok [OF assms(1)] by (auto simp: live_def)

lemma open_lock_ok:
  assumes ok: "cache_ok os d0 s" and "r \<in> requests"
  shows "cache_ok os d0 (becomes w (LockOpened r)
    (case cs_dir s (lock_name r) of None \<Rightarrow> (cs_dir s)(lock_name r \<mapsto> []) | Some _ \<Rightarrow> cs_dir s) s)"
proof (rule becomes_ok [OF ok])
  let ?d = "case cs_dir s (lock_name r) of None \<Rightarrow> (cs_dir s)(lock_name r \<mapsto> []) | Some _ \<Rightarrow> cs_dir s"
  show "?d n = cs_dir s n" if "cs_workers s v = Some (Downloading r' n got)" for v r' n got
    using partial_not_lock [OF downloading_ok(4) [OF ok that]] by (simp split: option.split)
  show "final_ok os d0 r' ?d" if "r' \<in> requests" for r'
    using final_of [OF ok that] file_not_lock [OF that, of r] by (auto simp: final_ok_def split: option.split)
qed (use assms in \<open>auto simp: worker_ok_def becomes_def split: option.split\<close>)

lemma remove_stale_ok:
  assumes ok: "cache_ok os d0 s" and w: "cs_workers s w = Some (LockHeld r)"
  shows "cache_ok os d0 (becomes w (LockHeld r) ((cs_dir s)(pr_file_name r := None)) s)"
proof (rule becomes_ok [OF ok])
  have h: "holds s w r" using worker_of [OF ok w] by (simp add: worker_ok_def)
  then have r: "r \<in> requests" by (simp add: holds_def)
  show "((cs_dir s)(pr_file_name r := None)) (lock_name r') \<noteq> None" if "cs_dir s (lock_name r') \<noteq> None" for r'
    using that file_not_lock [OF r, of r'] by simp
  show "((cs_dir s)(pr_file_name r := None)) n = cs_dir s n" if "cs_workers s v = Some (Downloading r' n got)" for v r' n got
    using partial_not_file [OF downloading_ok(4) [OF ok that] r] by simp
  show "final_ok os d0 r' ((cs_dir s)(pr_file_name r := None))" if "r' \<in> requests" for r'
    using final_of [OF ok that] by (auto simp: final_ok_def)
  show "worker_ok (becomes w (LockHeld r) ((cs_dir s)(pr_file_name r := None)) s) w (LockHeld r)"
    using h file_not_lock [OF r, of r] by (simp add: worker_ok_def holds_def becomes_def)
qed simp

lemma create_ok:
  assumes ok: "cache_ok os d0 s" and w: "cs_workers s w = Some (LockHeld r)"
    and "random \<noteq> []" and "CHR ''.'' \<notin> set random"
    and tmp: "tmp = partial_prefix (pr_model_id r) @ random @ PARTIAL_SUFFIX" and fresh: "tmp \<notin> cs_used s"
  shows "cache_ok os d0 (becomes w (Downloading r tmp []) ((cs_dir s)(tmp \<mapsto> [])) s)"
proof (rule becomes_ok [OF ok])
  have h: "holds s w r" using worker_of [OF ok w] by (simp add: worker_ok_def)
  then have r: "r \<in> requests" by (simp add: holds_def)
  have p: "is_partial tmp" "model_of_partial tmp = Some (pr_model_id r)"
    unfolding tmp using temp_name_partial [OF assms(3,4) requests_id [OF r]] by blast+
  show "((cs_dir s)(tmp \<mapsto> [])) n = cs_dir s n" if "cs_workers s v = Some (Downloading r' n got)" for v r' n got
    using downloading_ok(6) [OF ok that] fresh by auto
  show "final_ok os d0 r' ((cs_dir s)(tmp \<mapsto> []))" if "r' \<in> requests" for r'
    using final_of [OF ok that] partial_not_file [OF p(1) that] by (simp add: final_ok_def)
  show "worker_ok (becomes w (Downloading r tmp []) ((cs_dir s)(tmp \<mapsto> [])) s) w (Downloading r tmp [])"
    using h p by (simp add: worker_ok_def holds_def becomes_def)
qed (use fresh in auto)

lemma append_ok:
  assumes ok: "cache_ok os d0 s" and w: "cs_workers s w = Some (Downloading r tmp got)" and c: "cs_dir s tmp = Some c"
  shows "cache_ok os d0 (becomes w (Downloading r tmp (got @ bs)) ((cs_dir s)(tmp \<mapsto> c @ bs)) s)"
proof (rule becomes_ok [OF ok])
  note dl = downloading_ok [OF ok w]
  show "live s r' n \<or> n \<notin> cs_used s" if "Downloading r tmp (got @ bs) = Downloading r' n got'" for r' n got'
    using that w by (auto simp: live_def)
  show "((cs_dir s)(tmp \<mapsto> c @ bs)) n = cs_dir s n"
    if "v \<noteq> w" "cs_workers s v = Some (Downloading r' n got')" for v r' n got'
  proof -
    have "n \<noteq> tmp" using same_temp_same_worker [OF ok w, of v r' got'] that by auto
    then show ?thesis by simp
  qed
  show "final_ok os d0 r' ((cs_dir s)(tmp \<mapsto> c @ bs))" if "r' \<in> requests" for r'
    using final_of [OF ok that] partial_not_file [OF dl(4) that] by (simp add: final_ok_def)
  show "worker_ok (becomes w (Downloading r tmp (got @ bs)) ((cs_dir s)(tmp \<mapsto> c @ bs)) s) w (Downloading r tmp (got @ bs))"
    using dl c partial_not_lock [OF dl(4), of r] by (auto simp: worker_ok_def holds_def becomes_def)
qed simp

text \<open>The end of a download: the partial is gone, renamed or dropped.\<close>

lemma end_download_ok:
  assumes ok: "cache_ok os d0 s" and w: "cs_workers s w = Some (Downloading r tmp got)"
    and d: "d tmp = None" "\<And>n. n \<noteq> tmp \<Longrightarrow> n \<noteq> pr_file_name r \<Longrightarrow> d n = cs_dir s n"
    and final: "final_ok os d0 r d"
  shows "cache_ok os d0 (becomes w (LockKept r) d s)"
proof (rule becomes_ok [OF ok])
  note dl = downloading_ok [OF ok w]
  have lock: "d (lock_name r') = cs_dir s (lock_name r')" for r'
    using d(2) [of "lock_name r'"] partial_not_lock [OF dl(4), of r'] file_not_lock [OF dl(1), of r'] by auto
  then show "d (lock_name r') \<noteq> None" if "cs_dir s (lock_name r') \<noteq> None" for r' using that by simp
  show "d n = cs_dir s n" if "v \<noteq> w" "cs_workers s v = Some (Downloading r' n got')" for v r' n got'
  proof -
    have "n \<noteq> tmp" using same_temp_same_worker [OF ok w, of v r' got'] that by auto
    then show ?thesis using d(2) partial_not_file [OF downloading_ok(4) [OF ok that(2)] dl(1)] by simp
  qed
  show "final_ok os d0 r' d" if "r' \<in> requests" for r'
  proof (cases "r' = r")
    case False
    then have "pr_file_name r' \<noteq> pr_file_name r" using requests_file_inj [OF that dl(1)] by blast
    then have "d (pr_file_name r') = cs_dir s (pr_file_name r')" using d(2) partial_not_file [OF dl(4) that] by simp
    with final_of [OF ok that] show ?thesis by (simp add: final_ok_def)
  qed (use final in simp)
  show "worker_ok (becomes w (LockKept r) d s) w (LockKept r)"
    using dl(1,2,7) lock [of r] by (auto simp: worker_ok_def holds_def becomes_def)
qed simp

text \<open>A cleaner's claims, when its state is the only thing that changes or a file it may remove goes.\<close>

lemma probing_ok:
  assumes "\<And>m n. (m, n) \<in> set (ca_attributed acc) \<Longrightarrow> is_partial n \<and> model_of_partial n = Some m \<and> n \<in> cs_used s"
    and "\<And>n. n \<in> set (ca_unattributed acc) \<Longrightarrow> is_partial n \<and> model_of_partial n = None \<and> n \<in> cs_used s"
    and "\<And>m n r. (m, n) \<in> set (ca_attributed acc) \<Longrightarrow> live s r n \<Longrightarrow> lock_name r \<in> set ls \<union> set held"
    and "s' = becomes w (Probing acc ls held) d s \<or> s' = take_lock w l (becomes w (Probing acc ls held) d s)"
  shows "worker_ok s' w (Probing acc ls held)"
proof -
  have "live s r n" if "live s' r n" for r n
    using assms(4) that live_becomes [of w "Probing acc ls held" d s r n] by (auto simp: live_taken)
  moreover have "n \<in> cs_used s'" if "n \<in> cs_used s" for n
    using assms(4) that by (auto simp: becomes_def take_lock_def)
  ultimately show ?thesis unfolding worker_ok_def using assms(1-3) by (simp only: worker.case) blast
qed

lemma removing_ok:
  assumes "\<And>n. n \<in> set ns \<Longrightarrow> is_partial n \<and> n \<in> cs_used s" and "\<And>n r. n \<in> set ns \<Longrightarrow> \<not> live s r n"
  shows "worker_ok (becomes w (Removing ns) d s) w (Removing ns)"
proof -
  have "live s r n" if "live (becomes w (Removing ns) d s) r n" for r n using live_becomes [OF that] by simp
  moreover have "n \<in> cs_used (becomes w (Removing ns) d s)" if "n \<in> cs_used s" for n using that by (simp add: becomes_def)
  ultimately show ?thesis unfolding worker_ok_def using assms by (simp only: worker.case) blast
qed

lemma probing_claims:
  assumes "worker_ok s w (Probing acc ls held)"
  shows "(m, n) \<in> set (ca_attributed acc) \<Longrightarrow> is_partial n \<and> model_of_partial n = Some m \<and> n \<in> cs_used s"
    and "n \<in> set (ca_unattributed acc) \<Longrightarrow> is_partial n \<and> model_of_partial n = None \<and> n \<in> cs_used s"
    and "(m, n) \<in> set (ca_attributed acc) \<Longrightarrow> live s r n \<Longrightarrow> lock_name r \<in> set ls \<union> set held"
  using assms unfolding worker_ok_def worker.case by blast+

lemma list_dir_ok:
  assumes ok: "cache_ok os d0 s" and names: "set names = dom (cs_dir s)"
    and acc: "classify_entries (map Inr names) \<lparr>ca_attributed = [], ca_unattributed = [], ca_locks = []\<rparr> = Inr acc"
  shows "cache_ok os d0 (becomes w (Probing acc (ca_locks acc) []) (cs_dir s) s)"
proof (rule becomes_ok [OF ok])
  have a: "acc_of (dom (cs_dir s)) acc" using clean_acc [OF acc] names by (simp add: image_iff)
  have used: "dom (cs_dir s) \<subseteq> cs_used s" using ok by (simp add: cache_ok_def)
  have "lock_name r \<in> set (ca_locks acc)" if "live s r n" for r n
    using live_lock(2) [OF ok that] a lock_name_ends [of r] by (auto simp: acc_of_def)
  then show "worker_ok (becomes w (Probing acc (ca_locks acc) []) (cs_dir s) s) w (Probing acc (ca_locks acc) [])"
    using a used by (intro probing_ok) (auto simp: acc_of_def)
qed (use final_of [OF ok] in simp_all)

lemma probe_free_ok:
  assumes ok: "cache_ok os d0 s" and w: "cs_workers s w = Some (Probing acc (l # ls) held)" and free: "cs_locks s l = None"
  shows "cache_ok os d0 (take_lock w l (becomes w (Probing acc ls held) (cs_dir s) s))"
proof (rule taken_ok [OF ok free])
  note p = probing_claims [OF worker_of [OF ok w]]
  have "lock_name r \<in> set ls \<union> set held" if "(m, n) \<in> set (ca_attributed acc)" "live s r n" for m n r
    using p(3) [OF that] live_lock(1) [OF ok that(2)] free by auto
  with p show "worker_ok (take_lock w l (becomes w (Probing acc ls held) (cs_dir s) s)) w (Probing acc ls held)"
    by (intro probing_ok) blast+
qed simp

lemma probe_held_ok:
  assumes ok: "cache_ok os d0 s" and w: "cs_workers s w = Some (Probing acc (l # ls) held)"
  shows "cache_ok os d0 (becomes w (Probing acc ls (held @ [l])) (cs_dir s) s)"
proof (rule becomes_ok [OF ok])
  note p = probing_claims [OF worker_of [OF ok w]]
  have "lock_name r \<in> set ls \<union> set (held @ [l])" if "(m, n) \<in> set (ca_attributed acc)" "live s r n" for m n r
    using p(3) [OF that] by auto
  with p show "worker_ok (becomes w (Probing acc ls (held @ [l])) (cs_dir s) s) w (Probing acc ls (held @ [l]))"
    by (intro probing_ok) blast+
qed (use final_of [OF ok] in simp_all)

text \<open>Once every lock was probed, no file to be removed is the partial of a running download.\<close>

lemma probed_ok:
  assumes ok: "cache_ok os d0 s" and w: "cs_workers s w = Some (Probing acc [] held)"
  shows "cache_ok os d0 (becomes w (Removing (to_remove held acc)) (cs_dir s) s)"
proof (rule becomes_ok [OF ok])
  note p = probing_claims [OF worker_of [OF ok w]]
  have "\<not> live s r n" if n: "n \<in> set (to_remove held acc)" for r n
  proof
    assume live: "live s r n"
    note l = live_lock [OF ok live]
    then have "n \<notin> set (ca_unattributed acc)" using p(2) [of n] by auto
    with n obtain m where m: "(m, n) \<in> set (ca_attributed acc)" "m \<notin> file_stem ` set held"
      by (auto simp: to_remove_def split: if_splits)
    have "m = pr_model_id r" "lock_name r \<in> set held" using p(1,3) [OF m(1)] l(4) live by auto
    with m(2) lock_name_stem [OF requests_id [OF l(6)]] show False by force
  qed
  moreover have "is_partial n \<and> n \<in> cs_used s" if "n \<in> set (to_remove held acc)" for n
    using p(1,2) that by (auto simp: to_remove_def split: if_splits)
  ultimately show "worker_ok (becomes w (Removing (to_remove held acc)) (cs_dir s) s) w (Removing (to_remove held acc))"
    by (intro removing_ok) blast+
qed (use final_of [OF ok] in simp_all)

lemma remove_ok:
  assumes ok: "cache_ok os d0 s" and w: "cs_workers s w = Some (Removing (n # ns))"
  shows "cache_ok os d0 (becomes w (Removing ns) ((cs_dir s)(n := None)) s)"
proof (rule becomes_ok [OF ok])
  have p: "worker_ok s w (Removing (n # ns))" using worker_of [OF ok w] .
  then have n: "is_partial n" "\<And>r. \<not> live s r n" by (auto simp: worker_ok_def)
  show "((cs_dir s)(n := None)) (lock_name r) \<noteq> None" if "cs_dir s (lock_name r) \<noteq> None" for r
    using that partial_not_lock [OF n(1), of r] by simp
  show "((cs_dir s)(n := None)) m = cs_dir s m" if "cs_workers s v = Some (Downloading r m got)" for v r m got
    using n(2) [of r] that by (auto simp: live_def)
  show "final_ok os d0 r ((cs_dir s)(n := None))" if "r \<in> requests" for r
    using final_of [OF ok that] by (auto simp: final_ok_def)
  show "worker_ok (becomes w (Removing ns) ((cs_dir s)(n := None)) s) w (Removing ns)"
    using p by (intro removing_ok) (auto simp: worker_ok_def)
qed simp

lemma cache_step_ok:
  assumes "cache_step os s s'" and ok: "cache_ok os d0 s"
  shows "cache_ok os d0 s'"
  using assms(1)
proof cases
  case (lock w r)
  then have "worker_ok s w (LockOpened r)" using worker_of [OF ok] by simp
  with lock show ?thesis
    by (simp only:, intro taken_ok [OF ok]) (simp_all add: worker_ok_def holds_def take_lock_def becomes_def)
next
  case (append_chunk w r tmp got c bs)
  then show ?thesis using append_ok [OF ok] by simp
next
  case (persist w r tmp got c)
  note dl = downloading_ok [OF ok persist(2)]
  have "c = got" using dl(3) persist(4) by simp
  moreover have "pr_file_name r \<noteq> tmp" using partial_not_file [OF dl(4,1)] by simp
  ultimately show ?thesis
    unfolding persist(1) using persist(3) by (intro end_download_ok [OF ok persist(2)]) (simp_all add: final_ok_def)
next
  case (drop_temp w r tmp got)
  note dl = downloading_ok [OF ok drop_temp(2)]
  have "pr_file_name r \<noteq> tmp" using partial_not_file [OF dl(4,1)] by simp
  then have "final_ok os d0 r ((cs_dir s)(tmp := None))" using final_of [OF ok dl(1)] by (simp add: final_ok_def)
  then show ?thesis unfolding drop_temp(1) by (intro end_download_ok [OF ok drop_temp(2)]) simp_all
qed (use ok in \<open>simp_all add: open_lock_ok remove_stale_ok create_ok gone_ok list_dir_ok probe_free_ok probe_held_ok
        probed_ok remove_ok\<close>)

lemma cache_reach_ok: "cache_reach os d0 s \<Longrightarrow> cache_ok os d0 s"
proof (induction rule: cache_reach.induct)
  case start
  show ?case by (auto simp: cache_ok_def cache_start_def final_ok_def split: option.split)
next
  case (step s s')
  then show ?case using cache_step_ok by blast
qed

section \<open>An acquisition is a run of these steps\<close>

text \<open>Worker \<open>w\<close> is at \<open>x\<close>, the other workers are \<open>V\<close>, the locks \<open>L\<close> and the directory \<open>d\<close>.\<close>

definition sits :: "nat \<Rightarrow> (nat \<rightharpoonup> worker) \<Rightarrow> (string \<rightharpoonup> nat) \<Rightarrow> worker \<Rightarrow> directory \<Rightarrow> cache_system \<Rightarrow> bool" where
  "sits w V L x d s \<longleftrightarrow> cs_workers s = V(w \<mapsto> x) \<and> cs_locks s = L \<and> cs_dir s = d"

lemma sits_becomes: "sits w V L x d s \<Longrightarrow> sits w V L x' d' (becomes w x' d' s)"
  by (simp add: sits_def becomes_def)

abbreviation runs :: "prep_os \<Rightarrow> cache_system \<Rightarrow> cache_system \<Rightarrow> bool" where
  "runs os \<equiv> (cache_step os)\<^sup>*\<^sup>*"

lemma emit_progress_dir [simp]: "ps_dir (emit_progress i a b st) = ps_dir st"
  by (simp add: emit_progress_def)

lemma set_dir_dir [simp]: "ps_dir (set_dir d st) = d"
  by (simp add: set_dir_def)

lemma loop_runs:
  assumes "download_loop os r tmp n got evs st = (st', res)" and "sits w V L (Downloading r tmp got) (ps_dir st) s"
    and "ps_dir st tmp = Some got"
  shows "\<exists>s' got'. runs os s s' \<and> sits w V L (Downloading r tmp got') (ps_dir st') s' \<and> ps_dir st' tmp = Some got'
    \<and> (\<forall>c. res = Inr c \<longrightarrow> c = got')"
  using assms
proof (induction os r tmp n got evs st arbitrary: s rule: download_loop.induct)
  case (3 os r tmp n got bs evs st)
  show ?case
  proof (cases "bs = [] \<or> pr_size_bytes r < length got + length bs \<or> os_write os n \<noteq> None")
    case True
    with 3(2-4) show ?thesis by (intro exI [of _ s] exI [of _ got]) (auto split: if_splits option.splits)
  next
    case False
    define st1 where "st1 = set_dir ((ps_dir st)(tmp \<mapsto> got @ bs)) st"
    define st2 where "st2 = (if os_elapsed os n
      then emit_progress (pr_model_id r) (length got + length bs) (pr_size_bytes r) st1 else st1)"
    have d: "ps_dir st2 = (ps_dir st)(tmp \<mapsto> got @ bs)" by (simp add: st2_def st1_def)
    let ?s1 = "becomes w (Downloading r tmp (got @ bs)) ((cs_dir s)(tmp \<mapsto> got @ bs)) s"
    have "cache_step os s ?s1"
      by (rule cache_step.append_chunk) (use 3(3,4) False in \<open>auto simp: sits_def\<close>)
    have at: "sits w V L (Downloading r tmp (got @ bs)) (ps_dir st2) ?s1"
      using 3(3) d by (simp add: sits_def becomes_def)
    have rest: "download_loop os r tmp (Suc n) (got @ bs) evs st2 = (st', res)"
      using 3(2) False by (auto simp: st2_def st1_def Let_def)
    have "ps_dir st2 tmp = Some (got @ bs)" by (simp add: d)
    with 3(1) [OF _ _ _ st1_def st2_def rest at] False obtain s' got' where
      "runs os ?s1 s'" "sits w V L (Downloading r tmp got') (ps_dir st') s'" "ps_dir st' tmp = Some got'"
      "\<forall>c. res = Inr c \<longrightarrow> c = got'" by blast
    with \<open>cache_step os s ?s1\<close> show ?thesis by (meson converse_rtranclp_into_rtranclp)
  qed
qed (auto intro: exI)

lemma into_runs:
  assumes "download_into os r final_path tmp body st = (st', res)" and at: "sits w V L (Downloading r tmp []) (ps_dir st) s"
    and "ps_dir st tmp = Some []"
  shows "\<exists>s'. runs os s s'
    \<and> sits w V L (LockKept r) (case res of Inl _ \<Rightarrow> (ps_dir st')(tmp := None) | Inr _ \<Rightarrow> ps_dir st') s'"
proof -
  let ?st0 = "emit_progress (pr_model_id r) 0 (pr_size_bytes r) st"
  obtain st1 r1 where l: "download_loop os r tmp 0 [] body ?st0 = (st1, r1)"
    by (cases "download_loop os r tmp 0 [] body ?st0")
  obtain s1 got where s1: "runs os s s1" "sits w V L (Downloading r tmp got) (ps_dir st1) s1" "ps_dir st1 tmp = Some got"
    "\<forall>c. r1 = Inr c \<longrightarrow> c = got"
    using loop_runs [OF l, of w V L s] at assms(3) by auto
  have w: "cs_workers s1 w = Some (Downloading r tmp got)" "cs_dir s1 = ps_dir st1" using s1(2) by (simp_all add: sits_def)
  show ?thesis
  proof (cases res)
    case (Inl e)
    then have d: "ps_dir st' = ps_dir st1" using assms(1) l by (auto simp: download_into_def Let_def split: sum.splits option.splits if_splits)
    let ?s2 = "becomes w (LockKept r) ((cs_dir s1)(tmp := None)) s1"
    have "cache_step os s1 ?s2" by (rule cache_step.drop_temp [OF w(1)])
    moreover have "sits w V L (LockKept r) ((ps_dir st')(tmp := None)) ?s2" using sits_becomes [OF s1(2)] w(2) d by (simp add: sits_def)
    ultimately show ?thesis using s1(1) Inl by (auto intro: rtranclp.rtrancl_into_rtrancl)
  next
    case (Inr u)
    then have d: "r1 = Inr got" "digest_matches os (pr_sha256 r) got" "ps_dir st' = (ps_dir st1)(tmp := None, pr_file_name r \<mapsto> got)"
      using assms(1) l s1(4) by (auto simp: download_into_def Let_def split: sum.splits option.splits if_splits)
    let ?s2 = "becomes w (LockKept r) ((cs_dir s1)(tmp := None, pr_file_name r \<mapsto> got)) s1"
    have "cache_step os s1 ?s2" by (rule cache_step.persist [OF w(1) d(2)]) (simp add: w(2) s1(3))
    moreover have "sits w V L (LockKept r) (ps_dir st') ?s2" using sits_becomes [OF s1(2)] w(2) d(3) by (simp add: sits_def)
    ultimately show ?thesis using s1(1) Inr by (auto intro: rtranclp.rtrancl_into_rtrancl)
  qed
qed

text \<open>The temporary name the run will get was never used.\<close>

definition fresh_temp :: "prep_os \<Rightarrow> prepare_request \<Rightarrow> cache_system \<Rightarrow> bool" where
  "fresh_temp os r s \<longleftrightarrow>
     dom (cs_dir s) \<subseteq> cs_used s
     \<and> (case os_temp_name os of
          Inl _ \<Rightarrow> True
        | Inr random \<Rightarrow> random \<noteq> [] \<and> CHR ''.'' \<notin> set random
            \<and> partial_prefix (pr_model_id r) @ random @ PARTIAL_SUFFIX \<notin> cs_used s)"

lemma fresh_becomes:
  assumes "fresh_temp os r s" and "r \<in> requests" and "dom d \<subseteq> insert (lock_name r) (cs_used s)"
  shows "fresh_temp os r (becomes w x d s)"
proof -
  have "partial_prefix (pr_model_id r) @ random @ PARTIAL_SUFFIX \<noteq> lock_name r"
    if "random \<noteq> []" "CHR ''.'' \<notin> set random" for random
    using partial_not_lock [OF temp_name_partial(1) [OF that requests_id [OF assms(2)]]] .
  with assms(1,3) show ?thesis by (auto simp: fresh_temp_def becomes_def split: sum.splits)
qed

lemma fresh_taken: "fresh_temp os r (take_lock w l s) = fresh_temp os r s"
  by (simp add: fresh_temp_def take_lock_def split: sum.split)

lemma verified_runs:
  assumes "download_verified os r final_path dir timeouts st = (st', res)" and at: "sits w V L (LockHeld r) (ps_dir st) s"
    and "ps_dir st (pr_file_name r) = None" and "fresh_temp os r s"
  shows "\<exists>s' x. runs os s s' \<and> x \<in> {LockHeld r, LockKept r} \<and> sits w V L x (ps_dir st') s'"
proof (cases "ps_dir st' = ps_dir st")
  case True
  with at show ?thesis by auto
next
  case False
  then obtain offered body random where f: "os_fetch os timeouts (pr_source_url r) = Inr (offered, body)"
    "\<not> size_mismatch r offered" "os_temp_name os = Inr random"
    using assms(1) by (auto simp: download_verified_def split: sum.splits prod.splits if_splits)
  let ?tmp = "partial_prefix (pr_model_id r) @ random @ PARTIAL_SUFFIX"
  let ?st0 = "set_dir ((ps_dir st)(?tmp \<mapsto> [])) st"
  let ?s1 = "becomes w (Downloading r ?tmp []) ((cs_dir s)(?tmp \<mapsto> [])) s"
  have w: "cs_workers s w = Some (LockHeld r)" "cs_dir s = ps_dir st" using at by (simp_all add: sits_def)
  have "random \<noteq> []" "CHR ''.'' \<notin> set random" "?tmp \<notin> cs_used s" using assms(4) f(3) by (simp_all add: fresh_temp_def)
  then have "cache_step os s ?s1" using w assms(3) by (intro cache_step.create) simp_all
  moreover have "sits w V L (Downloading r ?tmp []) (ps_dir ?st0) ?s1" using sits_becomes [OF at] w(2) by (simp add: sits_def)
  moreover obtain st1 r1 where i: "download_into os r final_path ?tmp body ?st0 = (st1, r1)"
    by (cases "download_into os r final_path ?tmp body ?st0")
  ultimately obtain s' where s': "runs os s s'"
    "sits w V L (LockKept r) (case r1 of Inl _ \<Rightarrow> (ps_dir st1)(?tmp := None) | Inr _ \<Rightarrow> ps_dir st1) s'"
    using into_runs [OF i, of w V L ?s1] by (auto intro: converse_rtranclp_into_rtranclp)
  have "ps_dir st' = (case r1 of Inl _ \<Rightarrow> (ps_dir st1)(?tmp := None) | Inr _ \<Rightarrow> ps_dir st1)"
    using assms(1) f i by (auto simp: download_verified_def Let_def split: sum.splits)
  with s' show ?thesis by auto
qed

lemma emit_done_dir [simp]: "ps_dir (emit_done i p sha st) = ps_dir st"
  by (simp add: emit_done_def)

lemma fresh_runs:
  assumes "acquire_fresh os r final_path dir timeouts st = (st', res)" and "sits w V L (LockHeld r) (ps_dir st) s"
    and "ps_dir st (pr_file_name r) = None" and "fresh_temp os r s"
  shows "\<exists>s' x. runs os s s' \<and> x \<in> {LockHeld r, LockKept r} \<and> sits w V L x (ps_dir st') s'"
proof (cases "preflight_disk os dir (pr_size_bytes r)")
  case (Inl e)
  with assms show ?thesis by (auto simp: acquire_fresh_def)
next
  case (Inr u)
  obtain st1 r1 where v: "download_verified os r final_path dir timeouts st = (st1, r1)"
    by (cases "download_verified os r final_path dir timeouts st")
  with assms(1) Inr have "ps_dir st' = ps_dir st1" by (auto simp: acquire_fresh_def split: sum.splits)
  with verified_runs [OF v assms(2-4)] show ?thesis by simp
qed

lemma locked_runs:
  assumes "acquire_locked os r final_path dir timeouts st = (st', res)" and at: "sits w V L (LockHeld r) (ps_dir st) s"
    and "fresh_temp os r s" and "r \<in> requests"
  shows "\<exists>s' x. runs os s s' \<and> x \<in> {LockHeld r, LockKept r} \<and> sits w V L x (ps_dir st') s'"
proof (cases "ps_dir st (pr_file_name r)")
  case None
  with assms fresh_runs [of os r final_path dir timeouts st st' res w V L s] show ?thesis by (simp add: acquire_locked_def)
next
  case (Some c)
  show ?thesis
  proof (cases "os_read_cached os = None \<and> \<not> digest_matches os (pr_sha256 r) c \<and> os_remove_stale os = None")
    case False
    with Some assms(1) have "ps_dir st' = ps_dir st"
      by (auto simp: acquire_locked_def file_digest_def digest_matches_def split: option.splits if_splits)
    with at show ?thesis by auto
  next
    case True
    let ?d = "(ps_dir st)(pr_file_name r := None)"
    let ?s1 = "becomes w (LockHeld r) ((cs_dir s)(pr_file_name r := None)) s"
    have w: "cs_workers s w = Some (LockHeld r)" "cs_dir s = ps_dir st" using at by (simp_all add: sits_def)
    have "cs_dir s (pr_file_name r) = Some c" "\<not> digest_matches os (pr_sha256 r) c" using w(2) Some True by simp_all
    then have "cache_step os s ?s1" by (rule cache_step.remove_stale [OF w(1)])
    moreover have at1: "sits w V L (LockHeld r) (ps_dir (set_dir ?d st)) ?s1"
      using sits_becomes [OF at] w(2) by (simp add: sits_def)
    moreover have "fresh_temp os r ?s1"
      using assms(3) by (intro fresh_becomes [OF assms(3,4)]) (auto simp: fresh_temp_def)
    moreover have f: "acquire_fresh os r final_path dir timeouts (set_dir ?d st) = (st', res)"
      using assms(1) Some True by (simp add: acquire_locked_def file_digest_def digest_matches_def)
    ultimately show ?thesis
      using fresh_runs [OF f at1] by (auto intro: converse_rtranclp_into_rtranclp)
  qed
qed

text \<open>
  The function \<open>acquire\<close> of theory \<open>Prepare\<close>, in a process that gets its lock at once, is such a run,
  whatever the other workers are doing meanwhile to other models: same directory, and in the end
  no worker and no lock of its own.
\<close>

lemma report_dir: "report r p m st = (st', e) \<Longrightarrow> ps_dir st' = ps_dir st"
  by (auto simp: report_def emit_error_def)

lemma acquire_runs:
  assumes "acquire os r dir st = (st', res)" and r: "r \<in> requests" and "os_try_lock os" and fresh: "fresh_temp os r s"
    and d: "cs_dir s = ps_dir st" and "cs_workers s w = None" and "cs_locks s (lock_name r) = None"
    and none: "\<And>l. cs_locks s l \<noteq> Some w"
  shows "\<exists>s'. runs os s s' \<and> cs_dir s' = ps_dir st' \<and> cs_workers s' = cs_workers s \<and> cs_locks s' = cs_locks s"
proof (cases "os_create_dir os = None \<and> os_open_lock os = None")
  case False
  then have "ps_dir st' = ps_dir st"
    using assms(1) by (auto simp: acquire_def acquire_with_timeouts_def hold_cache_lock_def Let_def
        dest: report_dir split: option.splits prod.splits)
  with d show ?thesis by auto
next
  case True
  define st1 where "st1 = (case ps_dir st (lock_name r) of
    None \<Rightarrow> set_dir ((ps_dir st)(lock_name r \<mapsto> [])) st | Some _ \<Rightarrow> st)"
  define tm where "tm = \<lparr>dt_connect = DOWNLOAD_CONNECT_TIMEOUT, dt_response = DOWNLOAD_RESPONSE_TIMEOUT,
    dt_total = download_total_timeout (pr_size_bytes r)\<rparr>"
  obtain st2 r2 where a: "acquire_locked os r (path_join dir (pr_file_name r)) dir tm st1 = (st2, r2)"
    by (cases "acquire_locked os r (path_join dir (pr_file_name r)) dir tm st1")
  have h: "hold_cache_lock os r dir st = (st1, Inr ())"
    using True assms(3) by (simp add: hold_cache_lock_def st1_def lock_name_def Let_def split: option.split)
  have "ps_dir st' = ps_dir st2"
    using assms(1) True h a by (auto simp: acquire_def acquire_with_timeouts_def tm_def Let_def
        dest: report_dir split: sum.splits prod.splits)
  moreover
  let ?d1 = "case cs_dir s (lock_name r) of None \<Rightarrow> (cs_dir s)(lock_name r \<mapsto> []) | Some _ \<Rightarrow> cs_dir s"
  let ?s1 = "becomes w (LockOpened r) ?d1 s"
  let ?s2 = "take_lock w (lock_name r) (becomes w (LockHeld r) (cs_dir ?s1) ?s1)"
  have d1: "?d1 = ps_dir st1" using d by (simp add: st1_def split: option.split)
  have steps: "cache_step os s ?s1" "cache_step os ?s1 ?s2"
    by (rule cache_step.open_lock [OF assms(6) r], rule cache_step.lock) (simp_all add: becomes_def assms(7))
  have at: "sits w (cs_workers s) ((cs_locks s)(lock_name r \<mapsto> w)) (LockHeld r) (ps_dir st1) ?s2"
    using d1 by (simp add: sits_def becomes_def take_lock_def)
  have f1: "fresh_temp os r ?s1"
    using fresh by (intro fresh_becomes [OF fresh r]) (auto simp: fresh_temp_def split: option.splits)
  have "dom (cs_dir ?s1) \<subseteq> insert (lock_name r) (cs_used ?s1)" using f1 unfolding fresh_temp_def by blast
  then have "fresh_temp os r ?s2" unfolding fresh_taken by (rule fresh_becomes [OF f1 r])
  from locked_runs [OF a at this r] obtain s' x where s': "runs os ?s2 s'" "x \<in> {LockHeld r, LockKept r}"
    "sits w (cs_workers s) ((cs_locks s)(lock_name r \<mapsto> w)) x (ps_dir st2) s'" by blast
  have "cache_step os s' (gone w s')" using s'(2,3) by (intro cache_step.unlock [of s' w r]) (auto simp: sits_def)
  with steps s'(1) have "runs os s (gone w s')"
    by (meson converse_rtranclp_into_rtranclp rtranclp.rtrancl_into_rtrancl)
  moreover have "cs_dir (gone w s') = ps_dir st2" "cs_workers (gone w s') = cs_workers s" "cs_locks (gone w s') = cs_locks s"
    using s'(3) none assms(6,7) by (auto simp: sits_def gone_def fun_eq_iff)
  ultimately show ?thesis by metis
qed

text \<open>
  So is a cleaning: \<open>clean_stale_partials\<close> on the listing of the directory, with the answers that the
  locks of the others give to \<open>try_hold\<close>, removes what a run of the steps removes.
\<close>

lemma probes_run:
  assumes "sits w V L (Probing acc ls held) d s" and "distinct ls"
    and "\<And>l. l \<in> set ls \<Longrightarrow> hold l \<longleftrightarrow> d l \<noteq> None \<and> L l = None"
  shows "\<exists>s'. runs os s s'
    \<and> sits w V (\<lambda>l. if l \<in> set ls \<and> hold l then Some w else L l) (Probing acc [] (held @ filter (\<lambda>l. \<not> hold l) ls)) d s'"
  using assms
proof (induction ls arbitrary: s held L)
  case Nil
  then show ?case by auto
next
  case (Cons l ls)
  have w: "cs_workers s w = Some (Probing acc (l # ls) held)" "cs_dir s = d" "cs_locks s = L"
    using Cons.prems(1) by (simp_all add: sits_def)
  show ?case
  proof (cases "hold l")
    case True
    let ?L = "L(l \<mapsto> w)"
    let ?s1 = "take_lock w l (becomes w (Probing acc ls held) (cs_dir s) s)"
    have step: "cache_step os s ?s1" by (rule cache_step.probe_free [OF w(1)]) (use True Cons.prems(3) w in auto)
    have at: "sits w V ?L (Probing acc ls held) d ?s1"
      using Cons.prems(1) by (simp add: sits_def becomes_def take_lock_def)
    have rest: "distinct ls" "\<And>k. k \<in> set ls \<Longrightarrow> hold k \<longleftrightarrow> d k \<noteq> None \<and> ?L k = None"
      using Cons.prems(2,3) by auto
    obtain s' where s': "runs os ?s1 s'"
      "sits w V (\<lambda>k. if k \<in> set ls \<and> hold k then Some w else ?L k) (Probing acc [] (held @ filter (\<lambda>l. \<not> hold l) ls)) d s'"
      using Cons.IH [OF at rest] by blast
    have locks: "(\<lambda>k. if k \<in> set ls \<and> hold k then Some w else ?L k)
        = (\<lambda>k. if k \<in> set (l # ls) \<and> hold k then Some w else L k)"
      using True by (auto simp: fun_eq_iff)
    show ?thesis
      using s'(2) [unfolded locks] True
      by (intro exI [of _ s'] conjI converse_rtranclp_into_rtranclp [of "cache_step os", OF step s'(1)]) simp_all
  next
    case False
    let ?s1 = "becomes w (Probing acc ls (held @ [l])) (cs_dir s) s"
    have step: "cache_step os s ?s1" by (rule cache_step.probe_held [OF w(1)])
    have at: "sits w V L (Probing acc ls (held @ [l])) d ?s1" using sits_becomes [OF Cons.prems(1)] w(2) by simp
    have rest: "distinct ls" "\<And>k. k \<in> set ls \<Longrightarrow> hold k \<longleftrightarrow> d k \<noteq> None \<and> L k = None"
      using Cons.prems(2,3) by auto
    obtain s' where s': "runs os ?s1 s'"
      "sits w V (\<lambda>k. if k \<in> set ls \<and> hold k then Some w else L k)
        (Probing acc [] ((held @ [l]) @ filter (\<lambda>l. \<not> hold l) ls)) d s'"
      using Cons.IH [OF at rest] by blast
    have locks: "(\<lambda>k. if k \<in> set ls \<and> hold k then Some w else L k)
        = (\<lambda>k. if k \<in> set (l # ls) \<and> hold k then Some w else L k)"
      using False by (auto simp: fun_eq_iff)
    show ?thesis
      using s'(2) [unfolded locks] False
      by (intro exI [of _ s'] conjI converse_rtranclp_into_rtranclp [of "cache_step os", OF step s'(1)]) simp_all
  qed
qed

lemma removes_run:
  assumes "remove_partials rm ns d rs = (d', res)" and "sits w V L (Removing ns) d s"
    and "\<And>n. rm n = RemoveNotFound \<Longrightarrow> d n = None"
  shows "\<exists>s' ns'. runs os s s' \<and> sits w V L (Removing ns') d' s'"
  using assms
proof (induction rm ns d rs arbitrary: s rule: remove_partials.induct)
  case (1 rm d rs)
  then show ?case by auto
next
  case (2 rm n ns d rs)
  have w: "cs_workers s w = Some (Removing (n # ns))" "cs_dir s = d" using 2(4) by (simp_all add: sits_def)
  let ?s1 = "becomes w (Removing ns) ((cs_dir s)(n := None)) s"
  have step: "cache_step os s ?s1" by (rule cache_step.remove [OF w(1)])
  have at: "sits w V L (Removing ns) (d(n := None)) ?s1" using sits_becomes [OF 2(4)] w(2) by simp
  show ?case
  proof (cases "rm n")
    case Removed
    with 2(3) have "remove_partials rm ns (d(n := None)) (rs @ [n]) = (d', res)" by simp
    moreover have "(d(n := None)) k = None" if "rm k = RemoveNotFound" for k using 2(5) that by simp
    ultimately show ?thesis using 2(1) [OF Removed _ at] step by (meson converse_rtranclp_into_rtranclp)
  next
    case RemoveNotFound
    with 2(3,5) have "remove_partials rm ns d rs = (d', res)" "d(n := None) = d" by (auto simp: fun_eq_iff)
    with 2(2) [OF RemoveNotFound this(1) _ 2(5)] at step show ?thesis by (metis converse_rtranclp_into_rtranclp)
  next
    case (RemoveErr e)
    with 2(3,4) show ?thesis by auto
  qed
qed

lemma clean_runs:
  assumes c: "clean_stale_partials (DirEntries (map Inr names)) hold rm (cs_dir s) = (d', res)"
    and names: "set names = dom (cs_dir s)" "distinct names" and "cs_workers s w = None"
    and hold: "\<And>l. hold l \<longleftrightarrow> cs_dir s l \<noteq> None \<and> cs_locks s l = None"
    and none: "\<And>l. cs_locks s l \<noteq> Some w" and rm: "\<And>n. rm n = RemoveNotFound \<Longrightarrow> cs_dir s n = None"
  shows "\<exists>s'. runs os s s' \<and> cs_dir s' = d' \<and> cs_workers s' = cs_workers s \<and> cs_locks s' = cs_locks s"
proof -
  have ex: "\<exists>acc'. classify_entries (map Inr ns) acc = Inr acc'
      \<and> (\<forall>acc'. classify_entries (map Inr ns) acc = Inr acc' \<longrightarrow> ca_locks acc' = ca_locks acc @ filter (\<lambda>n. ends_with n ''.lock'') ns)"
    for ns acc
    by (induction ns arbitrary: acc) (auto simp: classify_entry_def split: option.split)
  obtain acc where acc: "classify_entries (map Inr names) \<lparr>ca_attributed = [], ca_unattributed = [], ca_locks = []\<rparr> = Inr acc"
    and dist: "distinct (ca_locks acc)"
    using ex [of names "\<lparr>ca_attributed = [], ca_unattributed = [], ca_locks = []\<rparr>"] names(2) by auto
  let ?ls = "ca_locks acc"
  let ?held = "filter (\<lambda>l. \<not> hold l) ?ls"
  let ?L = "\<lambda>l. if l \<in> set ?ls \<and> hold l then Some w else cs_locks s l"
  let ?s1 = "becomes w (Probing acc ?ls []) (cs_dir s) s"
  have s1: "cache_step os s ?s1" by (rule cache_step.list_dir [OF assms(4) names(1) acc])
  have "sits w (cs_workers s) (cs_locks s) (Probing acc ?ls []) (cs_dir s) ?s1" by (simp add: sits_def becomes_def)
  from probes_run [OF this dist hold] obtain s2 where s2: "runs os ?s1 s2"
    "sits w (cs_workers s) ?L (Probing acc [] ?held) (cs_dir s) s2" by auto
  let ?s3 = "becomes w (Removing (to_remove ?held acc)) (cs_dir s2) s2"
  have "cs_workers s2 w = Some (Probing acc [] ?held)" using s2(2) by (simp add: sits_def)
  then have s3: "cache_step os s2 ?s3" by (rule cache_step.probed)
  have at3: "sits w (cs_workers s) ?L (Removing (to_remove ?held acc)) (cs_dir s) ?s3"
    using sits_becomes [OF s2(2)] s2(2) by (simp add: sits_def)
  obtain d1 r1 where r: "remove_partials rm (to_remove ?held acc) (cs_dir s) [] = (d1, r1)"
    by (cases "remove_partials rm (to_remove ?held acc) (cs_dir s) []")
  then have "d' = d1" using c acc by (auto simp: clean_stale_partials_to_remove split: sum.splits)
  moreover from removes_run [OF r at3 rm] obtain s4 ns' where s4: "runs os ?s3 s4"
    "sits w (cs_workers s) ?L (Removing ns') d1 s4" by blast
  have "cs_workers s4 w = Some (Removing ns')" using s4(2) by (simp add: sits_def)
  then have "cache_step os s4 (gone w s4)" by (rule cache_step.finish_clean)
  with s1 s2(1) s3 s4(1) have "runs os s (gone w s4)"
    by (meson converse_rtranclp_into_rtranclp rtranclp.rtrancl_into_rtrancl rtranclp_trans)
  moreover have "cs_dir (gone w s4) = d1" "cs_workers (gone w s4) = cs_workers s" "cs_locks (gone w s4) = cs_locks s"
    using s4(2) none assms(4) hold by (auto simp: sits_def gone_def fun_eq_iff)
  ultimately show ?thesis by metis
qed

section \<open>Sharing the cache is safe\<close>

text \<open>
  C9 (safety). Any number of processes share a cache, acquiring the pinned models, cleaning up, and
  dying at any moment, and in every state they reach: the partial of a running download is there
  and holds exactly the bytes its process has received, so that no cleaning ever removed it and
  what is renamed is what was verified; of one model at most one download runs, the others wait;
  and under the final name of a pinned model is what was there at first, nothing, or a file with
  the pinned digest.
\<close>

theorem cache_shared_safely:
  assumes "cache_reach os d0 s"
  shows "(\<forall>w r tmp got. cs_workers s w = Some (Downloading r tmp got) \<longrightarrow>
      cs_dir s tmp = Some got
      \<and> (\<forall>w' r' tmp' got'. cs_workers s w' = Some (Downloading r' tmp' got') \<longrightarrow>
           pr_model_id r' = pr_model_id r \<longrightarrow> w' = w))
    \<and> (\<forall>pin \<in> set manifest. final_ok os d0 (from_pin pin) (cs_dir s))"
proof -
  have ok: "cache_ok os d0 s" using cache_reach_ok [OF assms] .
  have "\<forall>pin \<in> set manifest. final_ok os d0 (from_pin pin) (cs_dir s)"
    using ok by (simp add: cache_ok_def requests_def)
  then show ?thesis using downloading_ok(3) [OF ok] downloads_unique [OF ok] by blast
qed

definition sample_temp :: string where
  "sample_temp = partial_prefix (pr_model_id (from_pin bge_pin)) @ ''x'' @ PARTIAL_SUFFIX"

text \<open>A process that has received one byte, reached from an empty cache.\<close>

lemma sample_download:
  "\<exists>s. cache_reach os Map.empty s \<and> cs_workers s 7 = Some (Downloading (from_pin bge_pin) sample_temp ''a'')"
proof -
  let ?r = "from_pin bge_pin"
  let ?l = "lock_name ?r"
  let ?s0 = "cache_start Map.empty"
  let ?s1 = "becomes 7 (LockOpened ?r) [?l \<mapsto> []] ?s0"
  let ?s2 = "take_lock 7 ?l (becomes 7 (LockHeld ?r) (cs_dir ?s1) ?s1)"
  let ?s3 = "becomes 7 (Downloading ?r sample_temp []) ((cs_dir ?s2)(sample_temp \<mapsto> [])) ?s2"
  let ?s4 = "becomes 7 (Downloading ?r sample_temp ([] @ ''a'')) ((cs_dir ?s3)(sample_temp \<mapsto> [] @ ''a'')) ?s3"
  have r: "?r \<in> requests" by (simp add: requests_pins)
  have p: "is_partial sample_temp" unfolding sample_temp_def by (rule temp_name_partial) (simp_all add: requests_id [OF r])
  have fresh: "sample_temp \<noteq> ?l" "pr_file_name ?r \<noteq> ?l"
    using partial_not_lock [OF p] file_not_lock [OF r] by simp_all
  have "cache_step os ?s0 ?s1"
    using cache_step.open_lock [of ?s0 7 ?r os] r by (simp add: cache_start_def)
  moreover have "cache_step os ?s1 ?s2"
    by (rule cache_step.lock) (simp_all add: becomes_def cache_start_def)
  moreover have "cache_step os ?s2 ?s3"
    by (rule cache_step.create [where random = "''x''"])
      (use fresh in \<open>simp_all add: becomes_def cache_start_def take_lock_def sample_temp_def\<close>)
  moreover have "cache_step os ?s3 ?s4"
    by (rule cache_step.append_chunk) (simp_all add: becomes_def from_pin_def bge_pin_def)
  ultimately have "cache_reach os Map.empty ?s4" by (meson cache_reach.intros)
  moreover have "cs_workers ?s4 7 = Some (Downloading ?r sample_temp ''a'')" by (simp add: becomes_def)
  ultimately show ?thesis by blast
qed

theorem cache_shared_safely_witness:
  "\<exists>s. cache_reach sample_os Map.empty s \<and> cs_workers s 7 = Some (Downloading (from_pin bge_pin) sample_temp ''a'')
    \<and> cs_dir s sample_temp = Some ''a''"
  using sample_download [of sample_os] cache_shared_safely by blast

end
