(* ===== verification/Cli.thy ===== *)
theory Cli
  imports Manifest
begin

text \<open>
  \<open>src/src/main.rs\<close>: the command line of the sidecar and the exit codes of its verbs. The verbs
  themselves (\<open>protocol::serve\<close>, \<open>prepare::run\<close>, \<open>broker::serve\<close>) are arguments of \<open>main_exit\<close>.
  The theorems characterise exactly which argument lists the broker verb accepts and show that
  every parsed command can be written as a command line that parses back to it.
\<close>

section \<open>Definitions\<close>

datatype cli =
    Serve string
  | PrepareCmd "string option"
  | BrokerCmd string string string string
  | Version

definition parse_model :: "string list \<Rightarrow> (string, string option) result" where
  "parse_model args =
     (case args of
        [] \<Rightarrow> Inr None
      | [flag] \<Rightarrow>
          if flag = ''--model'' then Inl ''--model requires a manifest model id''
          else Inl (''unexpected argument: '' @ flag)
      | [flag, v] \<Rightarrow>
          if flag = ''--model'' then
            (if v = [] then Inl ''--model requires a manifest model id'' else Inr (Some v))
          else Inl (''unexpected argument: '' @ flag)
      | first # _ \<Rightarrow> Inl (''unexpected argument: '' @ first))"

record broker_args =
  ba_model :: "string option"
  ba_endpoint :: "string option"
  ba_service_lock :: "string option"
  ba_accelerator_lock :: "string option"

definition no_broker_args :: broker_args where
  "no_broker_args = \<lparr>ba_model = None, ba_endpoint = None, ba_service_lock = None, ba_accelerator_lock = None\<rparr>"

text \<open>\<open>target.replace(value)\<close> for the target a flag names: the old content and the new arguments.\<close>

definition replace_arg :: "string \<Rightarrow> string \<Rightarrow> broker_args \<Rightarrow> (string option \<times> broker_args) option" where
  "replace_arg flag v a =
     (if flag = ''--model'' then Some (ba_model a, a\<lparr>ba_model := Some v\<rparr>)
      else if flag = ''--endpoint'' then Some (ba_endpoint a, a\<lparr>ba_endpoint := Some v\<rparr>)
      else if flag = ''--lock'' then Some (ba_service_lock a, a\<lparr>ba_service_lock := Some v\<rparr>)
      else if flag = ''--accelerator-lock'' then Some (ba_accelerator_lock a, a\<lparr>ba_accelerator_lock := Some v\<rparr>)
      else None)"

fun broker_flags :: "string list \<Rightarrow> broker_args \<Rightarrow> (string, broker_args) result" where
  "broker_flags [] a = Inr a"
| "broker_flags [flag] a = Inl (flag @ '' requires a value'')"
| "broker_flags (flag # v # rest) a =
     (if v = [] then Inl (flag @ '' requires a value'')
      else
        (case replace_arg flag v a of
           None \<Rightarrow> Inl (''unexpected argument: '' @ flag)
         | Some (Some old, a1) \<Rightarrow> Inl (''duplicate argument: '' @ flag)
         | Some (None, a1) \<Rightarrow> broker_flags rest a1))"

definition parse_broker :: "string list \<Rightarrow> (string, cli) result" where
  "parse_broker args =
     (case broker_flags args no_broker_args of
        Inl e \<Rightarrow> Inl e
      | Inr a \<Rightarrow>
          (case ba_model a of
             None \<Rightarrow> Inl ''broker requires --model''
           | Some m \<Rightarrow>
               (case ba_endpoint a of
                  None \<Rightarrow> Inl ''broker requires --endpoint''
                | Some e \<Rightarrow>
                    (case ba_service_lock a of
                       None \<Rightarrow> Inl ''broker requires --lock''
                     | Some s \<Rightarrow>
                         (case ba_accelerator_lock a of
                            None \<Rightarrow> Inl ''broker requires --accelerator-lock''
                          | Some l \<Rightarrow> Inr (BrokerCmd m e s l))))))"

definition cli_parse :: "string list \<Rightarrow> (string, cli) result" where
  "cli_parse args =
     (case args of
        [] \<Rightarrow> Inr (Serve DEFAULT_MODEL_ID)
      | verb # rest \<Rightarrow>
          if verb = ''--version'' \<or> verb = ''-V'' \<or> verb = ''version'' then
            (case rest of [] \<Rightarrow> Inr Version | r # _ \<Rightarrow> Inl (''unexpected argument: '' @ r))
          else if verb = ''serve'' then
            (case parse_model rest of
               Inl e \<Rightarrow> Inl e
             | Inr m \<Rightarrow> Inr (Serve (case m of Some i \<Rightarrow> i | None \<Rightarrow> DEFAULT_MODEL_ID)))
          else if verb = ''prepare'' then
            (case parse_model rest of Inl e \<Rightarrow> Inl e | Inr m \<Rightarrow> Inr (PrepareCmd m))
          else if verb = ''broker'' then parse_broker rest
          else Inl (''unknown verb: '' @ verb))"

text \<open>\<open>main\<close> and \<open>run_broker\<close>: the exit code, for the three verbs given by what they return.\<close>

definition main_exit ::
  "(string \<Rightarrow> (string, unit) result) \<Rightarrow> (string option \<Rightarrow> nat) \<Rightarrow> (string \<Rightarrow> string \<Rightarrow> string \<Rightarrow> string \<Rightarrow> (string, unit) result)
     \<Rightarrow> string list \<Rightarrow> nat" where
  "main_exit serve prepare broker args =
     (case cli_parse args of
        Inr Version \<Rightarrow> 0
      | Inr (Serve model) \<Rightarrow> (case serve model of Inr _ \<Rightarrow> 0 | Inl _ \<Rightarrow> 1)
      | Inr (PrepareCmd model) \<Rightarrow> prepare model
      | Inr (BrokerCmd m e s l) \<Rightarrow> (case broker m e s l of Inr _ \<Rightarrow> 0 | Inl _ \<Rightarrow> 1)
      | Inl _ \<Rightarrow> 2)"

section \<open>The broker's flags\<close>

definition flatten_pairs :: "(string \<times> string) list \<Rightarrow> string list" where
  "flatten_pairs ps = concat (map (\<lambda>(f, v). [f, v]) ps)"

lemma flatten_pairs_simps [simp]:
  "flatten_pairs [] = []" "flatten_pairs ((f, v) # ps) = f # v # flatten_pairs ps"
  by (simp_all add: flatten_pairs_def)

text \<open>The arguments as an association of flags with values.\<close>

definition arg_pair :: "string \<Rightarrow> string option \<Rightarrow> (string \<times> string) set" where
  "arg_pair flag x = (case x of None \<Rightarrow> {} | Some v \<Rightarrow> {(flag, v)})"

lemma arg_pair_simps [simp]: "arg_pair f None = {}" "arg_pair f (Some v) = {(f, v)}"
  by (simp_all add: arg_pair_def)

definition given :: "broker_args \<Rightarrow> (string \<times> string) set" where
  "given a = arg_pair ''--model'' (ba_model a) \<union> arg_pair ''--endpoint'' (ba_endpoint a)
     \<union> arg_pair ''--lock'' (ba_service_lock a) \<union> arg_pair ''--accelerator-lock'' (ba_accelerator_lock a)"

lemma given_empty [simp]: "given no_broker_args = {}"
  by (auto simp: given_def no_broker_args_def)

definition known_flags :: "string set" where
  "known_flags = {''--model'', ''--endpoint'', ''--lock'', ''--accelerator-lock''}"

lemma given_flag:
  "''--model'' \<in> fst ` given a \<longleftrightarrow> ba_model a \<noteq> None"
  "''--endpoint'' \<in> fst ` given a \<longleftrightarrow> ba_endpoint a \<noteq> None"
  "''--lock'' \<in> fst ` given a \<longleftrightarrow> ba_service_lock a \<noteq> None"
  "''--accelerator-lock'' \<in> fst ` given a \<longleftrightarrow> ba_accelerator_lock a \<noteq> None"
  by (auto simp: given_def arg_pair_def image_Un split: option.split)

lemma replace_arg_new:
  "(\<exists>a1. replace_arg f v a = Some (None, a1)) \<longleftrightarrow> f \<in> known_flags \<and> f \<notin> fst ` given a"
  by (simp add: replace_arg_def known_flags_def given_flag del: imp_disjL)

lemma replace_arg_given:
  "replace_arg f v a = Some (None, a1) \<Longrightarrow> given a1 = insert (f, v) (given a)"
  unfolding replace_arg_def by (simp split: if_split_asm) (auto simp: given_def)

lemma broker_flags_pairs:
  "broker_flags args a = Inr a' \<Longrightarrow> \<exists>ps. args = flatten_pairs ps \<and> distinct (map fst ps) \<and> [] \<notin> snd ` set ps
     \<and> fst ` set ps \<inter> fst ` given a = {} \<and> given a' = set ps \<union> given a"
proof (induction args a rule: broker_flags.induct)
  case (1 a)
  then show ?case by (intro exI [of _ "[]"]) simp
next
  case (3 flag v rest a)
  then obtain a1 where v: "v \<noteq> []" and r: "replace_arg flag v a = Some (None, a1)" and run: "broker_flags rest a1 = Inr a'"
    by (auto split: if_splits option.splits)
  from "3.IH" [OF v r refl refl run] obtain ps where ps: "rest = flatten_pairs ps" "distinct (map fst ps)" "[] \<notin> snd ` set ps"
    "fst ` set ps \<inter> fst ` given a1 = {}" "given a' = set ps \<union> given a1"
    by blast
  have "flag \<notin> fst ` given a" using r replace_arg_new [of flag v a] by blast
  with ps v show ?case
    by (intro exI [of _ "(flag, v) # ps"]) (auto simp: replace_arg_given [OF r])
qed simp

lemma broker_flags_flatten:
  "distinct (map fst ps) \<Longrightarrow> [] \<notin> snd ` set ps \<Longrightarrow> fst ` set ps \<subseteq> known_flags \<Longrightarrow> fst ` set ps \<inter> fst ` given a = {}
     \<Longrightarrow> \<exists>a'. broker_flags (flatten_pairs ps) a = Inr a' \<and> given a' = set ps \<union> given a"
proof (induction ps arbitrary: a)
  case (Cons p ps)
  obtain f v where p: "p = (f, v)" by (cases p)
  with Cons.prems obtain a1 where r: "replace_arg f v a = Some (None, a1)" using replace_arg_new [of f v a] by auto
  have "fst ` set ps \<inter> fst ` given a1 = {}" using Cons.prems p by (auto simp: replace_arg_given [OF r])
  then obtain a' where "broker_flags (flatten_pairs ps) a1 = Inr a'" "given a' = set ps \<union> given a1"
    using Cons.IH [of a1] Cons.prems by auto
  with r p Cons.prems show ?case by (auto simp: replace_arg_given [OF r])
qed simp

lemma given_pair:
  "(''--model'', v) \<in> given a \<longleftrightarrow> ba_model a = Some v"
  "(''--endpoint'', v) \<in> given a \<longleftrightarrow> ba_endpoint a = Some v"
  "(''--lock'', v) \<in> given a \<longleftrightarrow> ba_service_lock a = Some v"
  "(''--accelerator-lock'', v) \<in> given a \<longleftrightarrow> ba_accelerator_lock a = Some v"
  by (auto simp: given_def arg_pair_def split: option.split)

lemma given_full:
  "given \<lparr>ba_model = Some m, ba_endpoint = Some e, ba_service_lock = Some s, ba_accelerator_lock = Some l\<rparr>
     = {(''--model'', m), (''--endpoint'', e), (''--lock'', s), (''--accelerator-lock'', l)}"
  unfolding given_def by (simp only: broker_args.simps arg_pair_simps Un_insert_right Un_insert_left Un_empty_left Un_empty_right
      insert_commute)

lemma given_complete:
  "given a = {(''--model'', m), (''--endpoint'', e), (''--lock'', s), (''--accelerator-lock'', l)} \<longleftrightarrow>
     a = \<lparr>ba_model = Some m, ba_endpoint = Some e, ba_service_lock = Some s, ba_accelerator_lock = Some l\<rparr>"
    (is "_ = ?G \<longleftrightarrow> _")
proof
  assume g: "given a = ?G"
  have "(''--model'', m) \<in> given a" "(''--endpoint'', e) \<in> given a" "(''--lock'', s) \<in> given a"
    "(''--accelerator-lock'', l) \<in> given a" unfolding g by simp_all
  then show "a = \<lparr>ba_model = Some m, ba_endpoint = Some e, ba_service_lock = Some s, ba_accelerator_lock = Some l\<rparr>"
    by (simp add: given_pair)
qed (simp only: given_full)

lemma parse_broker_flags:
  "parse_broker args = Inr (BrokerCmd m e s l) \<longleftrightarrow>
     broker_flags args no_broker_args
       = Inr \<lparr>ba_model = Some m, ba_endpoint = Some e, ba_service_lock = Some s, ba_accelerator_lock = Some l\<rparr>"
  by (auto simp: parse_broker_def split: sum.split option.split)

section \<open>What the command line means\<close>

text \<open>The broker verb accepts exactly the argument lists that give each of its four
  flags once, in any order, each with a nonempty value; the parsed command has these values.\<close>
lemma parse_broker_accepts_iff:
  "parse_broker args = Inr (BrokerCmd m e s l) \<longleftrightarrow>
     (\<exists>ps. args = flatten_pairs ps \<and> distinct (map fst ps)
       \<and> set ps = {(''--model'', m), (''--endpoint'', e), (''--lock'', s), (''--accelerator-lock'', l)}
       \<and> m \<noteq> [] \<and> e \<noteq> [] \<and> s \<noteq> [] \<and> l \<noteq> [])"
    (is "?L \<longleftrightarrow> ?R")
proof
  assume ?L
  from broker_flags_pairs [OF this [unfolded parse_broker_flags]] obtain ps where
    "args = flatten_pairs ps" "distinct (map fst ps)" "[] \<notin> snd ` set ps"
    "given \<lparr>ba_model = Some m, ba_endpoint = Some e, ba_service_lock = Some s, ba_accelerator_lock = Some l\<rparr> = set ps"
    by auto
  moreover from this(4) have "set ps = {(''--model'', m), (''--endpoint'', e), (''--lock'', s), (''--accelerator-lock'', l)}"
    by (simp add: given_full)
  ultimately show ?R by (intro exI [of _ ps]) auto
next
  assume ?R
  then obtain ps where ps: "args = flatten_pairs ps" "distinct (map fst ps)"
    "set ps = {(''--model'', m), (''--endpoint'', e), (''--lock'', s), (''--accelerator-lock'', l)}"
    "m \<noteq> []" "e \<noteq> []" "s \<noteq> []" "l \<noteq> []" by blast
  then obtain a' where "broker_flags args no_broker_args = Inr a'" "given a' = set ps"
    using broker_flags_flatten [of ps no_broker_args] by (auto simp: known_flags_def)
  with ps(3) show ?L by (simp add: parse_broker_flags given_complete)
qed

text \<open>The command line of a command, as a supervisor would write it.\<close>

fun cli_args :: "cli \<Rightarrow> string list" where
  "cli_args (Serve m) = [''serve'', ''--model'', m]"
| "cli_args (PrepareCmd None) = [''prepare'']"
| "cli_args (PrepareCmd (Some m)) = [''prepare'', ''--model'', m]"
| "cli_args (BrokerCmd m e s l) = [''broker'', ''--model'', m, ''--endpoint'', e, ''--lock'', s, ''--accelerator-lock'', l]"
| "cli_args Version = [''--version'']"

fun cli_values :: "cli \<Rightarrow> string set" where
  "cli_values (Serve m) = {m}"
| "cli_values (PrepareCmd m) = set_option m"
| "cli_values (BrokerCmd m e s l) = {m, e, s, l}"
| "cli_values Version = {}"

lemma parse_model_nonempty: "parse_model args = Inr (Some m) \<Longrightarrow> m \<noteq> []"
  by (auto simp: parse_model_def split: list.splits if_splits)

lemma parse_broker_nonempty: "parse_broker args = Inr c \<Longrightarrow> [] \<notin> cli_values c"
proof -
  assume p: "parse_broker args = Inr c"
  then obtain m e s l where c: "c = BrokerCmd m e s l" by (auto simp: parse_broker_def split: sum.splits option.splits)
  obtain ps where "[] \<notin> snd ` set ps"
    "given \<lparr>ba_model = Some m, ba_endpoint = Some e, ba_service_lock = Some s, ba_accelerator_lock = Some l\<rparr> = set ps"
    using broker_flags_pairs [OF p [unfolded c parse_broker_flags]] by auto
  moreover from this(2) have "set ps = {(''--model'', m), (''--endpoint'', e), (''--lock'', s), (''--accelerator-lock'', l)}"
    by (simp add: given_full)
  ultimately show ?thesis using c by auto
qed

lemma default_model_nonempty: "DEFAULT_MODEL_ID \<noteq> []"
  by (simp add: DEFAULT_MODEL_ID_def)

lemma cli_args_parse: "[] \<notin> cli_values c \<Longrightarrow> cli_parse (cli_args c) = Inr c"
  by (cases c rule: cli_args.cases) (auto simp: cli_parse_def parse_model_def parse_broker_def replace_arg_def no_broker_args_def)

lemma four_cases:
  obtains (a) A | (b) B | (c) C | (d) D | (other) "\<not> A" "\<not> B" "\<not> C" "\<not> D"
  by blast

lemma cli_parse_nonempty: "cli_parse args = Inr c \<Longrightarrow> [] \<notin> cli_values c"
proof (cases args)
  case (Cons verb rest)
  assume p: "cli_parse args = Inr c"
  show ?thesis
  proof (cases rule: four_cases [where A = "verb = ''--version'' \<or> verb = ''-V'' \<or> verb = ''version''" and B = "verb = ''serve''"
        and C = "verb = ''prepare''" and D = "verb = ''broker''"])
    case a
    with p Cons have "c = Version" by (cases rest) (auto simp: cli_parse_def)
    then show ?thesis by simp
  next
    case b
    with p Cons obtain m where "parse_model rest = Inr m" "c = Serve (case m of Some i \<Rightarrow> i | None \<Rightarrow> DEFAULT_MODEL_ID)"
      by (cases "parse_model rest") (auto simp: cli_parse_def)
    then show ?thesis using parse_model_nonempty default_model_nonempty by (cases m) auto
  next
    case c
    with p Cons obtain m where "parse_model rest = Inr m" "c = PrepareCmd m"
      by (cases "parse_model rest") (auto simp: cli_parse_def)
    then show ?thesis using parse_model_nonempty by (cases m) auto
  next
    case d
    with p Cons have "parse_broker rest = Inr c" by (simp add: cli_parse_def)
    then show ?thesis by (rule parse_broker_nonempty)
  next
    case other
    with p Cons show ?thesis by (simp add: cli_parse_def)
  qed
qed (use default_model_nonempty in \<open>auto simp: cli_parse_def\<close>)

text \<open>Every command the parser accepts has only nonempty values and can be written as a
  command line that parses back to it; a command line the parser refuses ends with exit code 2
  and runs none of the verbs.\<close>
lemma cli_roundtrip:
  "case cli_parse args of
     Inr c \<Rightarrow> [] \<notin> cli_values c \<and> cli_parse (cli_args c) = Inr c
   | Inl e \<Rightarrow> main_exit serve prepare broker args = 2"
proof (cases "cli_parse args")
  case (Inr c)
  with cli_parse_nonempty show ?thesis by (simp add: cli_args_parse)
qed (simp add: main_exit_def)

end
