(* ===== verification/Stdio_Guard.thy ===== *)
theory Stdio_Guard
  imports Prelude
begin

text \<open>
  \<open>src/src/stdio_guard.rs\<close>: the redirect of file descriptor 1 around native calls. The state is
  the descriptor table, what every open file has received, and what Rust's own stdout still
  buffers. What the operating system chooses is a parameter: the descriptor \<open>dup\<close> allocates,
  whether \<open>dup2\<close> succeeds, and how much of its buffer a \<open>print\<close> writes out at once.

  The theorems show that a guarded body, whatever it writes and however guards nest in it,
  leaves the descriptor table as it was, panics included, and adds nothing to the file behind
  stdout but what was buffered before the guard.
\<close>

section \<open>Descriptors\<close>

definition STDOUT :: int where
  "STDOUT = 1"

definition STDERR :: int where
  "STDERR = 2"

record fd_state =
  fds :: "int \<rightharpoonup> nat"
  received :: "nat \<Rightarrow> bytes"
  pending :: bytes

record fd_os =
  os_alloc :: "(int \<rightharpoonup> nat) \<Rightarrow> int option"
  os_dup2 :: "(int \<rightharpoonup> nat) \<Rightarrow> int \<Rightarrow> int \<Rightarrow> bool"
  os_spill :: "bytes \<Rightarrow> nat"

definition sys_dup :: "fd_os \<Rightarrow> int \<Rightarrow> fd_state \<Rightarrow> fd_state \<times> int" where
  "sys_dup os fd s =
     (case fds s fd of
        None \<Rightarrow> (s, -1)
      | Some f \<Rightarrow>
          (case os_alloc os (fds s) of
             None \<Rightarrow> (s, -1)
           | Some n \<Rightarrow> (s\<lparr>fds := (fds s)(n \<mapsto> f)\<rparr>, n)))"

definition sys_dup2 :: "fd_os \<Rightarrow> int \<Rightarrow> int \<Rightarrow> fd_state \<Rightarrow> fd_state \<times> int" where
  "sys_dup2 os source target s =
     (case fds s source of
        None \<Rightarrow> (s, -1)
      | Some f \<Rightarrow>
          if os_dup2 os (fds s) source target then (s\<lparr>fds := (fds s)(target \<mapsto> f)\<rparr>, target) else (s, -1))"

definition sys_close :: "int \<Rightarrow> fd_state \<Rightarrow> fd_state" where
  "sys_close fd s = s\<lparr>fds := (fds s)(fd := None)\<rparr>"

definition fd_write :: "int \<Rightarrow> bytes \<Rightarrow> fd_state \<Rightarrow> fd_state" where
  "fd_write fd bs s =
     (case fds s fd of
        None \<Rightarrow> s
      | Some f \<Rightarrow> s\<lparr>received := (received s)(f := received s f @ bs)\<rparr>)"

text \<open>\<open>std::io::stdout()\<close>: a buffer in front of descriptor 1; a closed descriptor swallows it.\<close>

definition stdout_flush :: "fd_state \<Rightarrow> fd_state" where
  "stdout_flush s = (fd_write STDOUT (pending s) s)\<lparr>pending := []\<rparr>"

definition stdout_print :: "fd_os \<Rightarrow> bytes \<Rightarrow> fd_state \<Rightarrow> fd_state" where
  "stdout_print os bs s =
     (let buf = pending s @ bs; n = os_spill os buf
      in (fd_write STDOUT (take n buf) s)\<lparr>pending := drop n buf\<rparr>)"

section \<open>The guard\<close>

type_synonym silenced_stdout = "int option"

definition silenced_new :: "fd_os \<Rightarrow> fd_state \<Rightarrow> fd_state \<times> silenced_stdout" where
  "silenced_new os s =
     (case sys_dup os STDOUT (stdout_flush s) of
        (s1, saved) \<Rightarrow>
          if saved < 0 then (s1, None)
          else
            (case sys_dup2 os STDERR STDOUT s1 of
               (s2, r) \<Rightarrow> if r < 0 then (sys_close saved s2, None) else (s2, Some saved)))"

definition is_active :: "silenced_stdout \<Rightarrow> bool" where
  "is_active g \<longleftrightarrow> g \<noteq> None"

definition silenced_drop :: "fd_os \<Rightarrow> silenced_stdout \<Rightarrow> fd_state \<Rightarrow> fd_state" where
  "silenced_drop os g s =
     (case g of
        None \<Rightarrow> s
      | Some saved \<Rightarrow> sys_close saved (fst (sys_dup2 os saved STDOUT (stdout_flush s))))"

text \<open>The guard is dropped when \<open>body\<close> returns and when it unwinds; its result carries a panic.\<close>

definition guarded :: "fd_os \<Rightarrow> (fd_state \<Rightarrow> fd_state \<times> 'r) \<Rightarrow> fd_state \<Rightarrow> fd_state \<times> 'r" where
  "guarded os body s =
     (case silenced_new os s of
        (s1, g) \<Rightarrow> (case body s1 of (s2, r) \<Rightarrow> (silenced_drop os g s2, r)))"

lemma guarded_cong [fundef_cong]:
  "os = os' \<Longrightarrow> s = s' \<Longrightarrow> (\<And>t. body t = body' t) \<Longrightarrow> guarded os body s = guarded os' body' s'"
  by (simp add: guarded_def)

text \<open>
  What a body does to the descriptors: native code writes to a descriptor, Rust code prints,
  guards nest, and a panic skips the rest.
\<close>

datatype action = NativeWrite int bytes | Print bytes | Guard "action list" | Panic

fun run_action :: "fd_os \<Rightarrow> action \<Rightarrow> fd_state \<Rightarrow> fd_state \<times> (string, unit) result"
  and run_actions :: "fd_os \<Rightarrow> action list \<Rightarrow> fd_state \<Rightarrow> fd_state \<times> (string, unit) result" where
  "run_action os (NativeWrite fd bs) s = (fd_write fd bs s, Inr ())"
| "run_action os (Print bs) s = (stdout_print os bs s, Inr ())"
| "run_action os (Guard as) s = guarded os (run_actions os as) s"
| "run_action os Panic s = (s, Inl ''panic'')"
| "run_actions os [] s = (s, Inr ())"
| "run_actions os (a # as) s =
     (case run_action os a s of (s1, Inl e) \<Rightarrow> (s1, Inl e) | (s1, Inr _) \<Rightarrow> run_actions os as s1)"

text \<open>What the guard relies on: a fresh nonnegative descriptor, and a \<open>dup2\<close> of an open one onto an open one.\<close>

definition fd_os_ok :: "fd_os \<Rightarrow> bool" where
  "fd_os_ok os \<longleftrightarrow>
     (\<forall>t n. os_alloc os t = Some n \<longrightarrow> t n = None \<and> 0 \<le> n)
     \<and> (\<forall>t a b. t a \<noteq> None \<longrightarrow> t b \<noteq> None \<longrightarrow> os_dup2 os t a b)"

section \<open>What a guard leaves behind\<close>

lemma fd_write_fds [simp]: "fds (fd_write fd bs s) = fds s"
  by (simp add: fd_write_def split: option.split)

lemma stdout_fds [simp]: "fds (stdout_flush s) = fds s" "fds (stdout_print os bs s) = fds s"
  by (simp_all add: stdout_flush_def stdout_print_def Let_def)

lemma silenced_new_result:
  assumes "fd_os_ok os" and "fds s STDOUT = Some out" and "fds s STDERR = Some err"
  shows "silenced_new os s = (case os_alloc os (fds s) of
      None \<Rightarrow> (stdout_flush s, None)
    | Some n \<Rightarrow> ((stdout_flush s)\<lparr>fds := (fds s)(n \<mapsto> out, STDOUT \<mapsto> err)\<rparr>, Some n))"
proof (cases "os_alloc os (fds s)")
  case None
  with assms show ?thesis by (simp add: silenced_new_def sys_dup_def)
next
  case (Some n)
  then have n: "fds s n = None" "0 \<le> n" using assms(1) by (auto simp: fd_os_ok_def)
  then have neq: "n \<noteq> STDOUT" "n \<noteq> STDERR" using assms(2,3) by auto
  then have "os_dup2 os ((fds s)(n \<mapsto> out)) STDERR STDOUT" using assms by (simp add: fd_os_ok_def)
  with assms(2,3) Some n neq show ?thesis
    by (simp add: silenced_new_def sys_dup_def sys_dup2_def STDOUT_def)
qed

text \<open>A guard around a body that keeps the descriptors keeps them.\<close>

lemma guarded_fds:
  assumes "fd_os_ok os" and "fds s STDOUT = Some out" and "fds s STDERR = Some err"
    and body: "\<And>t. fds t STDOUT \<noteq> None \<Longrightarrow> fds t STDERR \<noteq> None \<Longrightarrow> fds (fst (body t)) = fds t"
  shows "fds (fst (guarded os body s)) = fds s"
proof (cases "os_alloc os (fds s)")
  case None
  with silenced_new_result [OF assms(1-3)] show ?thesis
    using body [of "stdout_flush s"] assms(2,3) by (simp add: guarded_def silenced_drop_def split: prod.split)
next
  case (Some n)
  then have n: "fds s n = None" using assms(1) by (auto simp: fd_os_ok_def)
  then have neq: "n \<noteq> STDOUT" "n \<noteq> STDERR" using assms(2,3) by auto
  let ?s1 = "(stdout_flush s)\<lparr>fds := (fds s)(n \<mapsto> out, STDOUT \<mapsto> err)\<rparr>"
  obtain s2 r where b: "body ?s1 = (s2, r)" by (cases "body ?s1")
  then have f: "fds s2 = (fds s)(n \<mapsto> out, STDOUT \<mapsto> err)"
    using body [of ?s1] assms(3) neq by (auto simp: STDOUT_def STDERR_def)
  then have "os_dup2 os (fds s2) n STDOUT" using assms(1) neq by (simp add: fd_os_ok_def)
  moreover have "(fds s)(n \<mapsto> out, STDOUT \<mapsto> err, STDOUT \<mapsto> out, n := None) = fds s"
    using n assms(2) neq by (auto simp: fun_eq_iff)
  ultimately show ?thesis
    using silenced_new_result [OF assms(1-3)] Some b f neq
    by (simp add: guarded_def silenced_drop_def sys_dup2_def sys_close_def)
qed

lemma run_fds:
  "fd_os_ok os \<Longrightarrow> fds s STDOUT \<noteq> None \<Longrightarrow> fds s STDERR \<noteq> None \<Longrightarrow> fds (fst (run_action os a s)) = fds s"
  "fd_os_ok os \<Longrightarrow> fds s STDOUT \<noteq> None \<Longrightarrow> fds s STDERR \<noteq> None \<Longrightarrow> fds (fst (run_actions os as s)) = fds s"
proof (induction os a s and os as s rule: run_action_run_actions.induct)
  case (3 os as s)
  then show ?case using guarded_fds [of os s _ _ "run_actions os as"] by auto
next
  case (6 os a as s)
  then show ?case by (auto split: prod.split sum.split)
qed simp_all

text \<open>While descriptor 1 is redirected, the file behind stdout receives nothing.\<close>

definition redirected :: "nat \<Rightarrow> fd_state \<Rightarrow> bool" where
  "redirected out s \<longleftrightarrow> fds s STDOUT \<noteq> None \<and> fds s STDERR \<noteq> None \<and> (\<forall>fd \<in> {STDOUT, STDERR}. fds s fd \<noteq> Some out)"

fun quiet :: "action \<Rightarrow> bool" where
  "quiet (NativeWrite fd bs) = (fd = STDOUT \<or> fd = STDERR)"
| "quiet (Print bs) = True"
| "quiet (Guard as) = list_all quiet as"
| "quiet Panic = True"

lemma fd_write_received:
  "fds s fd \<noteq> Some out \<Longrightarrow> received (fd_write fd bs s) out = received s out"
  by (auto simp: fd_write_def split: option.split)

lemma guarded_received:
  assumes "fd_os_ok os" and "redirected out s"
    and body: "\<And>t. redirected out t \<Longrightarrow> fds (fst (body t)) = fds t \<and> received (fst (body t)) out = received t out"
  shows "received (fst (guarded os body s)) out = received s out"
proof -
  from assms(2) obtain o' err where o: "fds s STDOUT = Some o'" "fds s STDERR = Some err" "o' \<noteq> out" "err \<noteq> out"
    by (auto simp: redirected_def)
  have fl: "received (stdout_flush t) out = received t out" if "fds t STDOUT \<noteq> Some out" for t
    using that by (simp add: stdout_flush_def fd_write_received)
  show ?thesis
  proof (cases "os_alloc os (fds s)")
    case None
    have "redirected out (stdout_flush s)" using assms(2) by (simp add: redirected_def)
    with body [OF this] None o fl [of s] show ?thesis
      by (simp add: guarded_def silenced_new_result [OF assms(1) o(1,2)] silenced_drop_def split: prod.split)
  next
    case (Some n)
    then have n: "fds s n = None" using assms(1) by (auto simp: fd_os_ok_def)
    then have neq: "n \<noteq> STDOUT" "n \<noteq> STDERR" using o by auto
    let ?s1 = "(stdout_flush s)\<lparr>fds := (fds s)(n \<mapsto> o', STDOUT \<mapsto> err)\<rparr>"
    have "redirected out ?s1" using o neq by (auto simp: redirected_def STDOUT_def STDERR_def)
    with body [OF this] obtain s2 r where b: "body ?s1 = (s2, r)" "fds s2 STDOUT = Some err"
      "received s2 out = received ?s1 out" by (cases "body ?s1") auto
    then show ?thesis
      using Some o fl [of s] fl [of s2]
      by (auto simp: guarded_def silenced_new_result [OF assms(1) o(1,2)] silenced_drop_def sys_close_def sys_dup2_def
          split: option.split)
  qed
qed

lemma run_received:
  "fd_os_ok os \<Longrightarrow> redirected out s \<Longrightarrow> quiet a \<Longrightarrow> received (fst (run_action os a s)) out = received s out"
  "fd_os_ok os \<Longrightarrow> redirected out s \<Longrightarrow> list_all quiet as \<Longrightarrow> received (fst (run_actions os as s)) out = received s out"
proof (induction os a s and os as s rule: run_action_run_actions.induct)
  case (1 os fd bs s)
  then show ?case by (auto simp: redirected_def fd_write_received)
next
  case (2 os bs s)
  then show ?case by (simp add: redirected_def stdout_print_def Let_def fd_write_received)
next
  case (3 os as s)
  have "fds (fst (run_actions os as t)) = fds t \<and> received (fst (run_actions os as t)) out = received t out"
    if "redirected out t" for t
    using that 3 run_fds(2) [of os t as] by (auto simp: redirected_def)
  from guarded_received [OF "3.prems"(1,2), of "run_actions os as", OF this] show ?case by simp
next
  case (6 os a as s)
  obtain s1 r where a: "run_action os a s = (s1, r)" by (cases "run_action os a s")
  have "fds s1 = fds s" using run_fds(1) [of os s a] 6 a by (auto simp: redirected_def)
  then have "redirected out s1" using 6 by (simp add: redirected_def)
  with 6 a show ?case by (cases r) auto
qed simp_all

section \<open>What the guard guarantees\<close>

text \<open>C18 (safety). Stdout is as it was: whatever a guarded body does, prints, native writes, further
  guards or a panic, the descriptor table afterwards is the one before, so that descriptor 1 is
  the real stdout and no saved copy leaks.\<close>
theorem guard_restores_descriptors:
  assumes "fd_os_ok os" and "fds s STDOUT = Some out" and "fds s STDERR = Some err"
  shows "fds (fst (guarded os (run_actions os as) s)) = fds s"
  using guarded_fds [OF assms] run_fds(2) [OF assms(1)] by blast

text \<open>C19 (safety). Stdout purity: with stdout and stderr open on different files and a descriptor to
  spare, the file behind stdout receives exactly what the program itself had buffered before the
  guard, and nothing of what the guarded body prints or writes to descriptors 1 and 2.\<close>
theorem guard_keeps_stdout_pure:
  assumes "fd_os_ok os" and "fds s STDOUT = Some out" and "fds s STDERR = Some err" and "out \<noteq> err"
    and "os_alloc os (fds s) = Some n" and "list_all quiet as"
  shows "received (fst (guarded os (run_actions os as) s)) out = received s out @ pending s
    \<and> pending (fst (guarded os (run_actions os as) s)) = []"
proof -
  have n: "fds s n = None" using assms(1,5) by (auto simp: fd_os_ok_def)
  then have neq: "n \<noteq> STDOUT" "n \<noteq> STDERR" using assms(2,3) by auto
  let ?s1 = "(stdout_flush s)\<lparr>fds := (fds s)(n \<mapsto> out, STDOUT \<mapsto> err)\<rparr>"
  obtain s2 r where b: "run_actions os as ?s1 = (s2, r)" by (cases "run_actions os as ?s1")
  have red: "redirected out ?s1" using assms(3,4) neq by (auto simp: redirected_def STDOUT_def STDERR_def)
  have "received s2 out = received s out @ pending s"
    using run_received(2) [OF assms(1) red assms(6)] b assms(2) by (simp add: stdout_flush_def fd_write_def)
  moreover have "fds s2 STDOUT = Some err"
    using run_fds(2) [OF assms(1), of ?s1 as] b red by (auto simp: redirected_def)
  ultimately show ?thesis
    using assms(4,5) b
    by (auto simp: guarded_def silenced_new_result [OF assms(1-3)] silenced_drop_def sys_close_def sys_dup2_def
        stdout_flush_def fd_write_def split: option.split)
qed

text \<open>An operating system with the lowest free descriptor below 8, and a state with the three standard ones open.\<close>

definition sample_fd_os :: fd_os where
  "sample_fd_os =
     \<lparr>os_alloc = (\<lambda>t. find (\<lambda>n. t n = None) (map int [0..<8])), os_dup2 = (\<lambda>t a b. True), os_spill = (\<lambda>bs. 0)\<rparr>"

definition sample_fds :: fd_state where
  "sample_fds = \<lparr>fds = [0 \<mapsto> 0, 1 \<mapsto> 1, 2 \<mapsto> 2], received = (\<lambda>f. []), pending = ''ok''\<rparr>"

lemma sample_fd_os_ok: "fd_os_ok sample_fd_os"
  by (auto simp: fd_os_ok_def sample_fd_os_def find_Some_iff)

lemma sample_fds_open: "fds sample_fds STDOUT = Some 1" "fds sample_fds STDERR = Some 2"
  by (simp_all add: sample_fds_def STDOUT_def STDERR_def)

theorem guard_restores_descriptors_witness:
  "fds (fst (guarded sample_fd_os (run_actions sample_fd_os [Guard [Print ''a''], NativeWrite 1 ''b'', Panic]) sample_fds))
     = fds sample_fds"
  by (rule guard_restores_descriptors [OF sample_fd_os_ok sample_fds_open])

theorem guard_keeps_stdout_pure_witness:
  "received (fst (guarded sample_fd_os (run_actions sample_fd_os [Guard [Print ''a''], NativeWrite 1 ''b'', Panic]) sample_fds)) 1
     = ''ok''"
proof -
  have alloc: "os_alloc sample_fd_os (fds sample_fds) = Some 3"
    by (simp add: sample_fd_os_def sample_fds_def upt_rec)
  have "list_all quiet [Guard [Print ''a''], NativeWrite 1 ''b'', Panic]" by (simp add: STDOUT_def)
  from guard_keeps_stdout_pure [OF sample_fd_os_ok sample_fds_open _ alloc this] show ?thesis
    by (simp add: sample_fds_def)
qed

end
