(* ===== verification/Package_Manifest.thy ===== *)
theory Package_Manifest
  imports Manifest
begin

text \<open>
  \<open>src/src/package_manifest.rs\<close>: creation and verification of the inventory of a release package.
  The package root is a directory given by its entries in the order \<open>read_dir\<close> lists them, what
  each entry is, and which call fails; \<open>serde_json\<close> and SHA-256 are parameters. A
  \<open>PackageError\<close> carries only a message in the source; here every message is a constructor.

  The lemmas state what a verified package is without mentioning the order of the checks, show
  that the checker accepts exactly these packages, that a package the tool writes verifies, and
  that a changed, added or removed file is detected.
\<close>

section \<open>Data\<close>

definition MANIFEST_FILE :: string where
  "MANIFEST_FILE = ''package-manifest.json''"

definition SCHEMA_VERSION :: nat where
  "SCHEMA_VERSION = 2"

definition NATIVE_PATCH_IDENTITY_PREFIX :: string where
  "NATIVE_PATCH_IDENTITY_PREFIX = ''native_patch=llama-cpp-sys-2-0.1.151:vulkan-repro-v4:''"

datatype package_tier = PortableTier | VendorTier

datatype advertised_backend = AdvMetal | AdvVulkan | AdvCuda

definition backend_as_str :: "advertised_backend \<Rightarrow> string" where
  "backend_as_str b = (case b of AdvMetal \<Rightarrow> ''metal'' | AdvVulkan \<Rightarrow> ''vulkan'' | AdvCuda \<Rightarrow> ''cuda'')"

datatype package_file_role =
    Executable | CoreRuntime | CpuBackend | AcceleratorBackend | License | ThirdPartyLicenses | Readme

record package_profile =
  prof_rust_target :: string
  prof_tier :: package_tier
  prof_advertised_backend :: advertised_backend
  prof_native_build_identity :: string

record model_policy =
  policy_ids :: "string list"
  policy_default_id :: string

record package_file =
  pf_path :: string
  pf_sha256 :: string
  pf_size :: nat
  pf_role :: package_file_role

record package_manifest =
  schema_version :: nat
  pm_sidecar_version :: string
  pm_rust_target :: string
  pm_tier :: package_tier
  pm_advertised_backend :: advertised_backend
  pm_native_build_identity :: string
  pm_model_policy :: model_policy
  pm_files :: "package_file list"

datatype package_error =
    CannotEncode string | CannotCreateTemporary string | CannotWriteManifest string | CannotInstall string
  | CannotReadManifest string | InvalidManifestJson string
  | UndeclaredFile string | DeclaredFileMissing string
  | RoleMismatch string | SizeMismatch string | ChecksumMismatch string
  | PatchIdentityMissing | PatchIdentityInvalid
  | UnsupportedSchema | SidecarVersionMismatch | ModelPolicyMismatch | FilesNotSorted
  | InvalidRustTarget | DevelopmentPath | UnsupportedProfile
  | CannotReadRoot string | CannotReadEntry string | CannotInspectEntry string | NotRegularFile string
  | ModelWeightForbidden string | CannotInspect string string | CannotReadFile string | CannotHashFile string
  | UnsupportedPackageFile string | BackendDisagrees string string | UnsupportedNativeLibrary string
  | MissingRole string | MetalHasPlugins | NotOneAccelerator
  | PathEscapesRoot | PathNotUtf8 | InvalidPackagePath string

section \<open>The package root\<close>

datatype node = Regular bytes | OtherNode

datatype fs_call =
    ReadDir | ReadEntry string | FileType string | Metadata string | OpenFile string | HashFile string
  | ReadManifest | TempCreate | TempWrite | TempPersist

text \<open>
  \<open>fs_names\<close> is the directory in listing order, \<open>fs_modified\<close> the modification times in
  nanoseconds since the epoch, and \<open>fs_error\<close> says which calls fail and how. The files are
  reached by a path below the root, whose last component is the name.
\<close>

record pkg_fs =
  fs_names :: "string list"
  fs_node :: "string \<Rightarrow> node"
  fs_modified :: "string \<Rightarrow> nat"
  fs_error :: "fs_call \<Rightarrow> string option"

definition fs_try :: "pkg_fs \<Rightarrow> fs_call \<Rightarrow> (string \<Rightarrow> package_error) \<Rightarrow> (package_error, unit) result" where
  "fs_try fs call err = (case fs_error fs call of None \<Rightarrow> Inr () | Some e \<Rightarrow> Inl (err e))"

definition file_bytes :: "pkg_fs \<Rightarrow> string \<Rightarrow> bytes option" where
  "file_bytes fs n =
     (if n \<in> set (fs_names fs) then (case fs_node fs n of Regular c \<Rightarrow> Some c | OtherNode \<Rightarrow> None) else None)"

definition path_base :: "path \<Rightarrow> string" where
  "path_base p = (case path_file_name p of Some n \<Rightarrow> n | None \<Rightarrow> [])"

text \<open>\<open>serde_json\<close> on the manifest: \<open>to_vec_pretty\<close> and \<open>from_slice\<close>.\<close>

record pkg_codec =
  pkg_to_vec_pretty :: "package_manifest \<Rightarrow> (string, bytes) result"
  pkg_from_slice :: "bytes \<Rightarrow> (string, package_manifest) result"

text \<open>A manifest that was printed, with the newline \<open>write\<close> adds, reads back.\<close>

definition pkg_codec_roundtrip :: "pkg_codec \<Rightarrow> bool" where
  "pkg_codec_roundtrip codec \<longleftrightarrow>
     (\<forall>p bs. pkg_to_vec_pretty codec p = Inr bs \<longrightarrow> pkg_from_slice codec (bs @ [newline]) = Inr p)"

section \<open>Names\<close>

text \<open>\<open>root.join(s)\<close> for a relative path \<open>s\<close>, and the path below the root as a string.\<close>

definition path_push :: "path \<Rightarrow> string \<Rightarrow> path" where
  "path_push base s =
     (let q = path_of s
      in if path_absolute q then q
         else base\<lparr>path_components := path_components base @ filter (\<lambda>w. w \<noteq> ''.'') (path_components q)\<rparr>)"

definition relative_name :: "path \<Rightarrow> path \<Rightarrow> (package_error, string) result" where
  "relative_name base p =
     (if path_absolute p = path_absolute base
         \<and> take (length (path_components base)) (path_components p) = path_components base then
        (let relative = join_str ''/'' (drop (length (path_components base)) (path_components p))
         in if utf8_valid relative then Inr relative else Inl PathNotUtf8)
      else Inl PathEscapesRoot)"

definition valid_relative_path :: "string \<Rightarrow> bool" where
  "valid_relative_path s \<longleftrightarrow>
     s \<noteq> [] \<and> backslash \<notin> set s \<and> \<not> path_absolute (path_of s)
     \<and> (case path_components (path_of s) of [w] \<Rightarrow> w \<noteq> ''.'' \<and> w \<noteq> ''..'' | _ \<Rightarrow> False)"

definition validate_relative_path :: "string \<Rightarrow> (package_error, unit) result" where
  "validate_relative_path s = ensure (valid_relative_path s) (InvalidPackagePath s)"

definition is_native_library :: "string \<Rightarrow> bool" where
  "is_native_library name =
     (let lowercase = to_ascii_lowercase name
      in ends_with lowercase ''.dll'' \<or> contains_str lowercase ''.so'' \<or> contains_str lowercase ''.dylib'')"

definition is_model_weight :: "string \<Rightarrow> bool" where
  "is_model_weight name =
     list_ex (\<lambda>extension. ends_with (to_ascii_lowercase name) extension)
       [''.gguf'', ''.onnx'', ''.safetensors'', ''.pt'', ''.pth'']"

definition classify :: "string \<Rightarrow> package_profile \<Rightarrow> (package_error, package_file_role) result" where
  "classify name profile =
     (let executable = (if contains_str (prof_rust_target profile) ''windows'' then ''julie-semantic-sidecar.exe''
                        else ''julie-semantic-sidecar'');
          lowercase = to_ascii_lowercase name
      in if name = executable then Inr Executable
         else if name = ''LICENSE'' then Inr License
         else if name = ''THIRD_PARTY-LICENSES.html'' then Inr ThirdPartyLicenses
         else if name = ''README.md'' then Inr Readme
         else if \<not> is_native_library name then Inl (UnsupportedPackageFile name)
         else if contains_str lowercase ''ggml-cpu'' then Inr CpuBackend
         else
           (case find (\<lambda>backend. contains_str lowercase (''ggml-'' @ backend)) [''metal'', ''vulkan'', ''cuda'', ''hip'', ''sycl''] of
              Some backend \<Rightarrow>
                if backend = backend_as_str (prof_advertised_backend profile) \<and> prof_advertised_backend profile \<noteq> AdvMetal
                then Inr AcceleratorBackend
                else Inl (BackendDisagrees name (backend_as_str (prof_advertised_backend profile)))
            | None \<Rightarrow>
                if starts_with lowercase ''libggml'' \<or> starts_with lowercase ''libllama''
                   \<or> starts_with lowercase ''ggml'' \<or> starts_with lowercase ''llama''
                then Inr CoreRuntime
                else Inl (UnsupportedNativeLibrary name)))"

section \<open>Describing the directory\<close>

fun payload_entries :: "pkg_fs \<Rightarrow> path \<Rightarrow> string list \<Rightarrow> (package_error, path list) result" where
  "payload_entries fs base [] = Inr []"
| "payload_entries fs base (name # names) =
     and_then (fs_try fs (ReadEntry name) CannotReadEntry) (\<lambda>_.
       if name = MANIFEST_FILE then payload_entries fs base names
       else
         and_then (fs_try fs (FileType name) CannotInspectEntry) (\<lambda>_.
           case fs_node fs name of
             OtherNode \<Rightarrow> Inl (NotRegularFile (path_display (path_join base name)))
           | Regular _ \<Rightarrow>
               and_then (payload_entries fs base names) (\<lambda>paths. Inr (path_join base name # paths))))"

definition payload_files :: "pkg_fs \<Rightarrow> path \<Rightarrow> (package_error, path list) result" where
  "payload_files fs base =
     and_then (fs_try fs ReadDir CannotReadRoot) (\<lambda>_. payload_entries fs base (fs_names fs))"

definition file_sha256 :: "(bytes \<Rightarrow> bytes) \<Rightarrow> pkg_fs \<Rightarrow> path \<Rightarrow> (package_error, string) result" where
  "file_sha256 sha fs p =
     and_then (fs_try fs (OpenFile (path_base p)) CannotReadFile) (\<lambda>_.
       case file_bytes fs (path_base p) of
         None \<Rightarrow> Inl (CannotReadFile (path_display p))
       | Some content \<Rightarrow>
           and_then (fs_try fs (HashFile (path_base p)) CannotHashFile) (\<lambda>_. Inr (hex (sha content))))"

definition describe_file ::
  "(bytes \<Rightarrow> bytes) \<Rightarrow> pkg_fs \<Rightarrow> path \<Rightarrow> path \<Rightarrow> package_profile \<Rightarrow> (package_error, package_file) result" where
  "describe_file sha fs base p profile =
     and_then (relative_name base p) (\<lambda>relative.
     and_then (validate_relative_path relative) (\<lambda>_.
     and_then (ensure (\<not> is_model_weight relative) (ModelWeightForbidden relative)) (\<lambda>_.
     and_then (classify relative profile) (\<lambda>role.
     and_then (fs_try fs (Metadata (path_base p)) (CannotInspect relative)) (\<lambda>_.
       case file_bytes fs (path_base p) of
         None \<Rightarrow> Inl (CannotInspect relative ''not found'')
       | Some content \<Rightarrow>
           and_then (file_sha256 sha fs p) (\<lambda>digest.
             Inr \<lparr>pf_path = relative, pf_sha256 = digest, pf_size = length content, pf_role = role\<rparr>))))))"

section \<open>The rules of a package\<close>

definition identity_is_development_path :: "string \<Rightarrow> bool" where
  "identity_is_development_path i \<longleftrightarrow> i = [] \<or> CHR ''/'' \<in> set i \<or> backslash \<in> set i \<or> contains_str i ''.worktrees''"

definition rust_target_ok :: "string \<Rightarrow> bool" where
  "rust_target_ok t \<longleftrightarrow>
     t \<noteq> [] \<and> list_all (\<lambda>c. is_ascii_alphanumeric c \<or> c = CHR ''.'' \<or> c = CHR ''_'' \<or> c = CHR ''-'') t"

definition profile_supported :: "package_profile \<Rightarrow> bool" where
  "profile_supported p =
     (case (prof_advertised_backend p, prof_tier p) of
        (AdvMetal, PortableTier) \<Rightarrow> prof_rust_target p \<in> {''aarch64-apple-darwin'', ''x86_64-apple-darwin''}
      | (AdvVulkan, PortableTier) \<Rightarrow> prof_rust_target p \<in> {''x86_64-unknown-linux-gnu'', ''x86_64-pc-windows-msvc''}
      | (AdvCuda, VendorTier) \<Rightarrow> prof_rust_target p \<in> {''x86_64-unknown-linux-gnu'', ''x86_64-pc-windows-msvc''}
      | _ \<Rightarrow> False)"

definition validate_profile :: "package_profile \<Rightarrow> (package_error, unit) result" where
  "validate_profile p =
     and_then (ensure (rust_target_ok (prof_rust_target p)) InvalidRustTarget) (\<lambda>_.
     and_then (ensure (\<not> identity_is_development_path (prof_native_build_identity p)) DevelopmentPath) (\<lambda>_.
       ensure (profile_supported p) UnsupportedProfile))"

definition package_model_policy :: model_policy where
  "package_model_policy = \<lparr>policy_ids = sort (map pin_id manifest), policy_default_id = DEFAULT_MODEL_ID\<rparr>"

definition role_count :: "package_file list \<Rightarrow> package_file_role \<Rightarrow> nat" where
  "role_count files role = length (filter (\<lambda>f. pf_role f = role) files)"

definition required_once :: "(package_file_role \<times> string) list" where
  "required_once = [(Executable, ''executable''), (License, ''license''),
     (ThirdPartyLicenses, ''third-party licenses''), (Readme, ''readme'')]"

definition required_native :: "(package_file_role \<times> string) list" where
  "required_native = [(CoreRuntime, ''core runtime''), (CpuBackend, ''CPU backend''),
     (AcceleratorBackend, ''advertised accelerator'')]"

definition validate_shape :: "package_manifest \<Rightarrow> (package_error, unit) result" where
  "validate_shape p =
     (let count = role_count (pm_files p)
      in case find (\<lambda>(role, name). count role \<noteq> 1) required_once of
           Some (role, name) \<Rightarrow> Inl (MissingRole name)
         | None \<Rightarrow>
             (case pm_advertised_backend p of
                AdvMetal \<Rightarrow>
                  ensure (count CoreRuntime + count CpuBackend + count AcceleratorBackend = 0) MetalHasPlugins
              | _ \<Rightarrow>
                  (case find (\<lambda>(role, name). count role = 0) required_native of
                     Some (role, name) \<Rightarrow> Inl (MissingRole name)
                   | None \<Rightarrow> ensure (count AcceleratorBackend = 1) NotOneAccelerator)))"

definition profile_of :: "package_manifest \<Rightarrow> package_profile" where
  "profile_of p =
     \<lparr>prof_rust_target = pm_rust_target p, prof_tier = pm_tier p,
      prof_advertised_backend = pm_advertised_backend p,
      prof_native_build_identity = pm_native_build_identity p\<rparr>"

text \<open>\<open>windows(2).all(|pair| pair[0].path < pair[1].path)\<close>.\<close>

fun paths_increase :: "package_file list \<Rightarrow> bool" where
  "paths_increase (f # g # fs) \<longleftrightarrow> pf_path f < pf_path g \<and> paths_increase (g # fs)"
| "paths_increase fs \<longleftrightarrow> True"

definition validate_manifest_metadata :: "package_manifest \<Rightarrow> (package_error, unit) result" where
  "validate_manifest_metadata p =
     and_then (ensure (schema_version p = SCHEMA_VERSION) UnsupportedSchema) (\<lambda>_.
     and_then (ensure (pm_sidecar_version p = VERSION) SidecarVersionMismatch) (\<lambda>_.
     and_then (validate_profile (profile_of p)) (\<lambda>_.
     and_then (ensure (pm_model_policy p = package_model_policy) ModelPolicyMismatch) (\<lambda>_.
       ensure (paths_increase (pm_files p)) FilesNotSorted))))"

section \<open>Creating and verifying\<close>

definition create :: "(bytes \<Rightarrow> bytes) \<Rightarrow> pkg_fs \<Rightarrow> path \<Rightarrow> package_profile \<Rightarrow> (package_error, package_manifest) result" where
  "create sha fs base profile =
     and_then (validate_profile profile) (\<lambda>_.
     and_then (payload_files fs base) (\<lambda>paths.
     and_then (collect_results (\<lambda>p. describe_file sha fs base p profile) paths) (\<lambda>files.
       let package =
         \<lparr>schema_version = SCHEMA_VERSION, pm_sidecar_version = VERSION,
          pm_rust_target = prof_rust_target profile, pm_tier = prof_tier profile,
          pm_advertised_backend = prof_advertised_backend profile,
          pm_native_build_identity = prof_native_build_identity profile,
          pm_model_policy = package_model_policy, pm_files = sort_key pf_path files\<rparr>
       in and_then (validate_shape package) (\<lambda>_. Inr package))))"

text \<open>The manifest read, parsed and checked on its own; also the first half of \<open>runtime_identity\<close>.\<close>

definition read_manifest :: "pkg_codec \<Rightarrow> pkg_fs \<Rightarrow> (package_error, bytes \<times> package_manifest) result" where
  "read_manifest codec fs =
     and_then (fs_try fs ReadManifest CannotReadManifest) (\<lambda>_.
       case file_bytes fs MANIFEST_FILE of
         None \<Rightarrow> Inl (CannotReadManifest ''not found'')
       | Some raw \<Rightarrow>
           and_then (map_err InvalidManifestJson (pkg_from_slice codec raw)) (\<lambda>package.
           and_then (collect_results (\<lambda>f. validate_relative_path (pf_path f)) (pm_files package)) (\<lambda>_.
           and_then (validate_manifest_metadata package) (\<lambda>_.
           and_then (validate_shape package) (\<lambda>_. Inr (raw, package))))))"

text \<open>\<open>BTreeSet::difference\<close>, in increasing order.\<close>

definition btree_difference :: "string list \<Rightarrow> string list \<Rightarrow> string list" where
  "btree_difference xs ys = filter (\<lambda>x. x \<notin> set ys) (sort (remdups xs))"

definition compare_names :: "string list \<Rightarrow> string list \<Rightarrow> (package_error, unit) result" where
  "compare_names actual declared =
     (case btree_difference actual declared of
        n # _ \<Rightarrow> Inl (UndeclaredFile n)
      | [] \<Rightarrow>
          (case btree_difference declared actual of
             n # _ \<Rightarrow> Inl (DeclaredFileMissing n)
           | [] \<Rightarrow> Inr ()))"

definition verify_file ::
  "(bytes \<Rightarrow> bytes) \<Rightarrow> pkg_fs \<Rightarrow> path \<Rightarrow> package_profile \<Rightarrow> package_file \<Rightarrow> (package_error, unit) result" where
  "verify_file sha fs base profile declared =
     and_then (describe_file sha fs base (path_push base (pf_path declared)) profile) (\<lambda>observed.
     and_then (ensure (pf_role observed = pf_role declared) (RoleMismatch (pf_path declared))) (\<lambda>_.
     and_then (ensure (pf_size observed = pf_size declared) (SizeMismatch (pf_path declared))) (\<lambda>_.
       ensure (pf_sha256 observed = pf_sha256 declared) (ChecksumMismatch (pf_path declared)))))"

definition verify ::
  "(bytes \<Rightarrow> bytes) \<Rightarrow> pkg_codec \<Rightarrow> pkg_fs \<Rightarrow> path \<Rightarrow> (package_error, package_manifest) result" where
  "verify sha codec fs base =
     and_then (read_manifest codec fs) (\<lambda>(raw, package).
     and_then (payload_files fs base) (\<lambda>paths.
     and_then (collect_results (relative_name base) paths) (\<lambda>actual.
     and_then (compare_names actual (map pf_path (pm_files package))) (\<lambda>_.
     and_then (collect_results (verify_file sha fs base (profile_of package)) (pm_files package)) (\<lambda>_.
       Inr package)))))"

text \<open>The manifest is written beside the payload and renamed over the old one in one step.\<close>

definition put_manifest :: "bytes \<Rightarrow> pkg_fs \<Rightarrow> pkg_fs" where
  "put_manifest content fs =
     fs\<lparr>fs_names := (if MANIFEST_FILE \<in> set (fs_names fs) then fs_names fs else fs_names fs @ [MANIFEST_FILE]),
        fs_node := (fs_node fs)(MANIFEST_FILE := Regular content)\<rparr>"

definition write_package ::
  "(bytes \<Rightarrow> bytes) \<Rightarrow> pkg_codec \<Rightarrow> pkg_fs \<Rightarrow> path \<Rightarrow> package_profile
     \<Rightarrow> pkg_fs \<times> (package_error, package_manifest) result" where
  "write_package sha codec fs base profile =
     (case and_then (create sha fs base profile) (\<lambda>package.
           and_then (map_err CannotEncode (pkg_to_vec_pretty codec package)) (\<lambda>encoded.
           and_then (fs_try fs TempCreate CannotCreateTemporary) (\<lambda>_.
           and_then (fs_try fs TempWrite CannotWriteManifest) (\<lambda>_.
           and_then (fs_try fs TempPersist CannotInstall) (\<lambda>_. Inr (encoded @ [newline])))))) of
        Inl e \<Rightarrow> (fs, Inl e)
      | Inr content \<Rightarrow> (let fs' = put_manifest content fs in (fs', verify sha codec fs' base)))"

text \<open>\<open>str::split(';')\<close>.\<close>

fun split_semicolon :: "string \<Rightarrow> string list" where
  "split_semicolon [] = [[]]"
| "split_semicolon (c # cs) =
     (if c = CHR '';'' then [] # split_semicolon cs
      else case split_semicolon cs of [] \<Rightarrow> [[c]] | w # ws \<Rightarrow> (c # w) # ws)"

definition patch_digest_ok :: "string \<Rightarrow> bool" where
  "patch_digest_ok digest \<longleftrightarrow>
     length digest = 64 \<and> list_all (\<lambda>c. is_ascii_digit c \<or> 97 \<le> byte_of c \<and> byte_of c \<le> 102) digest"

definition check_patched :: "package_manifest \<Rightarrow> (package_error, unit) result" where
  "check_patched package =
     (case find (\<lambda>v. starts_with v ''native_patch='') (split_semicolon (pm_native_build_identity package)) of
        None \<Rightarrow> Inl PatchIdentityMissing
      | Some patch_identity \<Rightarrow>
          (case strip_prefix patch_identity NATIVE_PATCH_IDENTITY_PREFIX of
             None \<Rightarrow> Inl PatchIdentityInvalid
           | Some digest \<Rightarrow> ensure (patch_digest_ok digest) PatchIdentityInvalid))"

definition verify_patched ::
  "(bytes \<Rightarrow> bytes) \<Rightarrow> pkg_codec \<Rightarrow> pkg_fs \<Rightarrow> path \<Rightarrow> (package_error, package_manifest) result" where
  "verify_patched sha codec fs base =
     and_then (verify sha codec fs base) (\<lambda>package. and_then (check_patched package) (\<lambda>_. Inr package))"

text \<open>\<open>runtime_identity\<close>: the manifest's bytes, then path, size and modification time of every native file.\<close>

definition is_native_role :: "package_file_role \<Rightarrow> bool" where
  "is_native_role r \<longleftrightarrow> r = CoreRuntime \<or> r = CpuBackend \<or> r = AcceleratorBackend"

definition native_stamp :: "pkg_fs \<Rightarrow> path \<Rightarrow> package_file \<Rightarrow> (package_error, bytes) result" where
  "native_stamp fs base f =
     (let p = path_push base (pf_path f)
      in and_then (fs_try fs (Metadata (path_base p)) (CannotInspect (path_display p))) (\<lambda>_.
         case file_bytes fs (path_base p) of
           None \<Rightarrow> Inl (CannotInspect (path_display p) ''not found'')
         | Some content \<Rightarrow>
             Inr (le_bytes 8 (length (pf_path f)) @ pf_path f @ le_bytes 8 (length content)
                  @ le_bytes 16 (fs_modified fs (path_base p)))))"

definition runtime_identity ::
  "(bytes \<Rightarrow> bytes) \<Rightarrow> pkg_codec \<Rightarrow> pkg_fs \<Rightarrow> path \<Rightarrow> (package_error, string) result" where
  "runtime_identity sha codec fs base =
     and_then (read_manifest codec fs) (\<lambda>(raw, package).
     and_then (collect_results (native_stamp fs base) (filter (\<lambda>f. is_native_role (pf_role f)) (pm_files package))) (\<lambda>stamps.
       Inr (hex (sha (raw @ concat stamps)))))"

section \<open>What a verified package is\<close>

text \<open>No call fails, and the directory has distinct, proper names, as an operating system guarantees.\<close>

definition fs_quiet :: "pkg_fs \<Rightarrow> bool" where
  "fs_quiet fs \<longleftrightarrow> (\<forall>c. fs_error fs c = None)"

definition proper_name :: "string \<Rightarrow> bool" where
  "proper_name n \<longleftrightarrow> n \<noteq> [] \<and> CHR ''/'' \<notin> set n \<and> n \<noteq> ''.'' \<and> n \<noteq> ''..''"

definition fs_names_ok :: "pkg_fs \<Rightarrow> bool" where
  "fs_names_ok fs \<longleftrightarrow> distinct (fs_names fs) \<and> list_all proper_name (fs_names fs)"

definition payload :: "pkg_fs \<Rightarrow> string list" where
  "payload fs = filter (\<lambda>n. n \<noteq> MANIFEST_FILE) (fs_names fs)"

text \<open>A payload file a package may contain, and its description.\<close>

definition described :: "(bytes \<Rightarrow> bytes) \<Rightarrow> pkg_fs \<Rightarrow> package_profile \<Rightarrow> package_file \<Rightarrow> bool" where
  "described sha fs profile f \<longleftrightarrow>
     utf8_valid (pf_path f) \<and> backslash \<notin> set (pf_path f) \<and> \<not> is_model_weight (pf_path f)
     \<and> classify (pf_path f) profile = Inr (pf_role f)
     \<and> (\<exists>c. file_bytes fs (pf_path f) = Some c \<and> pf_size f = length c \<and> pf_sha256 f = hex (sha c))"

definition shape_ok :: "package_manifest \<Rightarrow> bool" where
  "shape_ok p \<longleftrightarrow>
     role_count (pm_files p) Executable = 1 \<and> role_count (pm_files p) License = 1
     \<and> role_count (pm_files p) ThirdPartyLicenses = 1 \<and> role_count (pm_files p) Readme = 1
     \<and> (if pm_advertised_backend p = AdvMetal
        then role_count (pm_files p) CoreRuntime = 0 \<and> role_count (pm_files p) CpuBackend = 0
             \<and> role_count (pm_files p) AcceleratorBackend = 0
        else 0 < role_count (pm_files p) CoreRuntime \<and> 0 < role_count (pm_files p) CpuBackend
             \<and> role_count (pm_files p) AcceleratorBackend = 1)"

definition profile_ok :: "package_profile \<Rightarrow> bool" where
  "profile_ok profile \<longleftrightarrow> rust_target_ok (prof_rust_target profile)
     \<and> \<not> identity_is_development_path (prof_native_build_identity profile) \<and> profile_supported profile"

definition metadata_ok :: "package_manifest \<Rightarrow> bool" where
  "metadata_ok p \<longleftrightarrow>
     schema_version p = SCHEMA_VERSION \<and> pm_sidecar_version p = VERSION \<and> profile_ok (profile_of p)
     \<and> pm_model_policy p = package_model_policy \<and> sorted_wrt (<) (map pf_path (pm_files p))"

definition sound_package :: "(bytes \<Rightarrow> bytes) \<Rightarrow> pkg_fs \<Rightarrow> package_manifest \<Rightarrow> bool" where
  "sound_package sha fs p \<longleftrightarrow>
     metadata_ok p \<and> shape_ok p \<and> pf_path ` set (pm_files p) = set (payload fs)
     \<and> list_all (described sha fs (profile_of p)) (pm_files p)"

section \<open>Names of files\<close>

lemma split_slash_single: "CHR ''/'' \<notin> set n \<Longrightarrow> split_slash n = [n]"
  by (induction n) auto

lemma path_of_proper: "proper_name n \<Longrightarrow> path_of n = \<lparr>path_absolute = False, path_components = [n]\<rparr>"
  by (auto simp: path_of_def proper_name_def split_slash_single starts_with_def Let_def neq_Nil_conv)

lemma path_push_proper: "proper_name n \<Longrightarrow> path_push base n = path_join base n"
  by (auto simp: path_push_def path_of_proper path_join_def proper_name_def)

lemma valid_relative_proper: "proper_name n \<Longrightarrow> valid_relative_path n \<longleftrightarrow> backslash \<notin> set n"
  by (auto simp: valid_relative_path_def path_of_proper proper_name_def)

lemma relative_name_join [simp]:
  "relative_name base (path_join base n) = (if utf8_valid n then Inr n else Inl PathNotUtf8)"
  by (simp add: relative_name_def path_join_def)

lemma path_base_join [simp]: "path_base (path_join base n) = n"
  by (simp add: path_base_def)

section \<open>The checks one by one\<close>

named_theorems checks \<open>what each check accepts\<close>

lemma fs_try_quiet [simp]: "fs_quiet fs \<Longrightarrow> fs_try fs c err = Inr ()"
  by (simp add: fs_try_def fs_quiet_def)

lemma validate_relative_path_iff [checks]: "validate_relative_path s = Inr u \<longleftrightarrow> valid_relative_path s"
  by (simp add: validate_relative_path_def)

lemma validate_profile_iff [checks]: "validate_profile p = Inr u \<longleftrightarrow> profile_ok p"
  by (simp add: validate_profile_def profile_ok_def and_then_Inr_iff)

lemma paths_increase_iff: "paths_increase fs \<longleftrightarrow> sorted_wrt (<) (map pf_path fs)"
proof (induction fs rule: paths_increase.induct)
  case (1 f g fs)
  then show ?case by (auto dest: less_trans)
qed simp_all

lemma validate_manifest_metadata_iff [checks]: "validate_manifest_metadata p = Inr u \<longleftrightarrow> metadata_ok p"
  by (auto simp: validate_manifest_metadata_def metadata_ok_def and_then_Inr_iff checks paths_increase_iff)

lemma validate_shape_iff [checks]: "validate_shape p = Inr u \<longleftrightarrow> shape_ok p"
  by (cases "pm_advertised_backend p")
    (auto simp: validate_shape_def shape_ok_def required_once_def required_native_def Let_def split: if_splits)

lemma collect_checks_iff:
  fixes f :: "'a \<Rightarrow> ('e, unit) result"
  shows "(\<exists>us. collect_results f xs = Inr us) \<longleftrightarrow> list_all (\<lambda>x. f x = Inr ()) xs"
  by (induction xs) (auto split: sum.splits)

lemma btree_difference_Nil: "btree_difference xs ys = [] \<longleftrightarrow> set xs \<subseteq> set ys"
  by (auto simp: btree_difference_def filter_empty_conv)

lemma compare_names_iff [checks]: "compare_names xs ys = Inr u \<longleftrightarrow> set xs = set ys"
proof -
  have "compare_names xs ys = Inr u \<longleftrightarrow> btree_difference xs ys = [] \<and> btree_difference ys xs = []"
    by (auto simp: compare_names_def split: list.split)
  then show ?thesis by (auto simp: btree_difference_Nil)
qed

lemma payload_entries_iff:
  assumes "fs_quiet fs"
  shows "payload_entries fs base names = Inr ps \<longleftrightarrow>
    ps = map (path_join base) (filter (\<lambda>n. n \<noteq> MANIFEST_FILE) names)
    \<and> (\<forall>n\<in>set names. n \<noteq> MANIFEST_FILE \<longrightarrow> (\<exists>c. fs_node fs n = Regular c))"
proof (induction names arbitrary: ps)
  case (Cons n names)
  then show ?case
    using assms by (cases "fs_node fs n") (auto simp: and_then_Inr_iff)
qed auto

lemma payload_files_iff:
  assumes "fs_quiet fs"
  shows "payload_files fs base = Inr ps \<longleftrightarrow>
    ps = map (path_join base) (payload fs) \<and> (\<forall>n\<in>set (payload fs). file_bytes fs n \<noteq> None)"
proof -
  have "(\<exists>c. fs_node fs n = Regular c) \<longleftrightarrow> file_bytes fs n \<noteq> None" if "n \<in> set (fs_names fs)" for n
    using that by (auto simp: file_bytes_def split: node.splits)
  then show ?thesis
    using assms by (auto simp: payload_files_def payload_entries_iff payload_def)
qed

lemma describe_file_iff:
  assumes "fs_quiet fs" and "proper_name n"
  shows "describe_file sha fs base (path_join base n) profile = Inr f \<longleftrightarrow> pf_path f = n \<and> described sha fs profile f"
proof -
  have "describe_file sha fs base (path_join base n) profile = Inr f \<longleftrightarrow>
      utf8_valid n \<and> backslash \<notin> set n \<and> \<not> is_model_weight n \<and> (\<exists>r c. classify n profile = Inr r \<and> file_bytes fs n = Some c
      \<and> f = \<lparr>pf_path = n, pf_sha256 = hex (sha c), pf_size = length c, pf_role = r\<rparr>)"
    using assms
    by (auto simp: describe_file_def and_then_Inr_iff checks valid_relative_proper file_sha256_def split: option.splits)
  also have "\<dots> \<longleftrightarrow> pf_path f = n \<and> described sha fs profile f"
    by (cases f) (auto simp: described_def)
  finally show ?thesis .
qed

lemma verify_file_iff:
  assumes "fs_quiet fs" and "proper_name (pf_path f)"
  shows "verify_file sha fs base profile f = Inr u \<longleftrightarrow> described sha fs profile f"
proof -
  have "verify_file sha fs base profile f = Inr u \<longleftrightarrow>
     (\<exists>g. pf_path g = pf_path f \<and> described sha fs profile g \<and> pf_role g = pf_role f \<and> pf_size g = pf_size f \<and> pf_sha256 g = pf_sha256 f)"
    using assms by (simp add: verify_file_def and_then_Inr_iff path_push_proper describe_file_iff conj_ac)
  also have "\<dots> \<longleftrightarrow> described sha fs profile f"
    by (auto simp: described_def)
  finally show ?thesis .
qed

lemma read_manifest_iff:
  assumes "fs_quiet fs"
  shows "read_manifest codec fs = Inr (raw, p) \<longleftrightarrow>
    file_bytes fs MANIFEST_FILE = Some raw \<and> pkg_from_slice codec raw = Inr p
    \<and> list_all (\<lambda>f. valid_relative_path (pf_path f)) (pm_files p) \<and> metadata_ok p \<and> shape_ok p"
proof -
  have "(\<exists>us. collect_results (\<lambda>f. validate_relative_path (pf_path f)) (pm_files p) = Inr us)
      \<longleftrightarrow> list_all (\<lambda>f. valid_relative_path (pf_path f)) (pm_files p)"
    by (simp add: collect_checks_iff checks)
  then show ?thesis
    using assms by (auto simp: read_manifest_def and_then_Inr_iff checks split: option.split)
qed

section \<open>Verification\<close>

lemma payload_proper: "fs_names_ok fs \<Longrightarrow> n \<in> set (payload fs) \<Longrightarrow> proper_name n"
  by (auto simp: fs_names_ok_def payload_def list_all_iff)

lemma payload_names_iff:
  "collect_results (relative_name base) (map (path_join base) ns) = Inr xs \<longleftrightarrow> xs = ns \<and> list_all utf8_valid ns"
proof -
  have "list_all2 (\<lambda>n x. relative_name base (path_join base n) = Inr x) ns xs \<longleftrightarrow> xs = ns \<and> list_all utf8_valid ns"
  proof (induction ns arbitrary: xs)
    case (Cons n ns)
    then show ?case by (cases xs) (auto simp del: utf8_valid.simps split: if_splits)
  qed simp
  then show ?thesis by (simp add: collect_results_Inr_iff list_all2_map1)
qed

lemma verify_iff:
  assumes q: "fs_quiet fs" and ok: "fs_names_ok fs"
  shows "verify sha codec fs base = Inr p \<longleftrightarrow>
    (\<exists>raw. file_bytes fs MANIFEST_FILE = Some raw \<and> pkg_from_slice codec raw = Inr p) \<and> sound_package sha fs p"
    (is "?V \<longleftrightarrow> ?S")
proof -
  have files: "(\<exists>us. collect_results (verify_file sha fs base (profile_of p)) (pm_files p) = Inr us)
      \<longleftrightarrow> list_all (described sha fs (profile_of p)) (pm_files p)"
    if "pf_path ` set (pm_files p) = set (payload fs)"
  proof -
    have "proper_name (pf_path f)" if "f \<in> set (pm_files p)" for f
      using that \<open>pf_path ` set (pm_files p) = set (payload fs)\<close> payload_proper [OF ok] by auto
    then show ?thesis using verify_file_iff [OF q] by (auto simp: collect_checks_iff list_all_iff)
  qed
  have paths: "list_all (\<lambda>f. valid_relative_path (pf_path f)) (pm_files p)" "\<forall>n\<in>set (payload fs). file_bytes fs n \<noteq> None"
    "list_all utf8_valid (payload fs)"
    if "pf_path ` set (pm_files p) = set (payload fs)" "list_all (described sha fs (profile_of p)) (pm_files p)"
  proof -
    have f: "proper_name (pf_path f)" "described sha fs (profile_of p) f" if "f \<in> set (pm_files p)" for f
      using that \<open>pf_path ` set (pm_files p) = set (payload fs)\<close> payload_proper [OF ok]
        \<open>list_all (described sha fs (profile_of p)) (pm_files p)\<close> by (auto simp: list_all_iff)
    show "list_all (\<lambda>f. valid_relative_path (pf_path f)) (pm_files p)"
      using f by (auto simp: list_all_iff valid_relative_proper described_def)
    have "n \<in> pf_path ` set (pm_files p) \<Longrightarrow> file_bytes fs n \<noteq> None \<and> utf8_valid n" for n
      using f by (auto simp: described_def)
    then show "\<forall>n\<in>set (payload fs). file_bytes fs n \<noteq> None" "list_all utf8_valid (payload fs)"
      using that(1) by (auto simp: list_all_iff)
  qed
  have "?V \<longleftrightarrow> (\<exists>raw. read_manifest codec fs = Inr (raw, p)) \<and> (\<forall>n\<in>set (payload fs). file_bytes fs n \<noteq> None)
      \<and> list_all utf8_valid (payload fs) \<and> set (payload fs) = pf_path ` set (pm_files p)
      \<and> (\<exists>us. collect_results (verify_file sha fs base (profile_of p)) (pm_files p) = Inr us)"
    by (auto simp: verify_def and_then_Inr_iff payload_files_iff [OF q] payload_names_iff checks)
  also have "\<dots> \<longleftrightarrow> ?S"
    using files paths by (auto simp: read_manifest_iff [OF q] sound_package_def)
  finally show ?thesis .
qed

section \<open>Writing\<close>

lemma describe_all_iff:
  assumes "fs_quiet fs" and "list_all proper_name ns"
  shows "collect_results (\<lambda>p. describe_file sha fs base p profile) (map (path_join base) ns) = Inr fl \<longleftrightarrow>
    map pf_path fl = ns \<and> list_all (described sha fs profile) fl"
proof -
  have "list_all2 (\<lambda>n f. describe_file sha fs base (path_join base n) profile = Inr f) ns fl
      \<longleftrightarrow> map pf_path fl = ns \<and> list_all (described sha fs profile) fl"
    using assms(2)
  proof (induction ns arbitrary: fl)
    case (Cons n ns)
    then show ?case using describe_file_iff [OF assms(1)] by (cases fl) auto
  qed auto
  then show ?thesis by (simp add: collect_results_Inr_iff list_all2_map1)
qed

lemma create_sound:
  assumes q: "fs_quiet fs" and ok: "fs_names_ok fs" and c: "create sha fs base profile = Inr p"
  shows "sound_package sha fs p"
proof -
  have proper: "list_all proper_name (payload fs)" using payload_proper [OF ok] by (simp add: list_all_iff)
  have dist: "distinct (payload fs)" using ok by (simp add: fs_names_ok_def payload_def)
  from c obtain fl where fl: "profile_ok profile" "map pf_path fl = payload fs" "list_all (described sha fs profile) fl"
    and p: "p = \<lparr>schema_version = SCHEMA_VERSION, pm_sidecar_version = VERSION,
        pm_rust_target = prof_rust_target profile, pm_tier = prof_tier profile,
        pm_advertised_backend = prof_advertised_backend profile,
        pm_native_build_identity = prof_native_build_identity profile,
        pm_model_policy = package_model_policy, pm_files = sort_key pf_path fl\<rparr>"
    and shape: "shape_ok p"
    by (auto simp: create_def and_then_Inr_iff checks payload_files_iff [OF q] describe_all_iff [OF q proper] Let_def)
  have prof: "profile_of p = profile" by (simp add: p profile_of_def)
  have "distinct (map pf_path (sort_key pf_path fl))"
    using dist by (simp add: fl(2) [symmetric] distinct_map)
  then have "sorted_wrt (<) (map pf_path (pm_files p))" by (simp add: p strict_sorted_iff)
  then have "metadata_ok p" using fl(1) by (simp add: metadata_ok_def prof) (simp add: p)
  moreover have "pf_path ` set (pm_files p) = set (payload fs)" using fl(2) by (simp add: p flip: fl(2))
  moreover have "list_all (described sha fs (profile_of p)) (pm_files p)"
    using fl(3) by (simp only: prof) (simp add: p list_all_iff)
  ultimately show ?thesis using shape by (simp add: sound_package_def)
qed

lemma put_manifest_facts [simp]:
  "payload (put_manifest c fs) = payload fs"
  "fs_quiet (put_manifest c fs) = fs_quiet fs"
  "file_bytes (put_manifest c fs) MANIFEST_FILE = Some c"
  "n \<noteq> MANIFEST_FILE \<Longrightarrow> file_bytes (put_manifest c fs) n = file_bytes fs n"
  by (simp_all add: put_manifest_def payload_def fs_quiet_def file_bytes_def)

lemma put_manifest_names_ok [simp]: "fs_names_ok fs \<Longrightarrow> fs_names_ok (put_manifest c fs)"
  by (simp add: fs_names_ok_def put_manifest_def) (simp add: proper_name_def MANIFEST_FILE_def)

lemma sound_put_manifest:
  assumes "sound_package sha fs p"
  shows "sound_package sha (put_manifest c fs) p"
proof -
  have n: "pf_path f \<noteq> MANIFEST_FILE" if "f \<in> set (pm_files p)" for f
    using assms that by (auto simp: sound_package_def payload_def set_eq_iff image_iff)
  have "described sha (put_manifest c fs) (profile_of p) f \<longleftrightarrow> described sha fs (profile_of p) f"
    if "f \<in> set (pm_files p)" for f
    using n [OF that] by (simp add: described_def)
  with assms show ?thesis by (simp add: sound_package_def list_all_iff)
qed

lemma write_package_verifies:
  assumes "fs_quiet fs" and "fs_names_ok fs" and "pkg_codec_roundtrip codec"
    and "create sha fs base profile = Inr p" and "pkg_to_vec_pretty codec p = Inr bs"
  shows "write_package sha codec fs base profile = (put_manifest (bs @ [newline]) fs, Inr p)"
proof -
  have "verify sha codec (put_manifest (bs @ [newline]) fs) base = Inr p"
    using assms create_sound [OF assms(1,2,4)]
    by (simp add: verify_iff sound_put_manifest pkg_codec_roundtrip_def)
  with assms show ?thesis by (simp add: write_package_def Let_def)
qed

section \<open>An example package\<close>

definition metal_profile :: package_profile where
  "metal_profile =
     \<lparr>prof_rust_target = ''aarch64-apple-darwin'', prof_tier = PortableTier, prof_advertised_backend = AdvMetal,
      prof_native_build_identity = ''n''\<rparr>"

definition metal_root :: pkg_fs where
  "metal_root =
     \<lparr>fs_names = [''README.md'', ''LICENSE'', ''julie-semantic-sidecar'', ''THIRD_PARTY-LICENSES.html''],
      fs_node = (\<lambda>n. Regular n), fs_modified = (\<lambda>n. 0), fs_error = (\<lambda>c. None)\<rparr>"

definition metal_file :: "string \<Rightarrow> package_file_role \<Rightarrow> package_file" where
  "metal_file n r = \<lparr>pf_path = n, pf_sha256 = hex [], pf_size = length n, pf_role = r\<rparr>"

definition metal_package :: package_manifest where
  "metal_package =
     \<lparr>schema_version = SCHEMA_VERSION, pm_sidecar_version = VERSION, pm_rust_target = ''aarch64-apple-darwin'',
      pm_tier = PortableTier, pm_advertised_backend = AdvMetal, pm_native_build_identity = ''n'',
      pm_model_policy = package_model_policy,
      pm_files = [metal_file ''LICENSE'' License, metal_file ''README.md'' Readme,
        metal_file ''THIRD_PARTY-LICENSES.html'' ThirdPartyLicenses, metal_file ''julie-semantic-sidecar'' Executable]\<rparr>"

definition metal_codec :: pkg_codec where
  "metal_codec =
     \<lparr>pkg_to_vec_pretty = (\<lambda>p. if p = metal_package then Inr ''m'' else Inl ''e''),
      pkg_from_slice = (\<lambda>bs. if bs = ''m'' @ [newline] then Inr metal_package else Inl ''e'')\<rparr>"

lemma metal_facts: "fs_quiet metal_root" "fs_names_ok metal_root" "pkg_codec_roundtrip metal_codec"
  by (simp_all add: metal_root_def metal_codec_def fs_quiet_def fs_names_ok_def proper_name_def pkg_codec_roundtrip_def)

lemma metal_profile_ok: "profile_ok metal_profile"
  by (simp add: profile_ok_def metal_profile_def rust_target_ok_def identity_is_development_path_def
      profile_supported_def is_ascii_alphanumeric_def is_ascii_digit_def byte_of_def starts_with_def backslash_def)

lemma metal_paths_increase: "sorted_wrt (<) (map pf_path (pm_files metal_package))"
  by (simp add: metal_package_def metal_file_def less_char_def)

lemma metal_described: "list_all (described (\<lambda>bs. []) metal_root metal_profile) (pm_files metal_package)"
  by (simp add: metal_package_def metal_file_def described_def metal_root_def file_bytes_def classify_def metal_profile_def
      is_model_weight_def to_ascii_lowercase_def ascii_lower_def byte_of_def ends_with_def backslash_def starts_with_def)
    (simp add: char_of_def bit_simps bit_0)

lemma metal_shape: "shape_ok metal_package"
  by (simp add: shape_ok_def metal_package_def metal_file_def role_count_def)

lemma metal_sound: "sound_package (\<lambda>bs. []) metal_root metal_package"
proof -
  have prof: "profile_of metal_package = metal_profile"
    by (simp add: profile_of_def metal_package_def metal_profile_def)
  have "metadata_ok metal_package"
    using metal_paths_increase metal_profile_ok by (simp add: metadata_ok_def prof) (simp add: metal_package_def)
  moreover have "pf_path ` set (pm_files metal_package) = set (payload metal_root)"
    by (auto simp: metal_package_def metal_file_def payload_def metal_root_def MANIFEST_FILE_def)
  ultimately show ?thesis using metal_described metal_shape by (simp add: sound_package_def prof)
qed

text \<open>The files in listing order.\<close>

lemma metal_create: "create (\<lambda>bs. []) metal_root base metal_profile = Inr metal_package"
proof -
  let ?files = "[metal_file ''README.md'' Readme, metal_file ''LICENSE'' License,
    metal_file ''julie-semantic-sidecar'' Executable, metal_file ''THIRD_PARTY-LICENSES.html'' ThirdPartyLicenses]"
  have names: "map pf_path ?files = payload metal_root"
    by (simp add: metal_file_def payload_def metal_root_def MANIFEST_FILE_def)
  have "set ?files = set (pm_files metal_package)" by (auto simp: metal_package_def)
  then have desc: "list_all (described (\<lambda>bs. []) metal_root metal_profile) ?files"
    using metal_described by (simp only: list_all_iff)
  have proper: "list_all proper_name (payload metal_root)"
    using payload_proper [OF metal_facts(2)] by (simp add: list_all_iff)
  have present: "\<forall>n\<in>set (payload metal_root). file_bytes metal_root n \<noteq> None"
    by (simp add: payload_def metal_root_def file_bytes_def)
  have sorted: "sort_key pf_path ?files = pm_files metal_package"
    by (simp add: metal_package_def metal_file_def less_char_def)
  from names desc have "collect_results (\<lambda>p. describe_file (\<lambda>bs. []) metal_root base p metal_profile)
      (map (path_join base) (payload metal_root)) = Inr ?files"
    by (simp only: describe_all_iff [OF metal_facts(1) proper])
  moreover have "payload_files metal_root base = Inr (map (path_join base) (payload metal_root))"
    using present by (simp add: payload_files_iff [OF metal_facts(1)])
  moreover have "validate_profile metal_profile = Inr ()" by (simp add: checks metal_profile_ok)
  moreover have "\<lparr>schema_version = SCHEMA_VERSION, pm_sidecar_version = VERSION,
      pm_rust_target = prof_rust_target metal_profile, pm_tier = prof_tier metal_profile,
      pm_advertised_backend = prof_advertised_backend metal_profile,
      pm_native_build_identity = prof_native_build_identity metal_profile,
      pm_model_policy = package_model_policy, pm_files = sort_key pf_path ?files\<rparr> = metal_package"
    unfolding sorted by (simp add: metal_package_def metal_profile_def)
  moreover have "validate_shape metal_package = Inr ()" by (simp add: checks metal_shape)
  ultimately show ?thesis by (simp only: create_def and_then_simps Let_def)
qed

lemma metal_verifies:
  "verify (\<lambda>bs. []) metal_codec (put_manifest (''m'' @ [newline]) metal_root) base = Inr metal_package"
  using metal_sound metal_facts by (simp add: verify_iff sound_put_manifest) (simp add: metal_codec_def)

section \<open>What verification guarantees\<close>

text \<open>C11 (equivalence). The verifier accepts exactly the sound packages: on a directory whose calls do not
  fail, \<open>verify\<close> returns a manifest if and only if that is what \<open>package-manifest.json\<close> holds, its
  metadata, profile, model policy and shape are the required ones, its file list is strictly
  sorted and names exactly the files present, and every file is a permitted kind of file with the
  recorded role, size and digest. Files are never accepted by default and none is skipped.\<close>
theorem verify_accepts_iff:
  assumes "fs_quiet fs" and "fs_names_ok fs"
  shows "verify sha codec fs base = Inr p \<longleftrightarrow>
    (\<exists>raw. file_bytes fs MANIFEST_FILE = Some raw \<and> pkg_from_slice codec raw = Inr p) \<and> sound_package sha fs p"
  using assms by (rule verify_iff)

theorem verify_accepts_iff_witness:
  "sound_package (\<lambda>bs. []) (put_manifest (''m'' @ [newline]) metal_root) metal_package"
  using verify_accepts_iff [of "put_manifest (''m'' @ [newline]) metal_root" "\<lambda>bs. []" metal_codec "path_of ''/p''" metal_package]
    metal_verifies [of "path_of ''/p''"] metal_facts by simp

text \<open>C40 (roundtrip). What the tool creates, it verifies: a package that \<open>create\<close> describes is written with
  its manifest and passes verification, whatever else was in an earlier manifest.\<close>
theorem written_package_verifies:
  assumes "fs_quiet fs" and "fs_names_ok fs" and "pkg_codec_roundtrip codec"
    and "create sha fs base profile = Inr p" and "pkg_to_vec_pretty codec p = Inr bs"
  shows "write_package sha codec fs base profile = (put_manifest (bs @ [newline]) fs, Inr p)"
  using assms by (rule write_package_verifies)

theorem written_package_verifies_witness:
  "write_package (\<lambda>bs. []) metal_codec metal_root (path_of ''/p'') metal_profile
     = (put_manifest (''m'' @ [newline]) metal_root, Inr metal_package)"
  by (rule written_package_verifies [OF metal_facts metal_create]) (simp add: metal_codec_def)

text \<open>Tampering is detected: two directories with the same manifest that both verify hold the
  same payload files, each with the same size and digest; so no file was added, removed or
  changed to content with another size or digest between the two.\<close>
lemma same_manifest_same_payload:
  assumes "fs_quiet fs" "fs_names_ok fs" "fs_quiet fs'" "fs_names_ok fs'"
    and "file_bytes fs MANIFEST_FILE = file_bytes fs' MANIFEST_FILE"
    and "verify sha codec fs base = Inr p" and "verify sha codec fs' base' = Inr p'"
    and "n \<in> set (payload fs) \<union> set (payload fs')"
  shows "\<exists>c c'. file_bytes fs n = Some c \<and> file_bytes fs' n = Some c' \<and> length c = length c' \<and> hex (sha c) = hex (sha c')"
proof -
  from assms have s: "sound_package sha fs p" "sound_package sha fs' p'" "p = p'"
    by (auto simp: verify_iff)
  then have "n \<in> pf_path ` set (pm_files p)" using assms(8) by (auto simp: sound_package_def)
  then obtain f where "f \<in> set (pm_files p)" "pf_path f = n" by blast
  with s have "described sha fs (profile_of p) f" "described sha fs' (profile_of p) f"
    by (auto simp: sound_package_def list_all_iff)
  with \<open>pf_path f = n\<close> show ?thesis by (auto simp: described_def)
qed

lemma same_manifest_same_payload_witness:
  "\<exists>c c'. file_bytes (put_manifest (''m'' @ [newline]) metal_root) ''LICENSE'' = Some c
     \<and> file_bytes (put_manifest (''m'' @ [newline]) metal_root) ''LICENSE'' = Some c' \<and> length c = length c' \<and> hex [] = hex []"
proof -
  have "''LICENSE'' \<in> set (payload metal_root)" by (simp add: payload_def metal_root_def MANIFEST_FILE_def)
  with same_manifest_same_payload [OF _ _ _ _ refl metal_verifies metal_verifies, of "''LICENSE''"] metal_facts
  show ?thesis by simp
qed

end
