(* ===== verification/Package_Cli.thy ===== *)
theory Package_Cli
  imports Package_Manifest Cli
begin

text \<open>
  \<open>src/src/bin/julie-package-manifest.rs\<close>: the command line of the packaging tool over
  \<open>package_manifest\<close>. Errors carry the exit code: 2 for a usage error, 1 for a failed command.
\<close>

section \<open>Definitions\<close>

datatype tool_error = UsageError string | CommandFailed package_error

definition exit_code :: "tool_error \<Rightarrow> nat" where
  "exit_code e = (case e of UsageError m \<Rightarrow> 2 | CommandFailed err \<Rightarrow> 1)"

fun options_loop :: "string list \<Rightarrow> (string \<rightharpoonup> string) \<Rightarrow> (tool_error, string \<rightharpoonup> string) result" where
  "options_loop [] options = Inr options"
| "options_loop [name] options = Inl (UsageError (''invalid option '' @ name))"
| "options_loop (name # v # rest) options =
     (if \<not> starts_with name ''--'' then Inl (UsageError (''invalid option '' @ name))
      else if options name \<noteq> None then Inl (UsageError (''duplicate option '' @ name))
      else options_loop rest (options(name \<mapsto> v)))"

definition parse_options :: "string list \<Rightarrow> (tool_error, string \<rightharpoonup> string) result" where
  "parse_options arguments = options_loop arguments Map.empty"

definition required :: "(string \<rightharpoonup> string) \<Rightarrow> string \<Rightarrow> (tool_error, string) result" where
  "required options name =
     (case options name of Some v \<Rightarrow> Inr v | None \<Rightarrow> Inl (UsageError (''missing '' @ name)))"

definition tier_of :: "string \<Rightarrow> (tool_error, package_tier) result" where
  "tier_of v =
     (if v = ''portable'' then Inr PortableTier else if v = ''vendor'' then Inr VendorTier
      else Inl (UsageError (''unknown tier '' @ v)))"

definition backend_of :: "string \<Rightarrow> (tool_error, advertised_backend) result" where
  "backend_of v =
     (if v = ''metal'' then Inr AdvMetal else if v = ''vulkan'' then Inr AdvVulkan
      else if v = ''cuda'' then Inr AdvCuda else Inl (UsageError (''unknown backend '' @ v)))"

text \<open>The profile of \<open>create\<close>, in the order the options are looked up.\<close>

definition create_profile :: "string \<Rightarrow> (string \<rightharpoonup> string) \<Rightarrow> (tool_error, package_profile) result" where
  "create_profile native_identity options =
     and_then (required options ''--target'') (\<lambda>target.
     and_then (required options ''--tier'') (\<lambda>t. and_then (tier_of t) (\<lambda>tier.
     and_then (required options ''--backend'') (\<lambda>b. and_then (backend_of b) (\<lambda>backend.
       Inr \<lparr>prof_rust_target = target, prof_tier = tier, prof_advertised_backend = backend,
            prof_native_build_identity = native_identity\<rparr>)))))"

text \<open>
  \<open>run\<close>. Every package root is a directory of the file system \<open>roots\<close>; only \<open>create\<close> changes
  one. \<open>native_identity\<close> is the build's \<open>NATIVE_BUILD_IDENTITY\<close>.
\<close>

definition tool_run ::
  "(bytes \<Rightarrow> bytes) \<Rightarrow> pkg_codec \<Rightarrow> string \<Rightarrow> (path \<Rightarrow> pkg_fs) \<Rightarrow> string list
     \<Rightarrow> (path \<Rightarrow> pkg_fs) \<times> (tool_error, unit) result" where
  "tool_run sha codec native_identity roots arguments =
     (case arguments of
        [] \<Rightarrow> (roots, Inl (UsageError ''missing command''))
      | command # rest \<Rightarrow>
          (case and_then (parse_options rest) (\<lambda>options.
                and_then (required options ''--root'') (\<lambda>r. Inr (options, path_of r))) of
             Inl e \<Rightarrow> (roots, Inl e)
           | Inr (options, base) \<Rightarrow>
               if command = ''create'' then
                 (case create_profile native_identity options of
                    Inl e \<Rightarrow> (roots, Inl e)
                  | Inr profile \<Rightarrow>
                      (case write_package sha codec (roots base) base profile of
                         (fs', res) \<Rightarrow>
                           (roots(base := fs'), and_then (map_err CommandFailed res) (\<lambda>_. Inr ()))))
               else if command = ''verify'' then
                 (roots, and_then (map_err CommandFailed (verify sha codec (roots base) base)) (\<lambda>_. Inr ()))
               else if command = ''verify-patched'' then
                 (roots, and_then (map_err CommandFailed (verify_patched sha codec (roots base) base)) (\<lambda>_. Inr ()))
               else (roots, Inl (UsageError (''unknown command '' @ command)))))"

section \<open>Options\<close>

lemma add_option_first:
  assumes "n \<notin> fst ` set ps"
  shows "m(n \<mapsto> v) ++ map_of ps = m ++ map_of ((n, v) # ps)"
proof
  fix x
  have "map_of ps n = None" using assms by (simp add: map_of_eq_None_iff)
  then show "(m(n \<mapsto> v) ++ map_of ps) x = (m ++ map_of ((n, v) # ps)) x"
    by (cases "x = n") (simp_all add: map_add_def split: option.split)
qed

lemma options_loop_iff:
  "options_loop args m = Inr m' \<longleftrightarrow>
     (\<exists>ps. args = flatten_pairs ps \<and> distinct (map fst ps) \<and> list_all (\<lambda>p. starts_with (fst p) ''--'') ps
        \<and> fst ` set ps \<inter> dom m = {} \<and> m' = m ++ map_of ps)"
    (is "_ \<longleftrightarrow> ?R args m m'")
proof
  show "options_loop args m = Inr m' \<Longrightarrow> ?R args m m'"
  proof (induction args m rule: options_loop.induct)
    case (1 m)
    then show ?case by (intro exI [of _ "[]"]) simp
  next
    case (3 name v rest m)
    then have n: "starts_with name ''--''" "m name = None" "options_loop rest (m(name \<mapsto> v)) = Inr m'"
      by (auto split: if_splits)
    then obtain ps where ps: "rest = flatten_pairs ps" "distinct (map fst ps)"
      "list_all (\<lambda>p. starts_with (fst p) ''--'') ps" "fst ` set ps \<inter> dom (m(name \<mapsto> v)) = {}"
      "m' = m(name \<mapsto> v) ++ map_of ps"
      using "3.IH" [OF _ _ n(3)] n(1,2) by blast
    have "name \<notin> fst ` set ps" using ps(4) by auto
    then have m': "m' = m ++ map_of ((name, v) # ps)" using ps(5) add_option_first [of name ps m v] by simp
    have "fst ` set ((name, v) # ps) \<inter> dom m = {}" using ps(4) n(2) by auto
    moreover have "distinct (map fst ((name, v) # ps))" using ps(2) \<open>name \<notin> fst ` set ps\<close> by simp
    moreover have "name # v # rest = flatten_pairs ((name, v) # ps)"
      "list_all (\<lambda>p. starts_with (fst p) ''--'') ((name, v) # ps)" using ps(1,3) n(1) by simp_all
    ultimately show ?case using m' by blast
  qed simp
next
  have "options_loop (flatten_pairs ps) m = Inr (m ++ map_of ps)"
    if "distinct (map fst ps)" "list_all (\<lambda>p. starts_with (fst p) ''--'') ps" "fst ` set ps \<inter> dom m = {}" for ps
    using that
  proof (induction ps arbitrary: m)
    case (Cons p ps)
    obtain n v where p: "p = (n, v)" by (cases p)
    with Cons.prems have n: "m n = None" "n \<notin> fst ` set ps" by auto
    have "m(n \<mapsto> v) ++ map_of ps = m ++ map_of (p # ps)"
      using add_option_first [OF n(2)] by (simp add: p)
    moreover have "fst ` set ps \<inter> dom (m(n \<mapsto> v)) = {}" using Cons.prems n by auto
    then have "options_loop (flatten_pairs ps) (m(n \<mapsto> v)) = Inr (m(n \<mapsto> v) ++ map_of ps)"
      using Cons.IH Cons.prems(1,2) by simp
    moreover have "options_loop (flatten_pairs (p # ps)) m = options_loop (flatten_pairs ps) (m(n \<mapsto> v))"
      using Cons.prems p n by simp
    ultimately show ?case by (simp only:)
  qed simp
  then show "?R args m m' \<Longrightarrow> options_loop args m = Inr m'" by blast
qed

text \<open>The tool's options: pairs of a distinct option name and its value.\<close>

lemma parse_options_accepts_iff:
  "parse_options args = Inr m \<longleftrightarrow>
     (\<exists>ps. args = flatten_pairs ps \<and> distinct (map fst ps) \<and> list_all (\<lambda>p. starts_with (fst p) ''--'') ps \<and> m = map_of ps)"
  by (simp add: parse_options_def options_loop_iff)

section \<open>Creating, then verifying\<close>

lemma write_package_reverifies:
  "write_package sha codec fs base profile = (fs', Inr p) \<Longrightarrow> verify sha codec fs' base = Inr p"
  by (auto simp: write_package_def Let_def split: sum.splits)

text \<open>The exit status of \<open>create\<close> can be trusted: when \<open>create --root r ...\<close> succeeds, a
  \<open>verify --root r\<close> on what it left behind succeeds too, and no other package root has changed.\<close>
lemma tool_create_then_verify:
  assumes "tool_run sha codec native_identity roots (''create'' # args) = (roots', Inr ())"
  shows "\<exists>options r. parse_options args = Inr options \<and> options ''--root'' = Some r
    \<and> tool_run sha codec native_identity roots' [''verify'', ''--root'', r] = (roots', Inr ())
    \<and> roots' = roots(path_of r := roots' (path_of r))"
proof -
  from assms obtain options r profile fs' p where run: "parse_options args = Inr options" "options ''--root'' = Some r"
    "write_package sha codec (roots (path_of r)) (path_of r) profile = (fs', Inr p)" "roots' = roots(path_of r := fs')"
    by (auto simp: tool_run_def required_def and_then_Inr_iff split: sum.splits option.splits prod.splits)
  have "parse_options [''--root'', r] = Inr [''--root'' \<mapsto> r]"
    by (simp add: parse_options_def starts_with_def)
  with write_package_reverifies [OF run(3)] run show ?thesis
    by (intro exI [of _ options] exI [of _ r]) (simp add: tool_run_def required_def)
qed

lemma tool_create_then_verify_witness:
  "\<exists>options r. parse_options [''--root'', ''/p'', ''--target'', ''aarch64-apple-darwin'', ''--tier'', ''portable'', ''--backend'', ''metal'']
        = Inr options \<and> options ''--root'' = Some r
    \<and> tool_run (\<lambda>bs. []) metal_codec ''n'' ((\<lambda>p. metal_root)(path_of ''/p'' := put_manifest (''m'' @ [newline]) metal_root))
        [''verify'', ''--root'', r]
      = ((\<lambda>p. metal_root)(path_of ''/p'' := put_manifest (''m'' @ [newline]) metal_root), Inr ())"
proof -
  let ?args = "[''--root'', ''/p'', ''--target'', ''aarch64-apple-darwin'', ''--tier'', ''portable'', ''--backend'', ''metal'']"
  have "parse_options ?args = Inr [''--root'' \<mapsto> ''/p'', ''--target'' \<mapsto> ''aarch64-apple-darwin'', ''--tier'' \<mapsto> ''portable'',
      ''--backend'' \<mapsto> ''metal'']"
    by (simp add: parse_options_def starts_with_def)
  moreover have "write_package (\<lambda>bs. []) metal_codec metal_root (path_of ''/p'') metal_profile
      = (put_manifest (''m'' @ [newline]) metal_root, Inr metal_package)"
    by (rule write_package_verifies [OF metal_facts metal_create]) (simp add: metal_codec_def)
  ultimately have run: "tool_run (\<lambda>bs. []) metal_codec ''n'' (\<lambda>p. metal_root) (''create'' # ?args)
      = ((\<lambda>p. metal_root)(path_of ''/p'' := put_manifest (''m'' @ [newline]) metal_root), Inr ())"
    by (simp add: tool_run_def required_def create_profile_def tier_of_def backend_of_def metal_profile_def)
  from tool_create_then_verify [OF this] show ?thesis by blast
qed

end
