(* ===== verification/Module_Load.thy ===== *)
theory Module_Load
  imports Backend_Select Package_Manifest
begin

text \<open>
  \<open>src/src/backend_select.rs\<close>, the loading of the packaged backend modules: which files beside the
  executable are considered (those named as a module this build declares, and any whose name has the
  prefix of a CPU module), which CPU variant is loaded, and the identity of the
  package that goes into the cache key. Scoring a CPU variant and loading a module are injected
  in the source; here they thread a state \<open>'s\<close>. The target platform is the boolean \<open>windows\<close>.
\<close>

section \<open>Names\<close>

definition module_prefix :: "bool \<Rightarrow> string" where
  "module_prefix windows = (if windows then [] else ''lib'')"

definition module_suffix :: "bool \<Rightarrow> string" where
  "module_suffix windows = (if windows then ''.dll'' else ''.so'')"

definition module_file_name :: "bool \<Rightarrow> string \<Rightarrow> string" where
  "module_file_name windows backend = module_prefix windows @ ''ggml-'' @ backend @ module_suffix windows"

text \<open>
  A directory as \<open>read_dir\<close> lists it: the names of the readable entries that are files, and
  whether the directory can be read at all.
\<close>

record module_dir =
  md_is_dir :: bool
  md_read_dir :: "string option"
  md_entries :: "(string \<times> bool) list"

definition declared_names :: "bool \<Rightarrow> declared_backends \<Rightarrow> bool \<Rightarrow> string list" where
  "declared_names windows declared include_accelerators =
     (if include_accelerators
      then map (\<lambda>p. module_file_name windows (fst p))
             (filter snd [(METAL, decl_metal declared), (VULKAN, decl_vulkan declared), (CUDA, decl_cuda declared)])
      else [])"

definition is_module_name :: "bool \<Rightarrow> declared_backends \<Rightarrow> bool \<Rightarrow> string \<Rightarrow> bool" where
  "is_module_name windows declared include_accelerators name \<longleftrightarrow>
     utf8_valid name
     \<and> (starts_with name (module_prefix windows @ ''ggml-cpu'') \<and> ends_with name (module_suffix windows)
        \<or> name \<in> set (declared_names windows declared include_accelerators))"

text \<open>The paths are sorted; they share the directory, so their order is the order of the names.\<close>

definition packaged_module_paths_for_scope ::
  "bool \<Rightarrow> module_dir \<Rightarrow> declared_backends \<Rightarrow> bool \<Rightarrow> (string, string list) result" where
  "packaged_module_paths_for_scope windows d declared include_accelerators =
     (if \<not> md_is_dir d then Inl ''backend module directory is not readable''
      else
        (case md_read_dir d of
           Some err \<Rightarrow> Inl (''cannot read backend module directory: '' @ err)
         | None \<Rightarrow>
             Inr (sort (filter (is_module_name windows declared include_accelerators)
               (map fst (filter snd (md_entries d)))))))"

section \<open>Loading\<close>

definition is_cpu_base :: "bool \<Rightarrow> string \<Rightarrow> bool" where
  "is_cpu_base windows name \<longleftrightarrow> name = module_file_name windows CPU"

definition is_cpu_variant :: "bool \<Rightarrow> string \<Rightarrow> bool" where
  "is_cpu_variant windows name \<longleftrightarrow> starts_with name (module_prefix windows @ ''ggml-cpu-'')"

text \<open>The scoring loop: the best variant so far and the failures.\<close>

fun score_loop ::
  "('s \<Rightarrow> string \<Rightarrow> 's \<times> (string, int) result) \<Rightarrow> (string \<Rightarrow> string) \<Rightarrow> string list \<Rightarrow> 's
     \<Rightarrow> (string \<times> int) option \<Rightarrow> string list \<Rightarrow> 's \<times> (string \<times> int) option \<times> string list" where
  "score_loop score display [] s best fails = (s, best, fails)"
| "score_loop score display (p # ps) s best fails =
     (case score s p of
        (s1, Inr v) \<Rightarrow>
          score_loop score display ps s1
            (if 0 < v \<and> (case best of None \<Rightarrow> True | Some (_, current) \<Rightarrow> current < v) then Some (p, v) else best) fails
      | (s1, Inl reason) \<Rightarrow>
          score_loop score display ps s1 best (fails @ [display p @ '': '' @ reason]))"

definition choose_cpu :: "bool \<Rightarrow> string list \<Rightarrow> (string \<times> int) option \<Rightarrow> string option" where
  "choose_cpu windows paths best =
     (case best of Some (p, v) \<Rightarrow> Some p | None \<Rightarrow> find (is_cpu_base windows) paths)"

fun accelerator_loop ::
  "('s \<Rightarrow> string \<Rightarrow> 's \<times> (string, unit) result) \<Rightarrow> (string \<Rightarrow> string) \<Rightarrow> string list \<Rightarrow> 's \<Rightarrow> string list
     \<Rightarrow> 's \<times> string list" where
  "accelerator_loop loader display [] s fails = (s, fails)"
| "accelerator_loop loader display (p # ps) s fails =
     (case loader s p of
        (s1, Inr _) \<Rightarrow> accelerator_loop loader display ps s1 fails
      | (s1, Inl reason) \<Rightarrow>
          accelerator_loop loader display ps s1
            (fails @ [''llama.cpp could not load packaged accelerator backend module '' @ display p @ '': '' @ reason]))"

definition accelerator_paths :: "bool \<Rightarrow> string list \<Rightarrow> string list" where
  "accelerator_paths windows paths = filter (\<lambda>p. \<not> is_cpu_base windows p \<and> \<not> is_cpu_variant windows p) paths"

text \<open>The body of \<open>load_packaged_modules_with\<close> on the executable's directory.\<close>

definition load_modules_in ::
  "bool \<Rightarrow> module_dir \<Rightarrow> declared_backends \<Rightarrow> bool \<Rightarrow> ('s \<Rightarrow> string \<Rightarrow> 's \<times> (string, int) result)
     \<Rightarrow> ('s \<Rightarrow> string \<Rightarrow> 's \<times> (string, unit) result) \<Rightarrow> (string \<Rightarrow> string) \<Rightarrow> 's
     \<Rightarrow> 's \<times> (string, string list) result" where
  "load_modules_in windows d declared include_accelerators score loader display s =
     (case packaged_module_paths_for_scope windows d declared include_accelerators of
        Inl e \<Rightarrow> (s, Inl e)
      | Inr paths \<Rightarrow>
          (case score_loop score display (filter (is_cpu_variant windows) paths) s None [] of
             (s1, best, fails) \<Rightarrow>
               (case choose_cpu windows paths best of
                  None \<Rightarrow>
                    (s1, Inl (if fails = [] then ''no supported packaged CPU backend module found beside the executable''
                              else ''cannot score a packaged CPU backend module: '' @ join_str '', '' fails))
                | Some cpu \<Rightarrow>
                    (case loader s1 cpu of
                       (s2, Inl reason) \<Rightarrow>
                         (s2, Inl (''llama.cpp could not load packaged CPU backend module '' @ display cpu @ '': '' @ reason))
                     | (s2, Inr _) \<Rightarrow>
                         if include_accelerators then
                           (case accelerator_loop loader display (accelerator_paths windows paths) s2 [] of
                              (s3, report) \<Rightarrow> (s3, Inr report))
                         else (s2, Inr [])))))"

text \<open>\<open>load_modules_from_executable_with\<close>: the checks on the executable's parent before any loading.\<close>

definition load_modules_from_executable_with ::
  "path \<Rightarrow> (path \<Rightarrow> bool) \<Rightarrow> ('s \<Rightarrow> path \<Rightarrow> 's \<times> (string, 'a) result) \<Rightarrow> 's \<Rightarrow> 's \<times> (string, 'a) result" where
  "load_modules_from_executable_with executable is_dir loader s =
     (case path_parent executable of
        None \<Rightarrow> (s, Inl ''executable has no parent directory'')
      | Some parent \<Rightarrow>
          if \<not> utf8_valid (path_display parent) then (s, Inl ''executable parent path is not valid UTF-8'')
          else if CHR 0x00 \<in> set (path_display parent) then (s, Inl ''executable parent path contains a NUL byte'')
          else if \<not> is_dir parent then (s, Inl ''executable parent directory is not readable'')
          else loader s parent)"

definition load_packaged_modules_with ::
  "bool \<Rightarrow> path \<Rightarrow> (path \<Rightarrow> module_dir) \<Rightarrow> declared_backends \<Rightarrow> bool
     \<Rightarrow> ('s \<Rightarrow> path \<Rightarrow> 's \<times> (string, int) result) \<Rightarrow> ('s \<Rightarrow> path \<Rightarrow> 's \<times> (string, unit) result) \<Rightarrow> 's
     \<Rightarrow> 's \<times> (string, string list) result" where
  "load_packaged_modules_with windows executable dirs declared include_accelerators score loader s =
     load_modules_from_executable_with executable (\<lambda>p. md_is_dir (dirs p))
       (\<lambda>s parent. load_modules_in windows (dirs parent) declared include_accelerators
          (\<lambda>s n. score s (path_join parent n)) (\<lambda>s n. loader s (path_join parent n))
          (\<lambda>n. path_display (path_join parent n)) s) s"

text \<open>
  The native scorer and loader. A library that opens (\<open>libloading\<close>) gives for a symbol its
  function or the lookup's error; \<open>ggml_backend_load\<close> answers whether the registry it returns is
  not null.
\<close>

definition score_native_cpu_variant ::
  "('s \<Rightarrow> path \<Rightarrow> 's \<times> (string, string \<Rightarrow> (string, 's \<Rightarrow> 's \<times> int) result) result) \<Rightarrow> 's \<Rightarrow> path
     \<Rightarrow> 's \<times> (string, int) result" where
  "score_native_cpu_variant open_library s p =
     (case open_library s p of
        (s1, Inl err) \<Rightarrow> (s1, Inl err)
      | (s1, Inr library) \<Rightarrow>
          (case library ''ggml_backend_score'' of
             Inl err \<Rightarrow> (s1, Inl err)
           | Inr score \<Rightarrow> (case score s1 of (s2, v) \<Rightarrow> (s2, Inr v))))"

definition load_native_module ::
  "('s \<Rightarrow> string \<Rightarrow> 's \<times> bool) \<Rightarrow> 's \<Rightarrow> path \<Rightarrow> 's \<times> (string, unit) result" where
  "load_native_module backend_load s p =
     (if \<not> utf8_valid (path_display p) then (s, Inl ''backend module path is not valid UTF-8'')
      else if CHR 0x00 \<in> set (path_display p) then (s, Inl ''backend module path contains a NUL byte'')
      else
        (case backend_load s (path_display p) of
           (s1, loaded) \<Rightarrow> (s1, if loaded then Inr () else Inl ''native registry load returned null'')))"

text \<open>
  \<open>load_packaged_modules_from_executable\<close> and its CPU-only variant: static builds have no modules.
\<close>

definition load_packaged_modules ::
  "bool \<Rightarrow> path \<Rightarrow> (path \<Rightarrow> module_dir) \<Rightarrow> declared_backends
     \<Rightarrow> ('s \<Rightarrow> path \<Rightarrow> 's \<times> (string, int) result) \<Rightarrow> ('s \<Rightarrow> path \<Rightarrow> 's \<times> (string, unit) result) \<Rightarrow> 's
     \<Rightarrow> 's \<times> (string, string list) result" where
  "load_packaged_modules windows executable dirs declared score loader s =
     (if decl_dynamic declared then load_packaged_modules_with windows executable dirs declared True score loader s
      else (s, Inr []))"

definition load_packaged_cpu_modules ::
  "bool \<Rightarrow> path \<Rightarrow> (path \<Rightarrow> module_dir) \<Rightarrow> declared_backends
     \<Rightarrow> ('s \<Rightarrow> path \<Rightarrow> 's \<times> (string, int) result) \<Rightarrow> ('s \<Rightarrow> path \<Rightarrow> 's \<times> (string, unit) result) \<Rightarrow> 's
     \<Rightarrow> 's \<times> (string, unit) result" where
  "load_packaged_cpu_modules windows executable dirs declared score loader s =
     (if decl_dynamic declared then
        (case load_packaged_modules_with windows executable dirs declared False score loader s of
           (s1, Inl e) \<Rightarrow> (s1, Inl e) | (s1, Inr _) \<Rightarrow> (s1, Inr ()))
      else (s, Inr ()))"

section \<open>The identity of the package\<close>

text \<open>
  \<open>packaged_backend_identity\<close>: the declared backends and, behind them, the identity the package
  manifest gives, or else the names and contents of the modules. \<open>read_file\<close> gives what could be
  read of a file that opens.
\<close>

definition packaged_backend_identity ::
  "(bytes \<Rightarrow> bytes) \<Rightarrow> bool \<Rightarrow> pkg_codec \<Rightarrow> (path \<Rightarrow> pkg_fs) \<Rightarrow> (path \<Rightarrow> module_dir) \<Rightarrow> (path \<Rightarrow> bytes option)
     \<Rightarrow> declared_backends \<Rightarrow> path \<Rightarrow> string" where
  "packaged_backend_identity sha windows codec roots dirs read_file declared executable =
     (case path_parent executable of
        None \<Rightarrow> hex (sha (declared_identity declared))
      | Some directory \<Rightarrow>
          (case runtime_identity sha codec (roots directory) directory of
             Inr identity \<Rightarrow> hex (sha (declared_identity declared @ identity))
           | Inl e \<Rightarrow>
               (case packaged_module_paths_for_scope windows (dirs directory) declared True of
                  Inl e' \<Rightarrow> hex (sha (declared_identity declared))
                | Inr names \<Rightarrow>
                    hex (sha (declared_identity declared
                      @ concat (map (\<lambda>n. n @ (case read_file (path_join directory n) of Some c \<Rightarrow> c | None \<Rightarrow> [])) names))))))"

section \<open>Which modules are loaded\<close>

text \<open>
  The CPU module that has to be loaded: a variant of highest positive score, the first of them in
  the order of the paths, or else the base module. Scores are those of a deterministic scorer.
\<close>

definition best_variant :: "(string \<Rightarrow> (string, int) result) \<Rightarrow> string list \<Rightarrow> (string \<times> int) option \<Rightarrow> bool" where
  "best_variant sc ps best \<longleftrightarrow>
     (case best of
        None \<Rightarrow> \<forall>p\<in>set ps. \<forall>v. sc p = Inr v \<longrightarrow> v \<le> 0
      | Some (b, v) \<Rightarrow> 0 < v \<and> sc b = Inr v
          \<and> (\<exists>before after. ps = before @ b # after
               \<and> (\<forall>p\<in>set before. \<forall>w. sc p = Inr w \<longrightarrow> w < v) \<and> (\<forall>p\<in>set after. \<forall>w. sc p = Inr w \<longrightarrow> w \<le> v)))"

lemma best_variantI:
  "0 < v \<Longrightarrow> sc b = Inr v \<Longrightarrow> \<forall>p\<in>set before. \<forall>w. sc p = Inr w \<longrightarrow> w < v \<Longrightarrow> \<forall>p\<in>set after. \<forall>w. sc p = Inr w \<longrightarrow> w \<le> v
     \<Longrightarrow> best_variant sc (before @ b # after) (Some (b, v))"
  unfolding best_variant_def by auto

lemma best_variant_snoc:
  assumes "best_variant sc ps best"
  shows "best_variant sc (ps @ [p])
    (case sc p of
       Inr v \<Rightarrow> if 0 < v \<and> (case best of None \<Rightarrow> True | Some (_, current) \<Rightarrow> current < v) then Some (p, v) else best
     | Inl e \<Rightarrow> best)"
proof (cases best)
  case None
  with assms have n: "\<forall>q\<in>set ps. \<forall>v. sc q = Inr v \<longrightarrow> v \<le> 0" by (simp add: best_variant_def)
  show ?thesis
  proof (cases "sc p")
    case (Inr v)
    have "\<forall>q\<in>set ps. \<forall>w. sc q = Inr w \<longrightarrow> w < v" if "0 < v" using n that by fastforce
    then have "best_variant sc (ps @ [p]) (Some (p, v))" if "0 < v" using Inr that by (intro best_variantI) auto
    moreover have "best_variant sc (ps @ [p]) None" if "\<not> 0 < v" using n Inr that by (auto simp: best_variant_def)
    ultimately show ?thesis using None Inr by simp
  qed (use n None in \<open>auto simp: best_variant_def\<close>)
next
  case (Some bv)
  obtain b v where bv: "bv = (b, v)" by (cases bv)
  with assms Some obtain before "after" where b: "0 < v" "sc b = Inr v" "ps = before @ b # after"
    "\<forall>p\<in>set before. \<forall>w. sc p = Inr w \<longrightarrow> w < v" "\<forall>p\<in>set after. \<forall>w. sc p = Inr w \<longrightarrow> w \<le> v"
    by (auto simp: best_variant_def)
  have keep: "best_variant sc (ps @ [p]) (Some (b, v))" if "\<forall>w. sc p = Inr w \<longrightarrow> w \<le> v"
    using best_variantI [of v sc b before "after @ [p]"] b that by auto
  show ?thesis
  proof (cases "sc p")
    case (Inr w)
    show ?thesis
    proof (cases "v < w")
      case True
      have "\<forall>q\<in>set ps. \<forall>u. sc q = Inr u \<longrightarrow> u < w" using b True by fastforce
      then have "best_variant sc (ps @ [p]) (Some (p, w))" using Inr b(1) True by (intro best_variantI) auto
      with True Inr b(1) Some bv show ?thesis by simp
    next
      case False
      with Inr Some bv keep show ?thesis by simp
    qed
  qed (use keep Some bv in simp)
qed

lemma score_loop_best:
  assumes "score_loop (\<lambda>s p. (s, sc p)) display ps s best fails = (s', best', fails')"
    and "best_variant sc qs best"
  shows "s' = s \<and> best_variant sc (qs @ ps) best' \<and> (fails' = [] \<longleftrightarrow> fails = [] \<and> (\<forall>p\<in>set ps. \<exists>v. sc p = Inr v))"
  using assms
proof (induction ps arbitrary: qs best fails)
  case (Cons p ps)
  let ?best = "case sc p of
       Inr v \<Rightarrow> if 0 < v \<and> (case best of None \<Rightarrow> True | Some (_, current) \<Rightarrow> current < v) then Some (p, v) else best
     | Inl e \<Rightarrow> best"
  let ?fails = "case sc p of Inr v \<Rightarrow> fails | Inl reason \<Rightarrow> fails @ [display p @ '': '' @ reason]"
  have run: "score_loop (\<lambda>s p. (s, sc p)) display ps s ?best ?fails = (s', best', fails')"
    using Cons.prems(1) by (cases "sc p") simp_all
  from Cons.IH [OF run best_variant_snoc [OF Cons.prems(2)]] show ?case
    by (auto split: sum.splits)
qed simp

text \<open>A loader that records what it is asked to load, and succeeds on the modules \<open>ok\<close>.\<close>

definition log_loader :: "(string \<Rightarrow> (string, unit) result) \<Rightarrow> string list \<Rightarrow> string \<Rightarrow> string list \<times> (string, unit) result" where
  "log_loader ok s n = (s @ [n], ok n)"

text \<open>What is reported of the modules that do not load, one message each, in their order.\<close>

definition failure_report :: "(string \<Rightarrow> (string, unit) result) \<Rightarrow> (string \<Rightarrow> string) \<Rightarrow> string list \<Rightarrow> string list" where
  "failure_report ok display ps =
     concat (map (\<lambda>p. case ok p of
         Inr _ \<Rightarrow> []
       | Inl reason \<Rightarrow> [''llama.cpp could not load packaged accelerator backend module '' @ display p @ '': '' @ reason]) ps)"

lemma accelerator_loop_log:
  "accelerator_loop (log_loader ok) display ps s fails = (s @ ps, fails @ failure_report ok display ps)"
proof (induction ps arbitrary: s fails)
  case (Cons p ps)
  then show ?case by (cases "ok p") (simp_all add: log_loader_def failure_report_def)
qed (simp add: failure_report_def)

definition cpu_choice :: "bool \<Rightarrow> (string \<Rightarrow> (string, int) result) \<Rightarrow> string list \<Rightarrow> string option \<Rightarrow> bool" where
  "cpu_choice windows sc paths cpu \<longleftrightarrow>
     (\<exists>best. best_variant sc (filter (is_cpu_variant windows) paths) best \<and> cpu = choose_cpu windows paths best)"

lemma load_modules_in_log:
  assumes "packaged_module_paths_for_scope windows d declared inc = Inr paths"
    and "load_modules_in windows d declared inc (\<lambda>s n. (s, sc n)) (log_loader ok) display [] = (called, res)"
  shows "\<exists>cpu. cpu_choice windows sc paths cpu \<and>
    (case cpu of
       None \<Rightarrow> called = [] \<and> (\<exists>e. res = Inl e)
     | Some c \<Rightarrow>
         (case ok c of
            Inr _ \<Rightarrow>
              called = c # (if inc then accelerator_paths windows paths else [])
              \<and> res = Inr (if inc then failure_report ok display (accelerator_paths windows paths) else [])
          | Inl reason \<Rightarrow>
              called = [c]
              \<and> res = Inl (''llama.cpp could not load packaged CPU backend module '' @ display c @ '': '' @ reason)))"
proof -
  obtain s1 best fails where sl: "score_loop (\<lambda>s n. (s, sc n)) display (filter (is_cpu_variant windows) paths)
      ([] :: string list) None [] = (s1, best, fails)"
    by (metis prod.exhaust)
  have "best_variant sc [] None" by (simp add: best_variant_def)
  from score_loop_best [OF sl this] have s1: "s1 = []" and best: "best_variant sc (filter (is_cpu_variant windows) paths) best"
    by auto
  have choice: "cpu_choice windows sc paths (choose_cpu windows paths best)" using best by (auto simp: cpu_choice_def)
  show ?thesis
  proof (cases "choose_cpu windows paths best")
    case None
    with assms sl s1 choice show ?thesis by (intro exI [of _ None]) (auto simp: load_modules_in_def)
  next
    case (Some c)
    with assms sl s1 choice show ?thesis
      by (intro exI [of _ "Some c"]; cases "ok c") (auto simp: load_modules_in_def accelerator_loop_log log_loader_def [of ok _ c])
  qed
qed

text \<open>
  The files considered: those of a declared accelerator, and any whose name has the prefix of the CPU
  modules and the suffix of a module.
\<close>

definition module_file :: "bool \<Rightarrow> declared_backends \<Rightarrow> string \<Rightarrow> bool" where
  "module_file windows declared name \<longleftrightarrow>
     utf8_valid name
     \<and> (starts_with name (module_prefix windows @ ''ggml-cpu'') \<and> ends_with name (module_suffix windows)
        \<or> decl_metal declared \<and> name = module_file_name windows METAL
        \<or> decl_vulkan declared \<and> name = module_file_name windows VULKAN
        \<or> decl_cuda declared \<and> name = module_file_name windows CUDA)"

lemma module_paths_names:
  "packaged_module_paths_for_scope windows d declared inc = Inr paths \<Longrightarrow>
     sorted paths \<and> (\<forall>p\<in>set paths. is_module_name windows declared inc p \<and> (p, True) \<in> set (md_entries d))"
  by (auto simp: packaged_module_paths_for_scope_def split: if_splits option.splits)

lemma module_name_file: "is_module_name windows declared True p = module_file windows declared p"
  by (auto simp: is_module_name_def module_file_def declared_names_def)

text \<open>The CPU prefix admits files that no build declares.\<close>

lemma undeclared_cpu_name_loaded:
  "module_file False \<lparr>decl_metal = False, decl_vulkan = False, decl_cuda = False, decl_rocm = False, decl_dynamic = True\<rparr> ''libggml-cpux.so''
   \<and> accelerator_paths False [''libggml-cpux.so''] = [''libggml-cpux.so'']"
  by (simp add: module_file_def accelerator_paths_def is_cpu_base_def is_cpu_variant_def module_prefix_def module_suffix_def
      module_file_name_def starts_with_def ends_with_def byte_of_def CPU_def)

section \<open>What is loaded\<close>

definition unix_declared :: declared_backends where
  "unix_declared = \<lparr>decl_metal = False, decl_vulkan = True, decl_cuda = False, decl_rocm = True, decl_dynamic = True\<rparr>"

definition sample_modules :: module_dir where
  "sample_modules = \<lparr>md_is_dir = True, md_read_dir = None,
     md_entries = [(''libggml-vulkan.so'', True), (''libggml-hip.so'', True), (''libggml-cpu.so'', True)]\<rparr>"

lemma sample_module_paths:
  "packaged_module_paths_for_scope False sample_modules unix_declared True = Inr [''libggml-cpu.so'', ''libggml-vulkan.so'']"
proof -
  have c: "is_module_name False unix_declared True ''libggml-cpu.so''"
    by (simp add: is_module_name_def module_prefix_def module_suffix_def starts_with_def ends_with_def byte_of_def)
  have v: "is_module_name False unix_declared True ''libggml-vulkan.so''"
    by (simp add: is_module_name_def module_prefix_def module_suffix_def starts_with_def ends_with_def byte_of_def
        declared_names_def module_file_name_def unix_declared_def VULKAN_def)
  have h: "\<not> is_module_name False unix_declared True ''libggml-hip.so''"
    by (simp add: is_module_name_def module_prefix_def module_suffix_def starts_with_def ends_with_def byte_of_def
        declared_names_def module_file_name_def unix_declared_def VULKAN_def)
  show ?thesis by (simp add: packaged_module_paths_for_scope_def sample_modules_def c v h less_char_def)
qed

text \<open>C27 (functional). Which native modules run in the process: on a readable directory the loader is asked
  for one CPU module first, a variant with the highest positive score if there is one and the
  base module otherwise, and, once that is loaded, for every other file considered that is no CPU
  variant once, in path order. Each module asked for is a file of the directory whose name is that of
  an accelerator this build declares or any name with the prefix \<open>ggml-cpu\<close> of the platform and the
  suffix of a module, which lets in files no build declares (\<open>undeclared_cpu_name_loaded\<close>). The report
  has one message for every accelerator module that fails, in their order, with its path and the
  reason; they are skipped. A CPU module that fails is an error with its path and reason, a missing one
  is an error too, and nothing else is loaded.\<close>
theorem modules_loaded:
  assumes "packaged_module_paths_for_scope windows d declared True = Inr paths"
    and "load_modules_in windows d declared True (\<lambda>s n. (s, sc n)) (log_loader ok) display [] = (called, res)"
  shows "\<exists>cpu. cpu_choice windows sc paths cpu
    \<and> (case cpu of
         None \<Rightarrow> called = [] \<and> (\<exists>e. res = Inl e)
       | Some c \<Rightarrow>
           (case ok c of
              Inr _ \<Rightarrow>
                called = c # accelerator_paths windows paths
                \<and> res = Inr (failure_report ok display (accelerator_paths windows paths))
            | Inl reason \<Rightarrow>
                called = [c]
                \<and> res = Inl (''llama.cpp could not load packaged CPU backend module '' @ display c @ '': '' @ reason)))
    \<and> list_all (\<lambda>p. module_file windows declared p \<and> (p, True) \<in> set (md_entries d)) called"
proof -
  obtain cpu where cpu: "cpu_choice windows sc paths cpu" "case cpu of
         None \<Rightarrow> called = [] \<and> (\<exists>e. res = Inl e)
       | Some c \<Rightarrow>
           (case ok c of
              Inr _ \<Rightarrow>
                called = c # accelerator_paths windows paths
                \<and> res = Inr (failure_report ok display (accelerator_paths windows paths))
            | Inl reason \<Rightarrow>
                called = [c]
                \<and> res = Inl (''llama.cpp could not load packaged CPU backend module '' @ display c @ '': '' @ reason))"
    using load_modules_in_log [OF assms, unfolded if_True] by blast
  have "c \<in> set paths" if "cpu = Some c" for c
  proof -
    from cpu(1) that obtain best where b: "best_variant sc (filter (is_cpu_variant windows) paths) best"
      "choose_cpu windows paths best = Some c"
      by (auto simp: cpu_choice_def)
    show ?thesis
    proof (cases best)
      case None
      with b(2) show ?thesis by (auto simp: choose_cpu_def find_Some_iff)
    next
      case (Some bv)
      then have "c \<in> set (filter (is_cpu_variant windows) paths)"
        using b by (cases bv) (auto simp: choose_cpu_def best_variant_def simp del: set_filter)
      then show ?thesis by simp
    qed
  qed
  then have "set called \<subseteq> set paths"
    using cpu(2) by (auto simp: accelerator_paths_def split: option.splits sum.splits)
  then have "list_all (\<lambda>p. module_file windows declared p \<and> (p, True) \<in> set (md_entries d)) called"
    using module_paths_names [OF assms(1)] by (auto simp: list_all_iff module_name_file)
  with cpu show ?thesis by blast
qed

theorem modules_loaded_witness:
  "\<exists>cpu. cpu_choice False (\<lambda>p. Inl ''e'') [''libggml-cpu.so'', ''libggml-vulkan.so''] (Some cpu)
    \<and> [''libggml-cpu.so'', ''libggml-vulkan.so''] = cpu # accelerator_paths False [''libggml-cpu.so'', ''libggml-vulkan.so'']
    \<and> failure_report (\<lambda>p. if p = ''libggml-cpu.so'' then Inr () else Inl ''null'') id
        (accelerator_paths False [''libggml-cpu.so'', ''libggml-vulkan.so''])
      = [''llama.cpp could not load packaged accelerator backend module libggml-vulkan.so: null'']"
proof -
  let ?ok = "\<lambda>p. if p = ''libggml-cpu.so'' then Inr () else Inl ''null''"
  let ?paths = "[''libggml-cpu.so'', ''libggml-vulkan.so'']"
  let ?report = "[''llama.cpp could not load packaged accelerator backend module libggml-vulkan.so: null'']"
  have run: "load_modules_in False sample_modules unix_declared True (\<lambda>s n. (s, Inl ''e'')) (log_loader ?ok) id [] = (?paths, Inr ?report)"
    by (simp add: load_modules_in_def sample_module_paths is_cpu_variant_def is_cpu_base_def module_prefix_def module_suffix_def
        module_file_name_def starts_with_def CPU_def choose_cpu_def log_loader_def accelerator_paths_def)
  obtain cpu where cpu: "cpu_choice False (\<lambda>p. Inl ''e'') ?paths cpu" "case cpu of
         None \<Rightarrow> ?paths = [] \<and> (\<exists>e. (Inr ?report :: (string, string list) result) = Inl e)
       | Some c \<Rightarrow>
           (case ?ok c of
              Inr _ \<Rightarrow>
                ?paths = c # accelerator_paths False ?paths
                \<and> (Inr ?report :: (string, string list) result) = Inr (failure_report ?ok id (accelerator_paths False ?paths))
            | Inl reason \<Rightarrow>
                ?paths = [c]
                \<and> (Inr ?report :: (string, string list) result)
                  = Inl (''llama.cpp could not load packaged CPU backend module '' @ id c @ '': '' @ reason))"
    using modules_loaded [OF sample_module_paths run] by blast
  obtain c where c: "cpu = Some c" using cpu(2) by (cases cpu) simp_all
  have "?ok c = Inr ()" using cpu(2) unfolding c option.case by (cases "?ok c") simp_all
  with cpu(2) [unfolded c option.case] have "?paths = c # accelerator_paths False ?paths
      \<and> (Inr ?report :: (string, string list) result) = Inr (failure_report ?ok id (accelerator_paths False ?paths))"
    by (simp only: sum.case)
  with cpu(1) c show ?thesis by (intro exI [of _ c]) (simp only: sum.inject simp_thms)
qed

end
