(* ===== verification/Engine_Load.thy ===== *)
theory Engine_Load
  imports Llama_Engine Module_Load
begin

text \<open>
  The loading of \<open>LlamaEngine\<close> in \<open>src/src/engine.rs\<close>: verification of the cached file, the choice of
  the backend (forced CPU, or discovery and benchmark), the load with the placement of the chosen
  device, the fallback to the CPU, and the driver identities that go into the cache key. The
  native calls are the record \<open>native_api\<close> on a world \<open>'x\<close>, beside the record \<open>llama_api\<close> of the
  loaded model's calls; what the process environment says is the record \<open>load_env\<close>. The stdout
  guard around the load is theory \<open>Stdio_Guard\<close>.
\<close>

section \<open>The environment\<close>

datatype target_os = Linux | MacOs | WindowsOs | OtherOs

record native_device =
  nd_backend :: string
  nd_index :: nat
  nd_name :: string
  nd_description :: string
  nd_memory_total :: nat

record model_params =
  mp_n_gpu_layers :: "nat option"
  mp_devices :: "nat list option"

record 'x native_api =
  nat_init :: "'x \<Rightarrow> 'x \<times> (string, unit) result"
  nat_devices :: "'x \<Rightarrow> native_device list"
  nat_run :: "'x \<Rightarrow> string \<Rightarrow> string list \<Rightarrow> 'x \<times> (bool \<times> bytes) option"
  nat_open_library :: "'x \<Rightarrow> path \<Rightarrow> 'x \<times> (string, string \<Rightarrow> (string, 'x \<Rightarrow> 'x \<times> int) result) result"
  nat_backend_load :: "'x \<Rightarrow> string \<Rightarrow> 'x \<times> bool"
  nat_with_devices :: "nat list \<Rightarrow> (string, nat list) result"
  nat_load_model :: "'x \<Rightarrow> path \<Rightarrow> model_params \<Rightarrow> 'x \<times> (string, unit) result"
  nat_elapsed :: "'x \<Rightarrow> 'x \<Rightarrow> duration"

text \<open>A path of the model cache: no regular file, one that cannot be read, or its content.\<close>

datatype model_file = NoModelFile | UnreadableModel string | ModelContent bytes

record load_env =
  env_os :: target_os
  env_feature :: "string \<Rightarrow> bool"
  env_forced :: "string option"
  env_exe :: "(string, path) result"
  env_native_build_identity :: string
  env_sha256 :: "bytes \<Rightarrow> bytes"
  env_model :: "path \<Rightarrow> model_file"
  env_package_codec :: pkg_codec
  env_roots :: "path \<Rightarrow> pkg_fs"
  env_dirs :: "path \<Rightarrow> module_dir"
  env_read_file :: "path \<Rightarrow> bytes option"
  env_store_codec :: store_codec
  env_io :: cache_io

section \<open>Placement\<close>

record model_placement =
  place_n_gpu_layers :: "nat option"
  place_device_indexes :: "nat list"

definition placement_for_candidate :: "backend_candidate \<Rightarrow> model_placement" where
  "placement_for_candidate c =
     (if cand_backend c = CPU then \<lparr>place_n_gpu_layers = Some 0, place_device_indexes = []\<rparr>
      else \<lparr>place_n_gpu_layers = None,
            place_device_indexes = (case cand_device_index c of None \<Rightarrow> [] | Some i \<Rightarrow> [i])\<rparr>)"

definition model_params_for_candidate ::
  "'x native_api \<Rightarrow> backend_candidate \<Rightarrow> (engine_error, model_params) result" where
  "model_params_for_candidate N c =
     (let placement = placement_for_candidate c;
          params = \<lparr>mp_n_gpu_layers = place_n_gpu_layers placement, mp_devices = None\<rparr>
      in if place_device_indexes placement = [] then Inr params
         else
           (case nat_with_devices N (place_device_indexes placement) of
              Inl e \<Rightarrow> Inl (engine_error_new ''BackendPlacement'' e)
            | Inr devices \<Rightarrow> Inr (params\<lparr>mp_devices := Some devices\<rparr>)))"

definition OVERHEAD_PROBE :: string where
  "OVERHEAD_PROBE = ''probe''"

definition measure_special_token_overhead ::
  "('x, 'c, 'b, 'f) llama_api \<Rightarrow> (engine_error, nat) result" where
  "measure_special_token_overhead M =
     (case str_to_token M OVERHEAD_PROBE True of
        Inl e \<Rightarrow> Inl (tokenize_error e)
      | Inr with_special \<Rightarrow>
          (case str_to_token M OVERHEAD_PROBE False of
             Inl e \<Rightarrow> Inl (tokenize_error e)
           | Inr without_special \<Rightarrow> Inr (length with_special - length without_special)))"

definition measure_eos_reserve ::
  "('x, 'c, 'b, 'f) llama_api \<Rightarrow> model_pin \<Rightarrow> (engine_error, nat) result" where
  "measure_eos_reserve M pin =
     (case eos_marker pin of
        None \<Rightarrow> Inr 0
      | Some marker \<Rightarrow>
          (case str_to_token M marker False of
             Inl e \<Rightarrow> Inl (tokenize_error e) | Inr tokens \<Rightarrow> Inr (length tokens)))"

definition load_candidate ::
  "'x native_api \<Rightarrow> ('x, 'c, 'b, 'f) llama_api \<Rightarrow> model_pin \<Rightarrow> path \<Rightarrow> backend_candidate \<Rightarrow> selection
     \<Rightarrow> backend_capabilities \<Rightarrow> 'x \<Rightarrow> 'x \<times> (engine_error, llama_engine) result" where
  "load_candidate N M pin p candidate sel caps x =
     (case model_params_for_candidate N candidate of
        Inl e \<Rightarrow> (x, Inl e)
      | Inr params \<Rightarrow>
          (case nat_load_model N x p params of
             (x1, Inl e) \<Rightarrow> (x1, Inl (engine_error_new ''ModelLoad'' e))
           | (x1, Inr _) \<Rightarrow>
               (case measure_eos_reserve M pin of
                  Inl e \<Rightarrow> (x1, Inl e)
                | Inr eos_reserve \<Rightarrow>
                    (case measure_special_token_overhead M of
                       Inl e \<Rightarrow> (x1, Inl e)
                     | Inr overhead \<Rightarrow>
                         (x1, Inr \<lparr>le_pin = pin, le_eos_reserve = eos_reserve, le_special_token_overhead = overhead,
                                   le_device = cand_device candidate, le_selection = sel, le_capabilities = caps\<rparr>)))))"

section \<open>Benchmark\<close>

definition BACKEND_PROBE_TEXTS :: "string list" where
  "BACKEND_PROBE_TEXTS =
     [''FullRebuildPromotion'',
      ''WorkspaceIndexProvider.OpenReadOnly'',
      ''l2_normalize_vector'',
      ''IHostedService::StartAsync'',
      ''public sealed record LeadershipEligibility(bool CanClaim, string? Reason)'',
      ''pub fn cosine(a: &[f32], b: &[f32]) -> f32'',
      ''def slice_renormalize(vec, dims): return vec[:dims]'',
      ''CREATE VIRTUAL TABLE vectors USING vec0(embedding int8[512]);'',
      ''how does the indexer decide which process holds the write lock'',
      ''where do we atomically swap the rebuilt database over the live artifact'',
      ''A force scan extracts into a rebuild database and atomically promotes it.'',
      ''Semantic retrieval is optional, local-first, and off by default.'',
      ''## Restore the cache'' @ [newline, newline] @ ''Run the download and verify stages.'',
      ''# Tolerance policy'' @ [newline, newline] @ ''| check | bar |'' @ [newline] @ ''|---|---|'' @ [newline] @ ''| cosine | >= 0.999 |'',
      ''```rust'' @ [newline] @ ''fn main() {}'' @ [newline] @ ''```'',
      map char_of ([0xE8, 0xAF, 0xA5, 0xE5, 0x87, 0xBD, 0xE6, 0x95, 0xB0, 0xE4, 0xBB, 0xA5, 0xE5, 0x8E, 0x9F, 0xE5,
        0xAD, 0x90, 0xE6, 0x96, 0xB9, 0xE5, 0xBC, 0x8F, 0xE5, 0xB0, 0x86, 0xE9, 0x87, 0x8D, 0xE5, 0xBB, 0xBA, 0xE5,
        0x90, 0x8E, 0xE7, 0x9A, 0x84, 0xE7, 0xB4, 0xA2, 0xE5, 0xBC, 0x95, 0xE6, 0x95, 0xB0, 0xE6, 0x8D, 0xAE, 0xE5,
        0xBA, 0x93, 0xE6, 0x9B, 0xBF, 0xE6, 0x8D, 0xA2, 0xE4, 0xB8, 0xBA, 0xE7, 0xBA, 0xBF, 0xE4, 0xB8, 0x8A, 0xE7,
        0x9A, 0x84, 0xE5, 0xB7, 0xA5, 0xE4, 0xBB, 0xB6, 0xE6, 0x96, 0x87, 0xE4, 0xBB, 0xB6, 0xE3, 0x80, 0x82] :: nat
        list)]"

text \<open>The warm-up run, then the two timed ones.\<close>

definition run_fixed_probes_with ::
  "backend_candidate \<Rightarrow> ('x \<Rightarrow> backend_candidate \<Rightarrow> string list \<Rightarrow> 'x \<times> (string, duration) result) \<Rightarrow> 'x
     \<Rightarrow> 'x \<times> (string, probe_timing) result" where
  "run_fixed_probes_with candidate probe x =
     (let one = [hd BACKEND_PROBE_TEXTS]
      in case probe x candidate one of
           (x1, Inl e) \<Rightarrow> (x1, Inl e)
         | (x1, Inr _) \<Rightarrow>
             (case probe x1 candidate one of
                (x2, Inl e) \<Rightarrow> (x2, Inl e)
              | (x2, Inr t1) \<Rightarrow>
                  (case probe x2 candidate BACKEND_PROBE_TEXTS of
                     (x3, Inl e) \<Rightarrow> (x3, Inl e)
                   | (x3, Inr t16) \<Rightarrow> (x3, Inr \<lparr>batch_1 = t1, batch_16 = t16\<rparr>))))"

definition timed_embed ::
  "'x native_api \<Rightarrow> ('x, 'c, 'b, 'f) llama_api \<Rightarrow> 'f float_ops \<Rightarrow> llama_engine
     \<Rightarrow> 'x \<Rightarrow> backend_candidate \<Rightarrow> string list \<Rightarrow> 'x \<times> (string, duration) result" where
  "timed_embed N M F e x c texts =
     (case llama_embed M F (e, x) texts Document of
        (s, Inl err) \<Rightarrow> (snd s, Inl (engine_error_display err))
      | (s, Inr _) \<Rightarrow> (snd s, Inr (nat_elapsed N x (snd s))))"

definition benchmark_candidate ::
  "'x native_api \<Rightarrow> ('x, 'c, 'b, 'f) llama_api \<Rightarrow> 'f float_ops \<Rightarrow> model_pin \<Rightarrow> path
     \<Rightarrow> 'x \<Rightarrow> backend_candidate \<Rightarrow> 'x \<times> (string, probe_timing) result" where
  "benchmark_candidate N M F pin p x candidate =
     (case load_candidate N M pin p candidate (selection_new (cand_backend candidate) (cand_backend candidate) None) cpu_only x of
        (x1, Inl err) \<Rightarrow> (x1, Inl (engine_error_display err))
      | (x1, Inr engine) \<Rightarrow> run_fixed_probes_with candidate (timed_embed N M F engine) x1)"

section \<open>Driver identities\<close>

record driver_identity =
  di_value :: string
  di_cacheable :: bool

text \<open>\<open>command_output\<close>: the trimmed standard output of a command that succeeded, if there is any.\<close>

definition command_output :: "'x native_api \<Rightarrow> 'x \<Rightarrow> string \<Rightarrow> string list \<Rightarrow> 'x \<times> string option" where
  "command_output N x program args =
     (case nat_run N x program args of
        (x1, Some (status, stdout)) \<Rightarrow>
          (x1, if status \<and> utf8_valid stdout \<and> trim stdout \<noteq> [] then Some (trim stdout) else None)
      | (x1, None) \<Rightarrow> (x1, None))"

definition powershell_args :: "string list" where
  "powershell_args = [''-NoProfile'', ''-Command'',
     ''Get-CimInstance Win32_VideoController | Select-Object Name,DriverVersion | ConvertTo-Json -Compress'']"

text \<open>
  The tools tried in order, each with its guard and the prefix of its answer; the first answer is
  the identity. Without one the identity is made of what is known and is not cacheable.
\<close>

definition driver_tools :: "target_os \<Rightarrow> string \<Rightarrow> (string \<times> string \<times> string list) list" where
  "driver_tools os backend =
     (if eq_ignore_ascii_case backend CUDA
      then [(''cuda:'', ''nvidia-smi'', [''--query-gpu=driver_version'', ''--format=csv,noheader''])] else [])
     @ (if eq_ignore_ascii_case backend VULKAN then [(''vulkan:'', ''vulkaninfo'', [''--summary''])] else [])
     @ (if os = WindowsOs then [(''windows-gpu:'', ''powershell.exe'', powershell_args)] else [])
     @ (if os = MacOs \<and> (eq_ignore_ascii_case backend METAL \<or> eq_ignore_ascii_case backend ''MTL'')
        then [(''metal:'', ''sysctl'', [''-n'', ''kern.osversion''])] else [])"

fun first_tool ::
  "('x \<Rightarrow> string \<Rightarrow> string list \<Rightarrow> 'x \<times> string option) \<Rightarrow> (string \<times> string \<times> string list) list \<Rightarrow> 'x \<Rightarrow> 'x \<times> string option" where
  "first_tool output [] x = (x, None)"
| "first_tool output ((label, program, args) # tools) x =
     (case output x program args of
        (x1, Some v) \<Rightarrow> (x1, Some (label @ v))
      | (x1, None) \<Rightarrow> first_tool output tools x1)"

definition platform_command :: "target_os \<Rightarrow> (string \<times> string list) option" where
  "platform_command os =
     (case os of
        MacOs \<Rightarrow> Some (''sysctl'', [''-n'', ''kern.osversion''])
      | Linux \<Rightarrow> Some (''uname'', [''-r''])
      | WindowsOs \<Rightarrow> Some (''cmd'', [''/C'', ''ver''])
      | OtherOs \<Rightarrow> None)"

definition driver_identity_with ::
  "target_os \<Rightarrow> string \<Rightarrow> string \<Rightarrow> string \<Rightarrow> ('x \<Rightarrow> string \<Rightarrow> string list \<Rightarrow> 'x \<times> string option) \<Rightarrow> 'x \<Rightarrow> 'x \<times> driver_identity" where
  "driver_identity_with os backend name description output x =
     (case first_tool output (driver_tools os backend) x of
        (x1, Some v) \<Rightarrow> (x1, \<lparr>di_value = v, di_cacheable = True\<rparr>)
      | (x1, None) \<Rightarrow>
          (case (case platform_command os of None \<Rightarrow> (x1, None) | Some (program, args) \<Rightarrow> output x1 program args) of
             (x2, platform) \<Rightarrow>
               (x2, \<lparr>di_value = ''backend='' @ backend @ '';name='' @ name @ '';description='' @ description
                       @ '';platform='' @ (case platform of Some p \<Rightarrow> p | None \<Rightarrow> ''unknown'') @ '';driver=unverified'',
                     di_cacheable = False\<rparr>)))"

definition cached_driver_identity_with ::
  "target_os \<Rightarrow> (string \<rightharpoonup> driver_identity) \<Rightarrow> string \<Rightarrow> string \<Rightarrow> string
     \<Rightarrow> ('x \<Rightarrow> string \<Rightarrow> string list \<Rightarrow> 'x \<times> string option) \<Rightarrow> 'x \<Rightarrow> (string \<rightharpoonup> driver_identity) \<times> 'x \<times> driver_identity" where
  "cached_driver_identity_with os identities backend name description output x =
     (if eq_ignore_ascii_case backend CPU then (identities, x, \<lparr>di_value = CPU, di_cacheable = True\<rparr>)
      else
        (case identities (to_ascii_lowercase backend) of
           Some identity \<Rightarrow> (identities, x, identity)
         | None \<Rightarrow>
             (case driver_identity_with os backend name description output x of
                (x1, identity) \<Rightarrow> (identities(to_ascii_lowercase backend \<mapsto> identity), x1, identity))))"

fun runtime_devices_loop ::
  "target_os \<Rightarrow> ('x \<Rightarrow> string \<Rightarrow> string list \<Rightarrow> 'x \<times> string option) \<Rightarrow> native_device list \<Rightarrow> (string \<rightharpoonup> driver_identity) \<Rightarrow> 'x
     \<Rightarrow> 'x \<times> runtime_device list" where
  "runtime_devices_loop os output [] identities x = (x, [])"
| "runtime_devices_loop os output (d # ds) identities x =
     (case cached_driver_identity_with os identities (nd_backend d) (nd_name d) (nd_description d) output x of
        (identities1, x1, identity) \<Rightarrow>
          (case runtime_devices_loop os output ds identities1 x1 of
             (x2, rest) \<Rightarrow>
               (x2, \<lparr>dev_backend = nd_backend d, dev_index = nd_index d, dev_name = nd_name d,
                     dev_description = nd_description d, dev_memory_total = nd_memory_total d,
                     dev_driver = di_value identity, dev_driver_cacheable = di_cacheable identity\<rparr> # rest)))"

definition runtime_devices :: "target_os \<Rightarrow> 'x native_api \<Rightarrow> 'x \<Rightarrow> 'x \<times> runtime_device list" where
  "runtime_devices os N x = runtime_devices_loop os (command_output N) (nat_devices N x) Map.empty x"

section \<open>Loading\<close>

definition disable_capability :: "backend_capabilities \<Rightarrow> string \<Rightarrow> backend_capabilities" where
  "disable_capability caps backend =
     (if backend = METAL then caps\<lparr>cap_metal := False\<rparr>
      else if backend = VULKAN then caps\<lparr>cap_vulkan := False\<rparr>
      else if backend = CUDA then caps\<lparr>cap_cuda := False\<rparr>
      else caps)"

text \<open>
  \<open>load_final\<close>: the chosen candidate, and the CPU when an accelerated one does not load after all;
  then the stored verdict is dropped and the capability disabled.
\<close>

definition load_final ::
  "load_env \<Rightarrow> 'x native_api \<Rightarrow> ('x, 'c, 'b, 'f) llama_api \<Rightarrow> model_pin \<Rightarrow> path \<Rightarrow> runtime_selection
     \<Rightarrow> cache_file \<times> 'x \<Rightarrow> (cache_file \<times> 'x) \<times> (engine_error, llama_engine) result" where
  "load_final env N M pin p runtime w =
     (let candidate = \<lparr>cand_backend = sel_resolved (rs_selection runtime), cand_device = rs_device runtime,
                       cand_device_index = rs_device_index runtime\<rparr>
      in case load_candidate N M pin p candidate (rs_selection runtime) (rs_capabilities runtime) (snd w) of
           (x1, Inr engine) \<Rightarrow> ((fst w, x1), Inr engine)
         | (x1, Inl err) \<Rightarrow>
             if cand_backend candidate \<noteq> CPU then
               (let file1 = invalidate_cached_selection (env_store_codec env) (env_io env) runtime (fst w);
                    fallback = degraded_to_cpu (cand_backend candidate)
                      (cand_backend candidate @ '' final load failed: '' @ err_message err)
                in case load_candidate N M pin p cpu_candidate fallback
                          (disable_capability (rs_capabilities runtime) (cand_backend candidate)) x1 of
                     (x2, res) \<Rightarrow> ((file1, x2), res))
             else ((fst w, x1), Inl err))"

definition forced_cpu_runtime_with ::
  "load_env \<Rightarrow> path \<Rightarrow> selection_context \<Rightarrow> ('x \<Rightarrow> path \<Rightarrow> 'x \<times> (string, unit) result) \<Rightarrow> (unit \<Rightarrow> discovery)
     \<Rightarrow> ('x \<Rightarrow> backend_candidate \<Rightarrow> 'x \<times> (string, probe_timing) result) \<Rightarrow> cache_file \<times> 'x
     \<Rightarrow> (cache_file \<times> 'x) \<times> (engine_error, runtime_selection) result" where
  "forced_cpu_runtime_with env executable context load_modules discover benchmark w =
     (case load_modules (snd w) executable of
        (x1, Inl reason) \<Rightarrow> ((fst w, x1), Inl (engine_error_new ''BackendDiscovery'' reason))
      | (x1, Inr _) \<Rightarrow>
          (case select_runtime_with (env_sha256 env) (env_store_codec env) (env_io env) context (Some CPU) discover benchmark
                  (fst w) x1 of
             (file1, x2, Inl reason) \<Rightarrow> ((file1, x2), Inl (engine_error_new ''BackendProbe'' reason))
           | (file1, x2, Inr runtime) \<Rightarrow> ((file1, x2), Inr runtime)))"

definition native_cpu_modules :: "load_env \<Rightarrow> 'x native_api \<Rightarrow> 'x \<Rightarrow> path \<Rightarrow> 'x \<times> (string, unit) result" where
  "native_cpu_modules env N x executable =
     load_packaged_cpu_modules (env_os env = WindowsOs) executable (env_dirs env) (declared_build (env_feature env))
       (score_native_cpu_variant (nat_open_library N)) (load_native_module (nat_backend_load N)) x"

definition env_context :: "load_env \<Rightarrow> model_pin \<Rightarrow> string \<Rightarrow> selection_context" where
  "env_context env pin package_identity =
     \<lparr>ctx_sidecar_version = VERSION, ctx_model_sha256 = pin_sha256 pin,
      ctx_native_build_identity = env_native_build_identity env,
      ctx_packaged_backend_identity = package_identity\<rparr>"

definition exe_error :: "string \<Rightarrow> engine_error" where
  "exe_error e = engine_error_new ''BackendDiscovery'' (''cannot resolve executable: '' @ e)"

definition init_native :: "'x native_api \<Rightarrow> 'x \<Rightarrow> 'x \<times> (engine_error, unit) result" where
  "init_native N x = (case nat_init N x of (x1, r) \<Rightarrow> (x1, map_err (engine_error_new ''BackendInit'') r))"

text \<open>
  The forced-CPU half of \<open>load_guarded\<close>. The closures for discovery and benchmark panic in the
  source; \<open>forced_cpu_closures\<close> below shows that no closure is ever called, so any stand for them.
\<close>

definition load_forced_cpu ::
  "load_env \<Rightarrow> 'x native_api \<Rightarrow> ('x, 'c, 'b, 'f) llama_api \<Rightarrow> model_pin \<Rightarrow> path \<Rightarrow> cache_file \<times> 'x
     \<Rightarrow> (cache_file \<times> 'x) \<times> (engine_error, llama_engine) result" where
  "load_forced_cpu env N M pin p w =
     (case env_exe env of
        Inl e \<Rightarrow> (w, Inl (exe_error e))
      | Inr executable \<Rightarrow>
          (case forced_cpu_runtime_with env executable (env_context env pin ''forced-cpu'') (native_cpu_modules env N)
                  (\<lambda>_. discover_candidates (declared_build (env_feature env)) [])
                  (\<lambda>x c. (x, Inl ''panic: forced cpu must skip benchmarks'')) w of
             (w1, Inl e) \<Rightarrow> (w1, Inl e)
           | (w1, Inr runtime) \<Rightarrow>
               (case init_native N (snd w1) of
                  (x2, Inl e) \<Rightarrow> ((fst w1, x2), Inl e)
                | (x2, Inr _) \<Rightarrow> load_final env N M pin p runtime (fst w1, x2))))"

text \<open>The other half: modules, initialisation, devices, selection with the benchmark, final load.\<close>

definition load_selected ::
  "load_env \<Rightarrow> 'x native_api \<Rightarrow> ('x, 'c, 'b, 'f) llama_api \<Rightarrow> 'f float_ops \<Rightarrow> model_pin \<Rightarrow> path \<Rightarrow> string option
     \<Rightarrow> cache_file \<times> 'x \<Rightarrow> (cache_file \<times> 'x) \<times> (engine_error, llama_engine) result" where
  "load_selected env N M F pin p forced w =
     (case env_exe env of
        Inl e \<Rightarrow> (w, Inl (exe_error e))
      | Inr executable \<Rightarrow>
          (let declared = declared_build (env_feature env);
               windows = (env_os env = WindowsOs);
               context = env_context env pin
                 (packaged_backend_identity (env_sha256 env) windows (env_package_codec env) (env_roots env)
                    (env_dirs env) (env_read_file env) declared executable)
           in case load_packaged_modules windows executable (env_dirs env) declared
                  (score_native_cpu_variant (nat_open_library N)) (load_native_module (nat_backend_load N)) (snd w) of
                (x1, Inl reason) \<Rightarrow> ((fst w, x1), Inl (engine_error_new ''BackendDiscovery'' reason))
              | (x1, Inr module_failures) \<Rightarrow>
                  (case init_native N x1 of
                     (x2, Inl e) \<Rightarrow> ((fst w, x2), Inl e)
                   | (x2, Inr _) \<Rightarrow>
                       (case runtime_devices (env_os env) N x2 of
                          (x3, devices) \<Rightarrow>
                            (case select_runtime_with (env_sha256 env) (env_store_codec env) (env_io env) context forced
                                    (\<lambda>_. (discover_candidates declared devices)\<lparr>accelerator_failures := module_failures\<rparr>)
                                    (benchmark_candidate N M F pin p) (fst w) x3 of
                               (file1, x4, Inl reason) \<Rightarrow> ((file1, x4), Inl (engine_error_new ''BackendProbe'' reason))
                             | (file1, x4, Inr runtime) \<Rightarrow> load_final env N M pin p runtime (file1, x4))))))"

definition load_guarded ::
  "load_env \<Rightarrow> 'x native_api \<Rightarrow> ('x, 'c, 'b, 'f) llama_api \<Rightarrow> 'f float_ops \<Rightarrow> model_pin \<Rightarrow> path \<Rightarrow> backend_policy
     \<Rightarrow> cache_file \<times> 'x \<Rightarrow> (cache_file \<times> 'x) \<times> (engine_error, llama_engine) result" where
  "load_guarded env N M F pin p policy w =
     (let forced = (case policy of Auto \<Rightarrow> forced_backend (env_forced env) | CpuOnly \<Rightarrow> Some CPU)
      in if (case forced of None \<Rightarrow> False | Some v \<Rightarrow> eq_ignore_ascii_case v CPU) then load_forced_cpu env N M pin p w
         else load_selected env N M F pin p forced w)"

text \<open>\<open>file_digest\<close> and \<open>verify_cached_digest\<close> of the engine.\<close>

definition model_digest :: "load_env \<Rightarrow> path \<Rightarrow> (string, string) result" where
  "model_digest env p =
     (case env_model env p of
        NoModelFile \<Rightarrow> Inl ''not a file'' | UnreadableModel e \<Rightarrow> Inl e | ModelContent c \<Rightarrow> Inr (hex (env_sha256 env c)))"

definition verify_cached_digest :: "load_env \<Rightarrow> path \<Rightarrow> string \<Rightarrow> (engine_error, unit) result" where
  "verify_cached_digest env p expected =
     (case model_digest env p of
        Inl e \<Rightarrow> Inl (engine_error_new ''ModelNotPrepared'' (''cannot read '' @ path_display p @ '' to verify its digest: '' @ e))
      | Inr actual \<Rightarrow>
          if eq_ignore_ascii_case actual expected then Inr ()
          else Inl (engine_error_new ''ModelNotPrepared''
                 (path_display p @ '' does not match its pinned digest: expected sha256 '' @ expected @ '', found '' @ actual
                    @ ''; delete it and re-run `prepare`'')))"

definition load_with_policy ::
  "load_env \<Rightarrow> 'x native_api \<Rightarrow> ('x, 'c, 'b, 'f) llama_api \<Rightarrow> 'f float_ops \<Rightarrow> model_pin \<Rightarrow> path
     \<Rightarrow> cache_file \<times> 'x \<Rightarrow> backend_policy \<Rightarrow> (cache_file \<times> 'x) \<times> (engine_error, llama_engine \<times> 'x) result" where
  "load_with_policy env N M F pin dir w policy =
     (let p = path_join dir (pin_file pin)
      in if env_model env p = NoModelFile then
           (w, Inl (engine_error_new ''ModelNotPrepared'' (path_display p @ '' is not in the cache; run `prepare`'')))
         else
           (case verify_cached_digest env p (pin_sha256 pin) of
              Inl e \<Rightarrow> (w, Inl e)
            | Inr _ \<Rightarrow>
                (case load_guarded env N M F pin p policy w of
                   (w1, Inl e) \<Rightarrow> (w1, Inl e)
                 | (w1, Inr engine) \<Rightarrow> (w1, Inr (engine, snd w1)))))"

text \<open>\<open>LlamaEngine::load\<close>.\<close>

definition llama_load ::
  "load_env \<Rightarrow> 'x native_api \<Rightarrow> ('x, 'c, 'b, 'f) llama_api \<Rightarrow> 'f float_ops \<Rightarrow> model_pin \<Rightarrow> path
     \<Rightarrow> cache_file \<times> 'x \<Rightarrow> (cache_file \<times> 'x) \<times> (engine_error, llama_engine \<times> 'x) result" where
  "llama_load env N M F pin dir w = load_with_policy env N M F pin dir w Auto"

section \<open>What each part of the load gives\<close>

text \<open>
  Where the weights are: on the CPU no layer is offloaded and no device is named; on an accelerator the
  number of layers is left to llama.cpp, and the only device is the one with the index, when there is one.
\<close>

definition weights_placed :: "'x native_api \<Rightarrow> bool \<Rightarrow> nat option \<Rightarrow> model_params \<Rightarrow> bool" where
  "weights_placed N accelerated index params \<longleftrightarrow>
     (if accelerated
      then mp_n_gpu_layers params = None
        \<and> (case index of
             None \<Rightarrow> mp_devices params = None
           | Some i \<Rightarrow> \<exists>devices. nat_with_devices N [i] = Inr devices \<and> mp_devices params = Some devices)
      else params = \<lparr>mp_n_gpu_layers = Some 0, mp_devices = None\<rparr>)"

lemma load_candidate_loaded:
  assumes "load_candidate N M pin p c sel caps x = (x1, Inr e)"
  shows "le_pin e = pin" and "le_selection e = sel" and "le_device e = cand_device c" and "le_capabilities e = caps"
    and "\<exists>params. nat_load_model N x p params = (x1, Inr ())
           \<and> weights_placed N (cand_backend c \<noteq> CPU) (cand_device_index c) params"
  using assms
  by (auto simp: load_candidate_def model_params_for_candidate_def placement_for_candidate_def weights_placed_def Let_def
      split: prod.splits sum.splits if_splits option.splits)

text \<open>The kinds of error a load can end with, apart from \<open>ModelNotPrepared\<close>.\<close>

definition load_error_kinds :: "string list" where
  "load_error_kinds = [''BackendDiscovery'', ''BackendProbe'', ''BackendInit'', ''BackendPlacement'', ''ModelLoad'', ''Tokenize'']"

lemma load_error_kinds_not:
  "err_kind e \<in> set load_error_kinds \<Longrightarrow> err_kind e \<noteq> ''ModelNotPrepared''"
  "err_kind e \<in> set load_error_kinds \<Longrightarrow> err_kind e \<noteq> ''BackendPolicy''"
  by (auto simp: load_error_kinds_def)

lemma load_error_kindsI [simp]:
  "err_kind (engine_error_new ''BackendDiscovery'' m) \<in> set load_error_kinds"
  "err_kind (engine_error_new ''BackendProbe'' m) \<in> set load_error_kinds"
  "err_kind (engine_error_new ''BackendInit'' m) \<in> set load_error_kinds"
  "err_kind (engine_error_new ''BackendPlacement'' m) \<in> set load_error_kinds"
  "err_kind (engine_error_new ''ModelLoad'' m) \<in> set load_error_kinds"
  "err_kind (tokenize_error m) \<in> set load_error_kinds"
  by (simp_all add: load_error_kinds_def engine_error_new_def tokenize_error_def)

lemma load_candidate_error:
  "load_candidate N M pin p c sel caps x = (x1, Inl err) \<Longrightarrow> err_kind err \<in> set load_error_kinds"
  by (auto simp: load_candidate_def model_params_for_candidate_def measure_eos_reserve_def
      measure_special_token_overhead_def Let_def split: prod.splits sum.splits if_splits option.splits)

lemma load_final_error:
  "load_final env N M pin p r w = (w1, Inl err) \<Longrightarrow> err_kind err \<in> set load_error_kinds"
  by (auto simp: load_final_def Let_def dest: load_candidate_error split: prod.splits sum.splits if_splits)

lemma load_forced_cpu_error:
  "load_forced_cpu env N M pin p w = (w1, Inl err) \<Longrightarrow> err_kind err \<in> set load_error_kinds"
  by (auto simp: load_forced_cpu_def forced_cpu_runtime_with_def init_native_def exe_error_def map_err_def
      dest: load_final_error split: prod.splits sum.splits)

lemma load_selected_error:
  "load_selected env N M F pin p f w = (w1, Inl err) \<Longrightarrow> err_kind err \<in> set load_error_kinds"
  by (auto simp: load_selected_def init_native_def exe_error_def map_err_def Let_def
      dest: load_final_error split: prod.splits sum.splits)

lemma load_guarded_error:
  "load_guarded env N M F pin p policy w = (w1, Inl err) \<Longrightarrow> err_kind err \<in> set load_error_kinds"
  by (auto simp: load_guarded_def Let_def dest: load_forced_cpu_error load_selected_error split: if_splits)

text \<open>
  What a loaded engine reports, as one predicate: the pin, a selection that hides nothing, and weights
  that were loaded where the selection and the device name say. The device is the CPU, one llama.cpp
  lists, or the one of a verdict in the store.
\<close>

definition known_device ::
  "load_env \<Rightarrow> 'x native_api \<Rightarrow> cache_file \<Rightarrow> string \<Rightarrow> string \<Rightarrow> nat option \<Rightarrow> bool" where
  "known_device env N file backend device index \<longleftrightarrow>
     (\<exists>y. device_known (declared_build (env_feature env)) (env_store_codec env) file (snd (runtime_devices (env_os env) N y))
        backend device index)"

definition loaded_as_reported ::
  "load_env \<Rightarrow> 'x native_api \<Rightarrow> cache_file \<Rightarrow> model_pin \<Rightarrow> path \<Rightarrow> llama_engine \<Rightarrow> 'x \<Rightarrow> bool" where
  "loaded_as_reported env N file pin p e x \<longleftrightarrow>
     le_pin e = pin \<and> selection_honest (le_selection e)
     \<and> (\<exists>index x0 params. known_device env N file (sel_resolved (le_selection e)) (le_device e) index
          \<and> nat_load_model N x0 p params = (x, Inr ())
          \<and> weights_placed N (sel_accelerated (le_selection e)) index params)"

lemma cpu_known_device [simp]: "known_device env N file CPU CPU None"
  by (simp add: known_device_def)

lemma load_candidate_reported:
  assumes "load_candidate N M pin p c sel caps x = (x1, Inr e)" and "selection_honest sel"
    and "cand_backend c = sel_resolved sel"
    and "known_device env N file (cand_backend c) (cand_device c) (cand_device_index c)"
  shows "loaded_as_reported env N file pin p e x1"
proof -
  have acc: "(cand_backend c \<noteq> CPU) = sel_accelerated sel" using assms(2,3) by (auto simp: selection_honest_def)
  note l = load_candidate_loaded [OF assms(1)]
  from l(5) obtain params where "nat_load_model N x p params = (x1, Inr ())"
    "weights_placed N (sel_accelerated sel) (cand_device_index c) params"
    unfolding acc by blast
  with l(1-3) assms(2-4) show ?thesis
    unfolding loaded_as_reported_def by (intro conjI exI [of _ "cand_device_index c"] exI [of _ x] exI [of _ params]) simp_all
qed

lemma degraded_to_cpu_resolved: "sel_resolved (degraded_to_cpu b reason) = CPU"
  by (simp add: degraded_to_cpu_def selection_new_def)

lemma load_final_reported:
  assumes "codec_roundtrip (env_store_codec env)" and "store_honest (env_store_codec env) (fst w)"
    and "selection_honest (rs_selection runtime)"
    and known: "known_device env N file (sel_resolved (rs_selection runtime)) (rs_device runtime) (rs_device_index runtime)"
    and run: "load_final env N M pin p runtime w = ((file', x'), Inr e)"
  shows "loaded_as_reported env N file pin p e x' \<and> store_honest (env_store_codec env) file'"
proof -
  define c where "c = \<lparr>cand_backend = sel_resolved (rs_selection runtime), cand_device = rs_device runtime,
                       cand_device_index = rs_device_index runtime\<rparr>"
  obtain x1 res where l: "load_candidate N M pin p c (rs_selection runtime) (rs_capabilities runtime) (snd w) = (x1, res)"
    by (cases "load_candidate N M pin p c (rs_selection runtime) (rs_capabilities runtime) (snd w)")
  show ?thesis
  proof (cases res)
    case (Inr e')
    with run l have "e' = e" "x1 = x'" "file' = fst w" by (simp_all add: load_final_def Let_def c_def)
    with Inr l assms(2,3) known load_candidate_reported [of N M pin p c] show ?thesis by (simp add: c_def)
  next
    case (Inl err)
    then have acc: "cand_backend c \<noteq> CPU" using run l by (auto simp: load_final_def Let_def c_def)
    define fallback where "fallback = degraded_to_cpu (cand_backend c) (cand_backend c @ '' final load failed: '' @ err_message err)"
    have cpu: "load_candidate N M pin p cpu_candidate fallback (disable_capability (rs_capabilities runtime) (cand_backend c)) x1
        = (x', Inr e)" and fl: "file' = invalidate_cached_selection (env_store_codec env) (env_io env) runtime (fst w)"
      using run l Inl acc by (auto simp: load_final_def Let_def c_def fallback_def split: prod.splits)
    have "selection_honest fallback" "cand_backend cpu_candidate = sel_resolved fallback"
      "known_device env N file (cand_backend cpu_candidate) (cand_device cpu_candidate) (cand_device_index cpu_candidate)"
      using acc by (simp_all add: fallback_def cpu_candidate_def degraded_to_cpu_resolved)
    with cpu have "loaded_as_reported env N file pin p e x'" by (rule load_candidate_reported)
    with fl invalidate_honest [OF assms(1,2)] show ?thesis by simp
  qed
qed

lemma normalize_cpu: "normalize_forced (Some CPU) = Some CPU"
  by code_simp

lemma forced_cpu_select:
  "select_runtime_with sha codec io context (Some CPU) discover benchmark file x = (file, x, Inr (cpu_runtime selection_cpu cpu_only))"
  by (simp add: select_runtime_with_def normalize_cpu)

lemma forced_cpu_closures:
  "forced_cpu_runtime_with env executable context load_modules discover benchmark w
     = forced_cpu_runtime_with env executable context load_modules discover' benchmark' w"
  by (simp add: forced_cpu_runtime_with_def forced_cpu_select split: prod.split sum.split)

lemma load_forced_cpu_loaded:
  assumes "load_forced_cpu env N M pin p w = ((file', x'), Inr e)"
  shows "file' = fst w" and "le_selection e = selection_cpu" and "loaded_as_reported env N (fst w) pin p e x'"
proof -
  from assms obtain x2 where l: "load_final env N M pin p (cpu_runtime selection_cpu cpu_only) (fst w, x2) = ((file', x'), Inr e)"
    by (auto simp: load_forced_cpu_def forced_cpu_runtime_with_def forced_cpu_select split: prod.splits sum.splits)
  then have c: "file' = fst w" "\<exists>caps. load_candidate N M pin p cpu_candidate selection_cpu caps x2 = (x', Inr e)"
    by (auto simp: load_final_def Let_def cpu_runtime_def selection_cpu_def selection_new_def cpu_candidate_def
        split: prod.splits sum.splits)
  then show "file' = fst w" "le_selection e = selection_cpu" using load_candidate_loaded(2) by auto
  from c(2) obtain caps where l: "load_candidate N M pin p cpu_candidate selection_cpu caps x2 = (x', Inr e)" by blast
  show "loaded_as_reported env N (fst w) pin p e x'"
    by (rule load_candidate_reported [OF l]) (simp_all add: cpu_candidate_def selection_cpu_def selection_new_def selection_honest_def)
qed

lemma load_selected_reported:
  assumes c: "codec_roundtrip (env_store_codec env)" and h: "store_honest (env_store_codec env) (fst w)"
    and run: "load_selected env N M F pin p forced w = ((file', x'), Inr e)"
  shows "loaded_as_reported env N (fst w) pin p e x' \<and> store_honest (env_store_codec env) file'"
proof -
  from run obtain ctx discover x3 file1 x4 runtime devices module_failures where
    s: "select_runtime_with (env_sha256 env) (env_store_codec env) (env_io env) ctx forced discover
          (benchmark_candidate N M F pin p) (fst w) x3 = (file1, x4, Inr runtime)"
    and d: "discover () = (discover_candidates (declared_build (env_feature env)) devices)\<lparr>accelerator_failures := module_failures\<rparr>"
    and l: "load_final env N M pin p runtime (file1, x4) = ((file', x'), Inr e)"
    and devices: "\<exists>y. devices = snd (runtime_devices (env_os env) N y)"
    by (auto simp: load_selected_def Let_def split: prod.splits sum.splits) (metis snd_conv)
  from select_runtime_known [OF d s] devices
  have "known_device env N (fst w) (sel_resolved (rs_selection runtime)) (rs_device runtime) (rs_device_index runtime)"
    by (auto simp: known_device_def)
  with select_runtime_honest [OF c h d s] load_final_reported [OF c _ _ _ l] show ?thesis by simp
qed

lemma load_guarded_reported:
  assumes "codec_roundtrip (env_store_codec env)" and "store_honest (env_store_codec env) (fst w)"
    and "load_guarded env N M F pin p policy w = ((file', x'), Inr e)"
  shows "loaded_as_reported env N (fst w) pin p e x' \<and> store_honest (env_store_codec env) file'"
proof -
  from assms(3) consider "load_forced_cpu env N M pin p w = ((file', x'), Inr e)"
    | forced where "load_selected env N M F pin p forced w = ((file', x'), Inr e)"
    by (auto simp: load_guarded_def Let_def split: if_splits)
  then show ?thesis
  proof cases
    case 1
    from load_forced_cpu_loaded(1,3) [OF this] assms(2) show ?thesis by simp
  next
    case 2
    from load_selected_reported [OF assms(1,2) this] show ?thesis .
  qed
qed

text \<open>Whether the model can be served at all: the file of the pin is there and has the pinned digest.\<close>

definition model_prepared :: "load_env \<Rightarrow> model_pin \<Rightarrow> path \<Rightarrow> bool" where
  "model_prepared env pin dir \<longleftrightarrow>
     (case env_model env (path_join dir (pin_file pin)) of
        ModelContent content \<Rightarrow> eq_ignore_ascii_case (hex (env_sha256 env content)) (pin_sha256 pin)
      | _ \<Rightarrow> False)"

lemma load_with_policy_prepared:
  assumes "model_prepared env pin dir"
  shows "load_with_policy env N M F pin dir w policy =
    (case load_guarded env N M F pin (path_join dir (pin_file pin)) policy w of
       (w1, Inl e) \<Rightarrow> (w1, Inl e) | (w1, Inr engine) \<Rightarrow> (w1, Inr (engine, snd w1)))"
  using assms
  by (simp add: model_prepared_def load_with_policy_def verify_cached_digest_def model_digest_def Let_def
      split: model_file.splits)

lemma load_with_policy_unprepared:
  assumes "\<not> model_prepared env pin dir"
  shows "\<exists>m. load_with_policy env N M F pin dir w policy = (w, Inl (engine_error_new ''ModelNotPrepared'' m))"
  using assms
  by (auto simp: model_prepared_def load_with_policy_def verify_cached_digest_def model_digest_def Let_def
      split: model_file.splits)

lemma load_with_policy_loaded:
  assumes "load_with_policy env N M F pin dir w policy = (w', Inr (e, x))"
  shows "model_prepared env pin dir" and "x = snd w'"
    and "load_guarded env N M F pin (path_join dir (pin_file pin)) policy w = ((fst w', x), Inr e)"
proof -
  show p: "model_prepared env pin dir" using assms load_with_policy_unprepared [of env pin dir N M F w policy] by auto
  from assms show "x = snd w'" "load_guarded env N M F pin (path_join dir (pin_file pin)) policy w = ((fst w', x), Inr e)"
    unfolding load_with_policy_prepared [OF p] by (auto split: prod.splits sum.splits)
qed

lemma load_with_policy_error:
  assumes "load_with_policy env N M F pin dir w policy = (w', Inl err)"
  shows "\<not> model_prepared env pin dir \<Longrightarrow> err_kind err = ''ModelNotPrepared''"
    and "model_prepared env pin dir \<Longrightarrow> err_kind err \<in> set load_error_kinds"
proof -
  show "err_kind err = ''ModelNotPrepared''" if "\<not> model_prepared env pin dir"
    using that assms load_with_policy_unprepared [of env pin dir N M F w policy] by (auto simp: engine_error_new_def)
  show "err_kind err \<in> set load_error_kinds" if "model_prepared env pin dir"
    using assms unfolding load_with_policy_prepared [OF that]
    by (auto dest: load_guarded_error split: prod.splits sum.splits)
qed

lemma load_guarded_cpu_only: "load_guarded env N M F pin p CpuOnly w = load_forced_cpu env N M pin p w"
  by (simp add: load_guarded_def Let_def eq_ignore_ascii_case_def)

text \<open>
  The driver identities: each remembered one was given by a tool or is not cacheable, and every
  device carries the one remembered for its backend.
\<close>

definition identities_ok ::
  "target_os \<Rightarrow> ('x \<Rightarrow> string \<Rightarrow> string list \<Rightarrow> 'x \<times> string option) \<Rightarrow> (string \<rightharpoonup> driver_identity) \<Rightarrow> bool" where
  "identities_ok os output ids \<longleftrightarrow>
     (\<forall>k i. ids k = Some i \<and> di_cacheable i \<longrightarrow>
        (\<exists>label tool args y v. (label, tool, args) \<in> set (driver_tools os k) \<and> snd (output y tool args) = Some v
           \<and> di_value i = label @ v))"

definition identified :: "(string \<rightharpoonup> driver_identity) \<Rightarrow> runtime_device \<Rightarrow> bool" where
  "identified ids d \<longleftrightarrow>
     (if eq_ignore_ascii_case (dev_backend d) CPU then dev_driver d = CPU \<and> dev_driver_cacheable d
      else ids (to_ascii_lowercase (dev_backend d)) = Some \<lparr>di_value = dev_driver d, di_cacheable = dev_driver_cacheable d\<rparr>)"

definition driver_named :: "target_os \<Rightarrow> 'x native_api \<Rightarrow> runtime_device \<Rightarrow> bool" where
  "driver_named os N d \<longleftrightarrow>
     eq_ignore_ascii_case (dev_backend d) CPU
     \<or> (\<exists>label tool args y v. (label, tool, args) \<in> set (driver_tools os (dev_backend d))
          \<and> snd (command_output N y tool args) = Some v \<and> dev_driver d = label @ v)"

lemma identities_okD:
  "identities_ok os output ids \<Longrightarrow> ids k = Some \<lparr>di_value = a, di_cacheable = True\<rparr> \<Longrightarrow>
     \<exists>label tool args y v. (label, tool, args) \<in> set (driver_tools os k) \<and> snd (output y tool args) = Some v \<and> a = label @ v"
  by (metis driver_identity.select_convs identities_ok_def)

lemma driver_tools_lower: "driver_tools os (to_ascii_lowercase b) = driver_tools os b"
  unfolding driver_tools_def eq_ignore_ascii_lower ..

lemma first_tool_answer:
  "first_tool output tools x = (x', Some a) \<Longrightarrow>
     \<exists>label tool args y v. (label, tool, args) \<in> set tools \<and> snd (output y tool args) = Some v \<and> a = label @ v"
proof (induction tools arbitrary: x)
  case (Cons t tools)
  obtain label tool args where t: "t = (label, tool, args)" by (cases t)
  obtain x1 res where o: "output x tool args = (x1, res)" by (cases "output x tool args")
  show ?case
  proof (cases res)
    case None
    with Cons.prems t o have "first_tool output tools x1 = (x', Some a)" by simp
    from Cons.IH [OF this] show ?thesis by (metis list.set_intros(2))
  next
    case (Some v)
    with Cons.prems t o have "a = label @ v" "snd (output x tool args) = Some v" by simp_all
    moreover have "(label, tool, args) \<in> set (t # tools)" using t by simp
    ultimately show ?thesis by blast
  qed
qed simp

lemma cached_driver_identity_result:
  assumes "cached_driver_identity_with os ids b nm desc output x = (ids', x', i)" and "identities_ok os output ids"
  shows "identities_ok os output ids'" and "ids \<subseteq>\<^sub>m ids'"
    and "if eq_ignore_ascii_case b CPU then i = \<lparr>di_value = CPU, di_cacheable = True\<rparr>
         else ids' (to_ascii_lowercase b) = Some i"
proof -
  consider "eq_ignore_ascii_case b CPU" | i' where "\<not> eq_ignore_ascii_case b CPU" "ids (to_ascii_lowercase b) = Some i'"
    | "\<not> eq_ignore_ascii_case b CPU" "ids (to_ascii_lowercase b) = None" by fastforce
  then have "identities_ok os output ids' \<and> ids \<subseteq>\<^sub>m ids' \<and>
    (if eq_ignore_ascii_case b CPU then i = \<lparr>di_value = CPU, di_cacheable = True\<rparr>
     else ids' (to_ascii_lowercase b) = Some i)"
  proof cases
    case 3
    with assms(1) have n: "driver_identity_with os b nm desc output x = (x', i)" "ids' = ids(to_ascii_lowercase b \<mapsto> i)"
      by (auto simp: cached_driver_identity_with_def split: prod.splits)
    have "\<exists>label tool args y v. (label, tool, args) \<in> set (driver_tools os b) \<and> snd (output y tool args) = Some v
        \<and> di_value i = label @ v" if "di_cacheable i"
      using n(1) that first_tool_answer [of "output" "driver_tools os b" x]
      by (fastforce simp: driver_identity_with_def split: prod.splits option.splits)
    then have "identities_ok os output ids'" using assms(2) n(2) by (auto simp: identities_ok_def driver_tools_lower)
    with 3 n(2) show ?thesis by (auto simp: map_le_def)
  qed (use assms in \<open>auto simp: cached_driver_identity_with_def\<close>)
  then show "identities_ok os output ids'" "ids \<subseteq>\<^sub>m ids'"
    "if eq_ignore_ascii_case b CPU then i = \<lparr>di_value = CPU, di_cacheable = True\<rparr> else ids' (to_ascii_lowercase b) = Some i"
    by blast+
qed

lemma identified_same:
  assumes "identified ids d" and "identified ids d'" and "eq_ignore_ascii_case (dev_backend d) (dev_backend d')"
  shows "dev_driver d = dev_driver d' \<and> dev_driver_cacheable d = dev_driver_cacheable d'"
proof -
  have "to_ascii_lowercase (dev_backend d) = to_ascii_lowercase (dev_backend d')"
    using assms(3) by (simp add: eq_ignore_ascii_case_def)
  with assms(1,2) show ?thesis
    by (cases "to_ascii_lowercase (dev_backend d') = to_ascii_lowercase CPU")
      (simp_all add: identified_def eq_ignore_ascii_case_def)
qed

lemma identified_mono: "identified ids d \<Longrightarrow> ids \<subseteq>\<^sub>m ids' \<Longrightarrow> identified ids' d"
  by (auto simp: identified_def map_le_def split: if_splits) (metis domI)

lemma runtime_devices_loop_result:
  assumes "runtime_devices_loop os output ds ids x = (x', devs)" and "identities_ok os output ids"
  shows "\<exists>ids'. identities_ok os output ids' \<and> ids \<subseteq>\<^sub>m ids' \<and> (\<forall>d\<in>set devs. identified ids' d)
    \<and> map (\<lambda>d. (dev_backend d, dev_index d, dev_name d, dev_description d, dev_memory_total d)) devs
      = map (\<lambda>d. (nd_backend d, nd_index d, nd_name d, nd_description d, nd_memory_total d)) ds"
  using assms
proof (induction ds arbitrary: ids x devs)
  case (Cons d ds)
  obtain ids1 x1 i where c: "cached_driver_identity_with os ids (nd_backend d) (nd_name d) (nd_description d) output x
      = (ids1, x1, i)"
    by (metis prod.exhaust)
  obtain x2 rest where r: "runtime_devices_loop os output ds ids1 x1 = (x2, rest)"
    by (cases "runtime_devices_loop os output ds ids1 x1")
  note k = cached_driver_identity_result [OF c Cons.prems(2)]
  from Cons.IH [OF _ k(1), of x1 rest] r Cons.prems(1) c obtain ids' where ids': "identities_ok os output ids'" "ids1 \<subseteq>\<^sub>m ids'"
    "\<forall>d\<in>set rest. identified ids' d"
    "map (\<lambda>d. (dev_backend d, dev_index d, dev_name d, dev_description d, dev_memory_total d)) rest
      = map (\<lambda>d. (nd_backend d, nd_index d, nd_name d, nd_description d, nd_memory_total d)) ds" by auto
  let ?dev = "\<lparr>dev_backend = nd_backend d, dev_index = nd_index d, dev_name = nd_name d, dev_description = nd_description d,
      dev_memory_total = nd_memory_total d, dev_driver = di_value i, dev_driver_cacheable = di_cacheable i\<rparr>"
  have "identified ids1 ?dev" using k(3) by (cases i) (simp add: identified_def split: if_splits)
  then have "identified ids' ?dev" using ids'(2) by (rule identified_mono)
  moreover have "devs = ?dev # rest" using Cons.prems(1) c r by simp
  ultimately show ?case using ids' k(2) by (intro exI [of _ ids']) (auto intro: map_le_trans)
qed auto

section \<open>Properties of loading\<close>

text \<open>
  C12 (invariant). A loaded engine serves what it says it serves, whatever policy, environment and
  native library: the file it was loaded from has the pinned digest; the selection it reports is
  accelerated exactly when it resolved to other than the CPU and names a reason exactly when it
  differs from the request; and the weights were loaded where it says. On the CPU no layer is offloaded
  and no device is named. On an accelerator the number of layers is left to llama.cpp and the one
  device given to it is the device of the index of a known device: one that llama.cpp lists for the
  backend and whose description or name the engine reports, or the one a stored verdict names; no
  device is given only where the stored verdict has no index and none is listed. The verdicts on disk
  stay honest. The hypotheses are that the store is honest at the start and that \<open>serde_json\<close> reads
  back what it wrote. This covers the fallback after a failed final load, and a verdict read back from
  the store.
\<close>

theorem engine_loaded_as_reported:
  assumes "codec_roundtrip (env_store_codec env)" and "store_honest (env_store_codec env) (fst w)"
    and "load_with_policy env N M F pin dir w policy = (w', Inr (e, x))"
  shows "model_prepared env pin dir \<and> loaded_as_reported env N (fst w) pin (path_join dir (pin_file pin)) e x
    \<and> store_honest (env_store_codec env) (fst w')"
  using load_with_policy_loaded [OF assms(3)] load_guarded_reported [OF assms(1,2)] by blast

text \<open>A process started with the backend forced to Metal on a machine that has no such device.\<close>

definition sample_env :: load_env where
  "sample_env =
     \<lparr>env_os = Linux, env_feature = (\<lambda>_. False), env_forced = Some METAL,
      env_exe = Inr \<lparr>path_absolute = True, path_components = [''sidecar'']\<rparr>, env_native_build_identity = ''n'',
      env_sha256 = (\<lambda>_. []), env_model = (\<lambda>_. ModelContent ''w''),
      env_package_codec = \<lparr>pkg_to_vec_pretty = (\<lambda>_. Inl ''e''), pkg_from_slice = (\<lambda>_. Inl ''e'')\<rparr>,
      env_roots = (\<lambda>_. \<lparr>fs_names = [], fs_node = (\<lambda>_. OtherNode), fs_modified = (\<lambda>_. 0), fs_error = (\<lambda>_. None)\<rparr>),
      env_dirs = (\<lambda>_. sample_modules), env_read_file = (\<lambda>_. None), env_store_codec = empty_codec, env_io = io_ok\<rparr>"

definition sample_native :: "context_params list native_api" where
  "sample_native =
     \<lparr>nat_init = (\<lambda>x. (x, Inr ())), nat_devices = (\<lambda>x. []), nat_run = (\<lambda>x p args. (x, None)),
      nat_open_library = (\<lambda>x p. (x, Inr (\<lambda>symbol. Inr (\<lambda>x. (x, 1))))), nat_backend_load = (\<lambda>x p. (x, True)), nat_with_devices = Inr,
      nat_load_model = (\<lambda>x p params. (x, if mp_n_gpu_layers params = None then Inl ''oom'' else Inr ())),
      nat_elapsed = (\<lambda>x y. 1)\<rparr>"

definition sample_pin :: model_pin where
  "sample_pin = (le_pin sample_engine)\<lparr>pin_sha256 := []\<rparr>"

definition sample_dir :: path where
  "sample_dir = \<lparr>path_absolute = True, path_components = [''cache'']\<rparr>"

definition sample_loaded :: "selection \<Rightarrow> backend_capabilities \<Rightarrow> llama_engine" where
  "sample_loaded sel caps = sample_engine\<lparr>le_pin := sample_pin, le_selection := sel, le_capabilities := caps\<rparr>"

lemma sample_load_candidate:
  "load_candidate sample_native toy_llama sample_pin p cpu_candidate sel caps x = (x, Inr (sample_loaded sel caps))"
  by (simp add: load_candidate_def model_params_for_candidate_def placement_for_candidate_def cpu_candidate_def
      sample_native_def measure_eos_reserve_def measure_special_token_overhead_def toy_llama_def sample_pin_def
      sample_engine_def sample_loaded_def bge_pin_def Let_def)

lemma sample_forced: "forced_backend (Some METAL) = Some METAL" "normalize_forced (Some METAL) = Some METAL"
  "\<not> eq_ignore_ascii_case METAL CPU"
  by code_simp+

lemma sample_select:
  "select_runtime_with sha codec io context (Some METAL)
     (\<lambda>_. (discover_candidates (declared_build (\<lambda>_. False)) [])\<lparr>accelerator_failures := []\<rparr>) benchmark file x
   = (file, x, Inr (degraded_runtime METAL ''requested backend is unavailable''))"
  by (simp add: select_runtime_with_def sample_forced discover_candidates_def discover_backend_def declared_build_def
      supports_def stable_accelerators_def cpu_candidate_def Let_def)

lemma sample_engine_load:
  "load_with_policy sample_env sample_native toy_llama toy_ops sample_pin sample_dir (None, []) Auto
     = ((None, []), Inr (sample_loaded (degraded_to_cpu METAL ''requested backend is unavailable'') cpu_only, []))"
proof -
  have "load_final sample_env sample_native toy_llama sample_pin p
      (degraded_runtime METAL ''requested backend is unavailable'') (None, [])
      = ((None, []), Inr (sample_loaded (degraded_to_cpu METAL ''requested backend is unavailable'') cpu_only))" for p
    using sample_load_candidate [unfolded cpu_candidate_def]
    by (simp add: load_final_def degraded_runtime_def degraded_to_cpu_resolved)
  then show ?thesis
    by (simp add: load_with_policy_def verify_cached_digest_def model_digest_def sample_env_def sample_pin_def hex_def
        load_guarded_def sample_forced load_selected_def load_packaged_modules_def declared_build_def init_native_def
        runtime_devices_def sample_native_def sample_select [unfolded declared_build_def, simplified] Let_def)
qed

text \<open>
  A start that reads an accelerated verdict for the first device from the store, and a llama.cpp that
  loads the weights only onto that device.
\<close>

definition sample_stored :: runtime_selection where
  "sample_stored =
     \<lparr>rs_selection = selection_new METAL METAL None, rs_capabilities = cpu_only\<lparr>cap_metal := True\<rparr>, rs_device = ''gpu'',
      rs_device_index = Some 0, rs_cache_key = Some ''k''\<rparr>"

definition full_codec :: store_codec where
  "full_codec = \<lparr>store_to_vec = (\<lambda>m. None), store_from_slice = (\<lambda>e. Some (\<lambda>k. Some (from_runtime sample_stored)))\<rparr>"

definition gpu_native :: "context_params list native_api" where
  "gpu_native = sample_native\<lparr>nat_load_model :=
     (\<lambda>x p params. (x, if params = \<lparr>mp_n_gpu_layers = None, mp_devices = Some [0]\<rparr> then Inr () else Inl ''oom''))\<rparr>"

definition gpu_env :: load_env where
  "gpu_env = sample_env\<lparr>env_forced := None, env_store_codec := full_codec\<rparr>"

lemma full_codec_facts: "codec_roundtrip full_codec" "store_honest full_codec (Some [])"
  by (simp_all add: codec_roundtrip_def full_codec_def store_honest_def read_runtime_store_def from_runtime_def into_runtime_def
      sample_stored_def selection_new_def selection_honest_def)

lemma stored_cached:
  "cached_selection full_codec disc key (Some []) = Some ((into_runtime (from_runtime sample_stored))\<lparr>rs_cache_key := Some key\<rparr>)"
  by (simp add: cached_selection_def read_runtime_cache_def read_runtime_store_def full_codec_def from_runtime_def
      into_runtime_def sample_stored_def)

lemma gpu_select:
  "select_runtime_with sha full_codec io context None
     (\<lambda>_. (discover_candidates (declared_build (\<lambda>_. False)) [])\<lparr>accelerator_failures := []\<rparr>) benchmark (Some []) x
   = (Some [], x, Inr ((into_runtime (from_runtime sample_stored))
        \<lparr>rs_cache_key := Some (runtime_cache_key sha context machine_none)\<rparr>))"
proof -
  let ?disc = "(discover_candidates (declared_build (\<lambda>_. False)) [])\<lparr>accelerator_failures := []\<rparr>"
  have d: "disc_machine ?disc = machine_none" "cacheable machine_none" "accelerator_failures ?disc = []"
    by (simp_all add: discover_candidates_def discover_backend_def declared_build_def supports_def stable_accelerators_def
        machine_none_def Let_def)
  show ?thesis
    by (rule select_cached [where discover = "\<lambda>_. ?disc" and codec = full_codec, unfolded d(1), OF d(2,3) stored_cached])
qed

lemma gpu_load_final:
  "\<exists>e. load_final env gpu_native toy_llama pin p ((into_runtime (from_runtime sample_stored))\<lparr>rs_cache_key := key\<rparr>) w = (w, Inr e)
    \<and> sel_accelerated (le_selection e) \<and> le_device e = ''gpu''"
  by (cases w; cases "eos_marker pin")
    (simp_all add: load_final_def load_candidate_def model_params_for_candidate_def placement_for_candidate_def
      into_runtime_def from_runtime_def sample_stored_def selection_new_def gpu_native_def sample_native_def
      measure_eos_reserve_def measure_special_token_overhead_def toy_llama_def Let_def)

lemma gpu_load_selected:
  assumes "env_store_codec env = full_codec" and "env_feature env = (\<lambda>_. False)" and "env_exe env = Inr executable"
  shows "\<exists>e. load_selected env gpu_native toy_llama F pin p None (Some [], x) = ((Some [], x), Inr e)
    \<and> sel_accelerated (le_selection e) \<and> le_device e = ''gpu''"
proof -
  have dyn: "\<not> decl_dynamic (declared_build (\<lambda>_. False))" by (simp add: declared_build_def)
  have init: "init_native gpu_native y = (y, Inr ())" "runtime_devices os gpu_native y = (y, [])" for os y
    by (simp_all add: init_native_def gpu_native_def sample_native_def runtime_devices_def)
  show ?thesis
    using gpu_load_final [of env pin p _ "(Some [], x)"]
    by (simp add: load_selected_def assms load_packaged_modules_def dyn init gpu_select Let_def)
qed

theorem engine_loaded_as_reported_witness:
  "\<exists>e. load_with_policy gpu_env gpu_native toy_llama toy_ops sample_pin sample_dir (Some [], []) Auto = ((Some [], []), Inr (e, []))
    \<and> model_prepared gpu_env sample_pin sample_dir \<and> sel_accelerated (le_selection e) \<and> le_device e = ''gpu''
    \<and> loaded_as_reported gpu_env gpu_native (Some []) sample_pin (path_join sample_dir (pin_file sample_pin)) e []"
proof -
  have env: "env_store_codec gpu_env = full_codec" "env_feature gpu_env = (\<lambda>_. False)" "env_forced gpu_env = None"
    "env_exe gpu_env = Inr \<lparr>path_absolute = True, path_components = [''sidecar'']\<rparr>"
    by (simp_all add: gpu_env_def sample_env_def)
  have prepared: "model_prepared gpu_env sample_pin sample_dir"
    by (simp add: model_prepared_def gpu_env_def sample_env_def sample_pin_def hex_def)
  obtain e where e: "load_selected gpu_env gpu_native toy_llama toy_ops sample_pin (path_join sample_dir (pin_file sample_pin)) None (Some [], [])
      = ((Some [], []), Inr e)" "sel_accelerated (le_selection e)" "le_device e = ''gpu''"
    using gpu_load_selected [OF env(1,2,4), of toy_ops] by blast
  then have run: "load_with_policy gpu_env gpu_native toy_llama toy_ops sample_pin sample_dir (Some [], []) Auto
      = ((Some [], []), Inr (e, []))"
    unfolding load_with_policy_prepared [OF prepared] by (simp add: load_guarded_def env forced_backend_def)
  from engine_loaded_as_reported [OF _ _ this, unfolded env fst_conv, OF full_codec_facts] run e(2,3) show ?thesis by blast
qed

text \<open>
  C30 (error). A verdict that does not load is not kept: when the weights cannot be loaded on the
  accelerator a verdict with a cache key chose, the store loses the verdict of that key and keeps every
  other, provided every step of the rewrite succeeds (\<open>io_ok\<close>) and the smaller store can be encoded;
  where one fails, which the code ignores, the file is as before and the next start reads the verdict
  again. Whatever engine the load then gives is the CPU engine, reported as degraded with the error of
  the accelerator as its reason and with the capability withdrawn.
\<close>

theorem failed_final_load_forgets:
  assumes "codec_roundtrip (env_store_codec env)"
    and "sel_resolved (rs_selection runtime) = backend" and "backend \<noteq> CPU" and "rs_cache_key runtime = Some key"
    and "load_candidate N M pin p \<lparr>cand_backend = backend, cand_device = rs_device runtime,
             cand_device_index = rs_device_index runtime\<rparr> (rs_selection runtime) (rs_capabilities runtime) x = (x1, Inl err)"
    and "load_final env N M pin p runtime (fl, x) = ((fl', x'), res)"
  shows "(if env_io env = io_ok
            \<and> store_to_vec (env_store_codec env) ((read_runtime_store (env_store_codec env) fl)(key := None)) \<noteq> None
          then read_runtime_store (env_store_codec env) fl' = (read_runtime_store (env_store_codec env) fl)(key := None)
          else fl' = fl \<or> read_runtime_store (env_store_codec env) fl' = (read_runtime_store (env_store_codec env) fl)(key := None))
    \<and> (case res of
         Inl e \<Rightarrow> err_kind e \<in> set load_error_kinds
       | Inr e \<Rightarrow> le_selection e = degraded_to_cpu backend (backend @ '' final load failed: '' @ err_message err)
           \<and> le_device e = CPU \<and> le_capabilities e = disable_capability (rs_capabilities runtime) backend)"
proof -
  let ?codec = "env_store_codec env" and ?drop = "\<lambda>store. store(key := None)"
  have f: "fl' = mutate_runtime_cache ?codec (env_io env) ?drop fl" and l: "load_candidate N M pin p cpu_candidate
      (degraded_to_cpu backend (backend @ '' final load failed: '' @ err_message err))
      (disable_capability (rs_capabilities runtime) backend) x1 = (x', res)"
    using assms(2-6) by (auto simp: load_final_def Let_def invalidate_cached_selection_def split: prod.splits)
  have "read_runtime_store ?codec fl' = ?drop (read_runtime_store ?codec fl)"
    if "env_io env = io_ok" "store_to_vec ?codec (?drop (read_runtime_store ?codec fl)) = Some encoded" for encoded
  proof -
    have "fl' = Some encoded" using that by (simp add: f mutate_runtime_cache_def io_ok_def)
    moreover have "store_from_slice ?codec encoded = Some (?drop (read_runtime_store ?codec fl))"
      using assms(1) that(2) by (simp add: codec_roundtrip_def)
    ultimately show ?thesis by (simp add: read_runtime_store_def)
  qed
  moreover have "fl' = fl \<or> read_runtime_store ?codec fl' = ?drop (read_runtime_store ?codec fl)"
    using mutate_runtime_cache_cases [OF assms(1)] unfolding f by blast
  moreover have "err_kind e \<in> set load_error_kinds" if "res = Inl e" for e
    using load_candidate_error [OF l [unfolded that]] .
  moreover have "le_selection e = degraded_to_cpu backend (backend @ '' final load failed: '' @ err_message err)"
    "le_device e = CPU" "le_capabilities e = disable_capability (rs_capabilities runtime) backend" if "res = Inr e" for e
    using load_candidate_loaded [OF l [unfolded that]] by (simp_all add: cpu_candidate_def)
  ultimately show ?thesis by (auto split: sum.split)
qed

text \<open>A store that holds the verdict under one key and another verdict under a second one.\<close>

definition two_verdicts :: runtime_cache where
  "two_verdicts = [''k'' \<mapsto> from_runtime sample_stored, ''l'' \<mapsto> from_runtime sample_stored]"

definition two_codec :: store_codec where
  "two_codec =
     \<lparr>store_to_vec = (\<lambda>m. if m = two_verdicts then Some ''2'' else if m = two_verdicts(''k'' := None) then Some ''1'' else None),
      store_from_slice = (\<lambda>e. if e = ''2'' then Some two_verdicts else if e = ''1'' then Some (two_verdicts(''k'' := None)) else None)\<rparr>"

theorem failed_final_load_forgets_witness:
  "read_runtime_store two_codec (Some ''2'') ''k'' = Some (from_runtime sample_stored)
   \<and> (\<exists>fl' e. load_final (sample_env\<lparr>env_store_codec := two_codec\<rparr>) sample_native toy_llama sample_pin sample_dir sample_stored (Some ''2'', [])
          = ((fl', []), Inr e)
        \<and> read_runtime_store two_codec fl' ''k'' = None \<and> read_runtime_store two_codec fl' ''l'' = Some (from_runtime sample_stored)
        \<and> le_selection e = degraded_to_cpu METAL (METAL @ '' final load failed: '' @ ''oom'') \<and> \<not> cap_metal (le_capabilities e))"
proof -
  let ?env = "sample_env\<lparr>env_store_codec := two_codec\<rparr>"
  have e: "env_store_codec ?env = two_codec" "env_io ?env = io_ok" by (simp_all add: sample_env_def)
  have codec: "codec_roundtrip two_codec" by (auto simp: codec_roundtrip_def two_codec_def split: if_splits)
  have stored: "read_runtime_store two_codec (Some ''2'') = two_verdicts" by (simp add: read_runtime_store_def two_codec_def)
  have enc: "store_to_vec two_codec (two_verdicts(''k'' := None)) \<noteq> None" by (simp add: two_codec_def)
  have l: "load_candidate sample_native toy_llama sample_pin p \<lparr>cand_backend = METAL, cand_device = rs_device sample_stored,
             cand_device_index = rs_device_index sample_stored\<rparr> (rs_selection sample_stored) (rs_capabilities sample_stored) x
      = (x, Inl (engine_error_new ''ModelLoad'' ''oom''))" for p x
    by (simp add: load_candidate_def model_params_for_candidate_def placement_for_candidate_def sample_native_def sample_stored_def Let_def)
  have r: "sel_resolved (rs_selection sample_stored) = METAL" "METAL \<noteq> CPU" "rs_cache_key sample_stored = Some ''k''"
    by (simp_all add: sample_stored_def selection_new_def)
  obtain fl' res where run: "load_final ?env sample_native toy_llama sample_pin sample_dir sample_stored (Some ''2'', []) = ((fl', []), res)"
    and ok: "\<exists>e. res = Inr e"
    using l r by (simp add: load_final_def sample_load_candidate sample_stored_def selection_new_def Let_def)
  obtain e where res: "res = Inr e" using ok by blast
  have "cap_metal (disable_capability c METAL) = False" for c by (simp add: disable_capability_def)
  with failed_final_load_forgets [OF _ r l run, unfolded e stored res, OF codec] enc run res show ?thesis
    by (auto simp: stored two_verdicts_def engine_error_new_def)
qed

text \<open>
  The machine is described device by device and asked once per backend: the
  devices handed to the selection are those of llama.cpp in their order, two devices of one
  backend carry the same driver identity whatever the tools answer in between, and a device is
  cacheable only when a tool named its driver or it is the CPU.
\<close>

lemma runtime_devices_described:
  assumes "runtime_devices os N x = (x', devs)"
  shows "map (\<lambda>d. (dev_backend d, dev_index d, dev_name d, dev_description d, dev_memory_total d)) devs
      = map (\<lambda>d. (nd_backend d, nd_index d, nd_name d, nd_description d, nd_memory_total d)) (nat_devices N x)
    \<and> (\<forall>d\<in>set devs. \<forall>d'\<in>set devs. eq_ignore_ascii_case (dev_backend d) (dev_backend d') \<longrightarrow>
          dev_driver d = dev_driver d' \<and> dev_driver_cacheable d = dev_driver_cacheable d')
    \<and> (\<forall>d\<in>set devs. dev_driver_cacheable d \<longrightarrow> driver_named os N d)"
proof -
  have run: "runtime_devices_loop os (command_output N) (nat_devices N x) Map.empty x = (x', devs)"
    using assms by (simp add: runtime_devices_def)
  have e: "identities_ok os (command_output N) Map.empty" by (simp add: identities_ok_def)
  from runtime_devices_loop_result [OF run e] obtain ids where ids: "identities_ok os (command_output N) ids"
    "\<forall>d\<in>set devs. identified ids d"
    "map (\<lambda>d. (dev_backend d, dev_index d, dev_name d, dev_description d, dev_memory_total d)) devs
      = map (\<lambda>d. (nd_backend d, nd_index d, nd_name d, nd_description d, nd_memory_total d)) (nat_devices N x)"
    by blast
  have "dev_driver d = dev_driver d' \<and> dev_driver_cacheable d = dev_driver_cacheable d'"
    if "d \<in> set devs" "d' \<in> set devs" "eq_ignore_ascii_case (dev_backend d) (dev_backend d')" for d d'
    using identified_same [of ids d d'] that ids(2) by blast
  moreover have "driver_named os N d" if "d \<in> set devs" "dev_driver_cacheable d" for d
  proof (cases "eq_ignore_ascii_case (dev_backend d) CPU")
    case False
    with ids(2) that have "ids (to_ascii_lowercase (dev_backend d)) = Some \<lparr>di_value = dev_driver d, di_cacheable = True\<rparr>"
      by (auto simp: identified_def)
    from identities_okD [OF ids(1) this] show ?thesis unfolding driver_tools_lower driver_named_def by simp
  qed (simp add: driver_named_def)
  ultimately show ?thesis using ids(3) by blast
qed

definition two_gpus :: "context_params list native_api" where
  "two_gpus = sample_native\<lparr>
     nat_devices := (\<lambda>x. [\<lparr>nd_backend = ''Vulkan'', nd_index = 0, nd_name = ''a'', nd_description = ''A'', nd_memory_total = 1\<rparr>,
                          \<lparr>nd_backend = ''vulkan'', nd_index = 1, nd_name = ''b'', nd_description = ''B'', nd_memory_total = 2\<rparr>]),
     nat_run := (\<lambda>x tool args. (x, None))\<rparr>"

lemma runtime_devices_described_witness:
  "\<exists>x' d d'. runtime_devices Linux two_gpus [] = (x', [d, d']) \<and> dev_index d = 0 \<and> dev_index d' = 1
     \<and> dev_driver d = dev_driver d' \<and> dev_driver_cacheable d = dev_driver_cacheable d'"
proof -
  obtain x' devs where run: "runtime_devices Linux two_gpus [] = (x', devs)" by (cases "runtime_devices Linux two_gpus []")
  note w = runtime_devices_described [OF run]
  have v: "eq_ignore_ascii_case ''Vulkan'' ''vulkan''" by code_simp
  from w [THEN conjunct1] obtain d d' where d: "devs = [d, d']" "dev_index d = 0" "dev_index d' = 1" "dev_backend d = ''Vulkan''" "dev_backend d' = ''vulkan''"
    by (auto simp: two_gpus_def map_eq_Cons_conv)
  with w [THEN conjunct2, THEN conjunct1] v have "dev_driver d = dev_driver d' \<and> dev_driver_cacheable d = dev_driver_cacheable d'" by simp
  with run d show ?thesis by auto
qed

end
