(* ===== verification/Serve.thy ===== *)
theory Serve
  imports Engine_Load Broker_Engine Prepare
begin

text \<open>
  The start of a server: \<open>serve\<close> of \<open>src/src/protocol.rs\<close> and \<open>load\<close> of \<open>src/src/broker/engine.rs\<close>. Both
  look up the pin, resolve the cache directory, clean stale partial downloads, and load the
  model; a model that is not prepared is served by the engine that says so. Here the components
  meet: the directory that theory \<open>Prepare\<close> writes is the one the loader of theory \<open>Engine_Load\<close>
  reads, and the engine of that loader is the one of theory \<open>Broker_Engine\<close>.
\<close>

section \<open>Definitions\<close>

text \<open>
  What the process finds: the loader's environment, the two sources of the cache directory, and
  the answers of the file system to the cleaning and to the reading of the model.
\<close>

record serve_env =
  se_load :: load_env
  se_cache_var :: "string option"
  se_home :: "path option"
  se_listing :: "path \<Rightarrow> dir_listing"
  se_hold :: "string \<Rightarrow> bool"
  se_rm :: "string \<Rightarrow> remove_result"
  se_unreadable :: "path \<Rightarrow> string option"

definition cache_view :: "(path \<Rightarrow> string option) \<Rightarrow> path \<Rightarrow> directory \<Rightarrow> path \<Rightarrow> model_file" where
  "cache_view unreadable dir d p =
     (case path_file_name p of
        None \<Rightarrow> NoModelFile
      | Some n \<Rightarrow>
          if path_parent p \<noteq> Some dir then NoModelFile
          else
            (case d n of
               None \<Rightarrow> NoModelFile
             | Some content \<Rightarrow> (case unreadable p of Some e \<Rightarrow> UnreadableModel e | None \<Rightarrow> ModelContent content)))"

definition cleaned :: "serve_env \<Rightarrow> path \<Rightarrow> directory \<Rightarrow> directory" where
  "cleaned sv dir d = fst (clean_stale_partials (se_listing sv dir) (se_hold sv) (se_rm sv) d)"

definition serving_env :: "serve_env \<Rightarrow> path \<Rightarrow> directory \<Rightarrow> load_env" where
  "serving_env sv dir d = (se_load sv)\<lparr>env_model := cache_view (se_unreadable sv) dir (cleaned sv dir d)\<rparr>"

definition unknown_model_error :: "string \<Rightarrow> io_error" where
  "unknown_model_error i = ''unknown model id '' @ squote @ i @ squote @ ''; run `prepare --model`''"

definition no_cache_error :: "string \<Rightarrow> io_error" where
  "no_cache_error e = ''cannot resolve the model cache: '' @ e"

definition cannot_load_error :: "string \<Rightarrow> path \<Rightarrow> engine_error \<Rightarrow> io_error" where
  "cannot_load_error i dir err =
     ''cannot load model '' @ squote @ i @ squote @ '' from '' @ path_display dir @ '': '' @ engine_error_display err"

text \<open>\<open>serve\<close>: the directory it leaves, what it read and wrote, and its result.\<close>

definition serve ::
  "serve_env \<Rightarrow> 'x native_api \<Rightarrow> ('x, 'c, 'b, 'f) llama_api \<Rightarrow> 'f float_ops \<Rightarrow> 'f json_codec \<Rightarrow> 'w writer \<Rightarrow> string
     \<Rightarrow> directory \<Rightarrow> cache_file \<times> 'x \<Rightarrow> buf_reader \<Rightarrow> 'w \<Rightarrow> directory \<times> buf_reader \<times> 'w \<times> (io_error, unit) result" where
  "serve sv N M F codec W model_id d w stdin stdout =
     (case by_id model_id of
        None \<Rightarrow> (d, stdin, stdout, Inl (unknown_model_error model_id))
      | Some pin \<Rightarrow>
          (case cache_dir (se_cache_var sv) (se_home sv) of
             Inl e \<Rightarrow> (d, stdin, stdout, Inl (no_cache_error e))
           | Inr dir \<Rightarrow>
               (case llama_load (serving_env sv dir d) N M F pin dir w of
                  (_, Inr engine) \<Rightarrow>
                    (case run_loop codec (llama_ops M F) W stdin stdout engine of
                       (rd, out, _, res) \<Rightarrow> (cleaned sv dir d, rd, out, res))
                | (_, Inl err) \<Rightarrow>
                    if err_kind err = ''ModelNotPrepared'' then
                      (case run_loop codec unready_ops W stdin stdout (unready_new MODEL_NOT_PREPARED) of
                         (rd, out, _, res) \<Rightarrow> (cleaned sv dir d, rd, out, res))
                    else (cleaned sv dir d, stdin, stdout, Inl (cannot_load_error model_id dir err)))))"

text \<open>The engine loaded from the cache as it is: \<open>default_cache_dir\<close> and \<open>load_from_default_cache\<close>.\<close>

definition default_cache_dir :: "serve_env \<Rightarrow> (engine_error, path) result" where
  "default_cache_dir sv = map_err (engine_error_new ''CacheDir'') (cache_dir (se_cache_var sv) (se_home sv))"

definition load_from_default_cache ::
  "serve_env \<Rightarrow> 'x native_api \<Rightarrow> ('x, 'c, 'b, 'f) llama_api \<Rightarrow> 'f float_ops \<Rightarrow> model_pin \<Rightarrow> directory \<Rightarrow> cache_file \<times> 'x
     \<Rightarrow> (cache_file \<times> 'x) \<times> (engine_error, llama_engine \<times> 'x) result" where
  "load_from_default_cache sv N M F pin d w =
     (case default_cache_dir sv of
        Inl e \<Rightarrow> (w, Inl e)
      | Inr dir \<Rightarrow> llama_load ((se_load sv)\<lparr>env_model := cache_view (se_unreadable sv) dir d\<rparr>) N M F pin dir w)"

text \<open>\<open>load\<close> of the broker: the same start, with the lease that was or was not taken.\<close>

definition broker_load ::
  "serve_env \<Rightarrow> 'x native_api \<Rightarrow> ('x, 'c, 'b, 'f) llama_api \<Rightarrow> 'f float_ops \<Rightarrow> string \<Rightarrow> bool \<Rightarrow> directory \<Rightarrow> cache_file \<times> 'x
     \<Rightarrow> directory \<times> (cache_file \<times> 'x) \<times> (io_error, ('x loaded_engine, cache_file \<times> 'x) broker_engine_state) result" where
  "broker_load sv N M F model_id lease d w =
     (case by_id model_id of
        None \<Rightarrow> (d, w, Inl (unknown_model_error model_id))
      | Some pin \<Rightarrow>
          (case cache_dir (se_cache_var sv) (se_home sv) of
             Inl e \<Rightarrow> (d, w, Inl (no_cache_error e))
           | Inr dir \<Rightarrow>
               (case load_with (loaded_ops M F) (model_loader (load_with_policy (serving_env sv dir d) N M F pin dir)) lease w of
                  (w1, Inl err) \<Rightarrow> (cleaned sv dir d, w1, Inl (cannot_load_error model_id dir err))
                | (w1, Inr engine) \<Rightarrow> (cleaned sv dir d, w1, Inr engine))))"

section \<open>The loader as the broker engine uses it\<close>

text \<open>What the file of a pin in the cache must be for the loader to serve it.\<close>

lemma serving_env_model:
  "env_model (serving_env sv dir d) (path_join dir n) =
     (case cleaned sv dir d n of
        None \<Rightarrow> NoModelFile
      | Some content \<Rightarrow> (case se_unreadable sv (path_join dir n) of Some e \<Rightarrow> UnreadableModel e | None \<Rightarrow> ModelContent content))"
  by (simp add: serving_env_def cache_view_def)

lemma serving_env_sha: "env_sha256 (serving_env sv dir d) = env_sha256 (se_load sv)"
  by (simp add: serving_env_def)

lemma cpu_only_load:
  assumes "load_with_policy env N M F pin dir w CpuOnly = (w', Inr (e, x))"
  shows "le_selection e = selection_cpu" and "fst w' = fst w"
  using load_forced_cpu_loaded [OF load_with_policy_loaded(3) [OF assms, unfolded load_guarded_cpu_only]] by auto

lemma cpu_only_loader:
  assumes "model_loader (load_with_policy env N M F pin dir) w CpuOnly = (w', Inr inner)"
  shows "\<not> loaded_is_accelerated inner"
proof (cases inner)
  case (LoadedReady ex)
  obtain e x where "ex = (e, x)" by (cases ex)
  with assms LoadedReady have "load_with_policy env N M F pin dir w CpuOnly = (w', Inr (e, x))"
    by (auto simp: model_loader_def split: prod.splits sum.splits if_splits)
  from cpu_only_load(1) [OF this] LoadedReady \<open>ex = (e, x)\<close> show ?thesis
    by (auto simp: loaded_is_accelerated_def llama_is_accelerated_def selection_cpu_def selection_new_def)
qed (simp add: loaded_is_accelerated_def is_accelerated_default_def)

lemma loader_error:
  assumes "model_loader (load_with_policy env N M F pin dir) w policy = (w', Inl err)"
  shows "err_kind err \<in> set load_error_kinds"
proof -
  have "load_with_policy env N M F pin dir w policy = (w', Inl err)" "err_kind err \<noteq> ''ModelNotPrepared''"
    using assms by (auto simp: model_loader_def split: prod.splits sum.splits if_splits)
  with load_with_policy_error show ?thesis by blast
qed

lemma loader_unready_iff:
  "(\<exists>w' u. model_loader (load_with_policy env N M F pin dir) w policy = (w', Inr (LoadedUnready u))) \<longleftrightarrow> \<not> model_prepared env pin dir"
proof (cases "model_prepared env pin dir")
  case True
  have "err_kind e \<noteq> ''ModelNotPrepared''" if "load_with_policy env N M F pin dir w policy = (w', Inl e)" for w' e
    using load_with_policy_error(2) [OF that True] load_error_kinds_not(1) by blast
  with True show ?thesis by (auto simp: model_loader_def split: prod.splits sum.splits if_splits)
next
  case False
  from load_with_policy_unprepared [OF this, of N M F w policy] False show ?thesis
    by (auto simp: model_loader_def engine_error_new_def)
qed

lemma broker_load_engine:
  assumes "broker_load sv N M F model_id lease d w = (d', w', Inr b)"
  shows "\<exists>lwp. load_with (loaded_ops M F) (model_loader lwp) lease w = (w', Inr b)"
proof -
  from assms obtain pin where p: "by_id model_id = Some pin" by (auto simp: broker_load_def split: option.splits)
  with assms obtain dir where c: "cache_dir (se_cache_var sv) (se_home sv) = Inr dir"
    by (auto simp: broker_load_def split: sum.splits)
  obtain w1 res where l: "load_with (loaded_ops M F) (model_loader (load_with_policy (serving_env sv dir d) N M F pin dir)) lease w
      = (w1, res)"
    by (metis prod.exhaust)
  with assms p c have "w1 = w' \<and> res = Inr b" by (cases res) (simp_all add: broker_load_def)
  with l show ?thesis by blast
qed

text \<open>The terminal failures a broker engine can end with, when its loader is this one.\<close>

definition failures_are_loads :: "('e, 'l) broker_engine_state \<Rightarrow> bool" where
  "failures_are_loads b \<longleftrightarrow> (\<forall>err. be_terminal_failure b = Some err \<longrightarrow> err_kind err \<in> set load_error_kinds)"

lemma demote_failures:
  assumes "failures_are_loads b"
  shows "failures_are_loads (fst (demote (loaded_ops M F) (model_loader (load_with_policy env N M F pin dir)) l b texts r))"
proof -
  obtain l1 res where l: "model_loader (load_with_policy env N M F pin dir) l CpuOnly = (l1, res)" by (metis prod.exhaust)
  show ?thesis
  proof (cases res)
    case (Inl err)
    with l loader_error have "err_kind err \<in> set load_error_kinds" by blast
    with l Inl show ?thesis by (simp add: demote_def failures_are_loads_def)
  next
    case (Inr cpu)
    with l cpu_only_loader have "\<not> is_accelerated (loaded_ops M F) cpu" by (simp add: loaded_ops_def)
    with l Inr assms show ?thesis by (auto simp: demote_def failures_are_loads_def split: prod.splits)
  qed
qed

lemma embed_failures:
  assumes "failures_are_loads b"
  shows "failures_are_loads (fst (broker_embed (loaded_ops M F) (model_loader (load_with_policy env N M F pin dir)) b texts r))"
  using assms demote_failures [OF assms, of M F env N pin dir]
  by (auto simp: broker_embed_def failures_are_loads_def split: option.splits prod.splits)

lemma broker_run_failures:
  "failures_are_loads b \<Longrightarrow>
     failures_are_loads (broker_run (loaded_ops M F) (model_loader (load_with_policy env N M F pin dir)) b reqs)"
proof (induction reqs arbitrary: b)
  case (Cons q reqs)
  from Cons.IH [OF embed_failures [OF Cons.prems]] show ?case by (simp add: broker_run_def)
qed (simp add: broker_run_def)

lemma load_with_failures:
  assumes "load_with (loaded_ops M F) (model_loader (load_with_policy env N M F pin dir)) lease w = (w1, res)"
  shows "case res of Inl err \<Rightarrow> err_kind err \<in> set load_error_kinds | Inr b \<Rightarrow> failures_are_loads b"
proof -
  obtain l1 ld where l: "model_loader (load_with_policy env N M F pin dir) w (if lease then Auto else CpuOnly) = (l1, ld)"
    by (metis prod.exhaust)
  have "\<not> loaded_is_accelerated inner" if "\<not> lease" "ld = Inr inner" for inner
    using cpu_only_loader [of env N M F pin dir w l1 inner] l that by simp
  moreover have "err_kind err \<in> set load_error_kinds" if "ld = Inl err" for err
    using loader_error [OF l [unfolded that]] .
  ultimately show ?thesis
    using assms l by (auto simp: load_with_def Let_def loaded_ops_def failures_are_loads_def split: sum.splits if_splits)
qed

section \<open>Properties of the start\<close>

text \<open>
  C26 (safety). The check of the broker engine that a CPU engine is not accelerated never fails
  with the loader of the program: every error a load ends with, at the start or in a demotion, is
  one of discovery, probing, initialisation, placement, model loading or tokenizing, and never
  the \<open>BackendPolicy\<close> error, whatever is requested, forced in the environment or stored on disk.
\<close>

theorem cpu_policy_never_violated:
  assumes "by_id model_id = Some pin" and "cache_dir (se_cache_var sv) (se_home sv) = Inr dir"
    and "loader = model_loader (load_with_policy (serving_env sv dir d) N M F pin dir)"
  shows "case load_with (loaded_ops M F) loader lease w of
      (w1, Inl err) \<Rightarrow>
        broker_load sv N M F model_id lease d w = (cleaned sv dir d, w1, Inl (cannot_load_error model_id dir err))
        \<and> err_kind err \<in> set load_error_kinds
    | (w1, Inr b) \<Rightarrow>
        broker_load sv N M F model_id lease d w = (cleaned sv dir d, w1, Inr b)
        \<and> (case be_terminal_failure (broker_run (loaded_ops M F) loader b reqs) of
             None \<Rightarrow> True | Some err \<Rightarrow> err_kind err \<in> set load_error_kinds)"
proof -
  obtain w1 res where l: "load_with (loaded_ops M F) loader lease w = (w1, res)" by (metis prod.exhaust)
  have k: "case res of Inl err \<Rightarrow> err_kind err \<in> set load_error_kinds | Inr b \<Rightarrow> failures_are_loads b"
    using l unfolding assms(3) by (rule load_with_failures)
  show ?thesis
  proof (cases res)
    case (Inl err)
    with l k assms show ?thesis by (simp add: broker_load_def)
  next
    case (Inr b)
    with k have "failures_are_loads (broker_run (loaded_ops M F) loader b reqs)" unfolding assms(3) by (simp add: broker_run_failures)
    with Inr l assms show ?thesis by (simp add: broker_load_def failures_are_loads_def split: option.split)
  qed
qed

definition sample_serve :: serve_env where
  "sample_serve =
     \<lparr>se_load = sample_env\<lparr>env_sha256 := (\<lambda>_. bge_digest)\<rparr>, se_cache_var = None,
      se_home = Some \<lparr>path_absolute = True, path_components = [''h'']\<rparr>,
      se_listing = (\<lambda>_. DirNotFound), se_hold = (\<lambda>_. False), se_rm = (\<lambda>_. Removed), se_unreadable = (\<lambda>_. None)\<rparr>"

definition sample_cache :: path where
  "sample_cache = \<lparr>path_absolute = True, path_components = [''h'', ''.cache'', ''julie-semantic'']\<rparr>"

lemma sample_serve_dir: "cache_dir (se_cache_var sample_serve) (se_home sample_serve) = Inr sample_cache"
  by (simp add: sample_serve_def cache_dir_def path_join_def sample_cache_def)

lemma sample_serve_loader:
  "model_loader (load_with_policy (serving_env sample_serve sample_cache Map.empty) N M F bge_pin sample_cache) w policy
     = (w, Inr (LoadedUnready (unready_new MODEL_NOT_PREPARED)))"
  by (simp add: model_loader_def load_with_policy_def serving_env_model cleaned_def sample_serve_def clean_stale_partials_def
      engine_error_new_def Let_def)

theorem cpu_policy_never_violated_witness:
  "\<exists>b. broker_load sample_serve sample_native toy_llama toy_ops (pin_id bge_pin) False Map.empty (None, [])
      = (cleaned sample_serve sample_cache Map.empty, (None, []), Inr b)
    \<and> (case be_terminal_failure (broker_run (loaded_ops toy_llama toy_ops)
          (model_loader (load_with_policy (serving_env sample_serve sample_cache Map.empty) sample_native toy_llama toy_ops
             bge_pin sample_cache)) b [([''a''], Query)]) of
         None \<Rightarrow> True | Some err \<Rightarrow> err_kind err \<in> set load_error_kinds)"
proof -
  obtain b where "load_with (loaded_ops toy_llama toy_ops) (model_loader (load_with_policy
      (serving_env sample_serve sample_cache Map.empty) sample_native toy_llama toy_ops bge_pin sample_cache)) False (None, [])
      = ((None, []), Inr b)"
    by (simp add: load_with_def sample_serve_loader loaded_ops_def loaded_is_accelerated_def is_accelerated_default_def)
  with cpu_policy_never_violated [OF bge_by_id sample_serve_dir refl, where d = Map.empty and N = sample_native and M = toy_llama
      and F = toy_ops and lease = False and w = "(None, [])" and reqs = "[([''a''], Query)]"]
  show ?thesis by auto
qed

section \<open>The whole of serve\<close>

text \<open>What a process that serves \<open>E\<close> answers to the bytes of its input.\<close>

definition served :: "'f json_codec \<Rightarrow> ('s, 'f) embed_engine \<Rightarrow> bytes \<Rightarrow> 's \<Rightarrow> bytes" where
  "served codec E input s =
     concat (map (\<lambda>r. render codec r @ [newline])
       (snd (converse codec E limits_default (frames MAX_REQUEST_BYTES input) s)))"

lemma run_loop_served:
  assumes "codec_total codec" and "clean_reader rd"
  obtains rd' s' where "run_loop codec E vec_writer rd w s = (rd', w @ served codec E (stream rd) s, s', Inr ())"
proof -
  have lims: "max_request_bytes limits_default = MAX_REQUEST_BYTES" by (simp add: limits_default_def)
  from run_loop_converse [OF assms, of E limits_default "[]" w s] that show thesis
    by (cases "converse codec E limits_default (frames MAX_REQUEST_BYTES (stream rd)) s")
      (auto simp: run_loop_def served_def lims)
qed

text \<open>
  C4 (equivalence). The verb \<open>serve\<close> from start to end, for a pinned model and a cache that can be named:
  the cache is left as the cleaning of partial downloads leaves it; without the pinned
  model in the cache, the whole input is answered, line by line in the reference conversation, by
  the engine that says so, and the process ends well; with it, the input is answered by exactly
  the engine that the load gives; and when a prepared model does not load, not a byte is read or
  written and the error names the model and the cache.
\<close>

theorem serve_converses:
  assumes "by_id model_id = Some pin" and "cache_dir (se_cache_var sv) (se_home sv) = Inr dir"
    and "codec_total codec" and "clean_reader stdin" and "env = serving_env sv dir d"
    and "serve sv N M F codec vec_writer model_id d w stdin out = (d', rd', out', res)"
  shows "d' = cleaned sv dir d
    \<and> (if \<not> model_prepared env pin dir then
         res = Inr () \<and> out' = out @ served codec unready_ops (stream stdin) (unready_new MODEL_NOT_PREPARED)
       else
         (case llama_load env N M F pin dir w of
            (_, Inr engine) \<Rightarrow> res = Inr () \<and> out' = out @ served codec (llama_ops M F) (stream stdin) engine
          | (_, Inl err) \<Rightarrow> res = Inl (cannot_load_error model_id dir err) \<and> out' = out \<and> rd' = stdin))"
proof (cases "model_prepared env pin dir")
  case False
  obtain m where l: "llama_load env N M F pin dir w = (w, Inl (engine_error_new ''ModelNotPrepared'' m))"
    using load_with_policy_unprepared [OF False, of N M F w Auto] by (auto simp: llama_load_def)
  obtain rd1 s1 where "run_loop codec unready_ops vec_writer stdin out (unready_new MODEL_NOT_PREPARED)
      = (rd1, out @ served codec unready_ops (stream stdin) (unready_new MODEL_NOT_PREPARED), s1, Inr ())"
    using run_loop_served [OF assms(3,4)] .
  with assms l False show ?thesis by (auto simp: serve_def engine_error_new_def)
next
  case True
  obtain w1 r where l: "llama_load env N M F pin dir w = (w1, r)" by (cases "llama_load env N M F pin dir w")
  show ?thesis
  proof (cases r)
    case (Inl err)
    have "err_kind err \<in> set load_error_kinds"
      using load_with_policy_error(2) [OF l [unfolded llama_load_def Inl] True] .
    then have "err_kind err \<noteq> ''ModelNotPrepared''" using load_error_kinds_not(1) by blast
    with assms l Inl True show ?thesis by (simp add: serve_def)
  next
    case (Inr engine)
    obtain rd1 s1 where "run_loop codec (llama_ops M F) vec_writer stdin out engine
        = (rd1, out @ served codec (llama_ops M F) (stream stdin) engine, s1, Inr ())"
      using run_loop_served [OF assms(3,4)] .
    with assms l Inr True show ?thesis by (auto simp: serve_def)
  qed
qed

theorem serve_converses_witness:
  "\<exists>rd'. serve sample_serve sample_native toy_llama toy_ops sample_codec vec_writer (pin_id bge_pin) Map.empty (None, [])
      sample_reader []
    = (cleaned sample_serve sample_cache Map.empty, rd',
       served sample_codec unready_ops (stream sample_reader) (unready_new MODEL_NOT_PREPARED), Inr ())"
proof -
  obtain d' rd' out' res where s: "serve sample_serve sample_native toy_llama toy_ops sample_codec vec_writer (pin_id bge_pin)
      Map.empty (None, []) sample_reader [] = (d', rd', out', res)"
    using prod_cases4 by blast
  have "\<not> model_prepared (serving_env sample_serve sample_cache Map.empty) bge_pin sample_cache"
    by (simp add: model_prepared_def serving_env_model cleaned_def sample_serve_def clean_stale_partials_def)
  with serve_converses [OF bge_by_id sample_serve_dir sample_codec_total sample_reader_clean refl s] s show ?thesis by simp
qed

text \<open>
  The engine that says \<open>model_not_prepared\<close> is served exactly when the cache does not
  hold the pinned model: the file is missing, cannot be read, or has another digest. A model that
  is there but does not load is an error instead, and a prepared model is never reported as
  missing.
\<close>

lemma unready_iff_not_prepared:
  "(\<exists>w' u. model_loader (load_with_policy env N M F pin dir) w policy = (w', Inr (LoadedUnready u)))
     \<longleftrightarrow> \<not> model_prepared env pin dir"
  by (rule loader_unready_iff)

text \<open>
  C17 (roundtrip). What \<open>prepare\<close> acquired, \<open>serve\<close> serves: after an acquisition that succeeded, a start on
  the directory it left, with the same digest function and a readable file, finds the model
  prepared although it cleans the directory first; the loop never runs on the engine that says
  otherwise.
\<close>

theorem prepared_model_is_served:
  assumes "by_id model_id = Some pin" and "acquire os (from_pin pin) dir (start_state d0) = (st, Inr p)"
    and "env_sha256 (se_load sv) = os_sha256 os" and "se_unreadable sv (path_join dir (pin_file pin)) = None"
  shows "model_prepared (serving_env sv dir (ps_dir st)) pin dir
    \<and> (\<nexists>w' u. model_loader (load_with_policy (serving_env sv dir (ps_dir st)) N M F pin dir) w policy
          = (w', Inr (LoadedUnready u)))"
proof -
  have m: "pin \<in> set manifest" using by_id_Some [OF assms(1)] by simp
  from acquire_ok [OF pin_names_apart [OF m] start_safe, of os d0 dir] assms(2)
  obtain c where c: "ps_dir st (pin_file pin) = Some c" "digest_matches os (pin_sha256 pin) c"
    by (auto simp: stage_ok_def from_pin_def)
  have "\<not> starts_with (pin_file pin) PARTIAL_PREFIX" using pin_names_apart [OF m] by (simp add: names_apart_def from_pin_def)
  then have "cleaned sv dir (ps_dir st) (pin_file pin) = Some c" using c(1) by (simp add: cleaned_def clean_keeps)
  with c(2) assms(3,4) have p: "model_prepared (serving_env sv dir (ps_dir st)) pin dir"
    by (simp add: model_prepared_def serving_env_model digest_matches_def serving_env_sha)
  with loader_unready_iff [of "serving_env sv dir (ps_dir st)" N M F pin dir w policy] show ?thesis by blast
qed

theorem prepared_model_is_served_witness:
  "\<exists>st p. acquire good_os (from_pin bge_pin) (path_of ''/c'') (start_state Map.empty) = (st, Inr p)
     \<and> model_prepared (serving_env sample_serve (path_of ''/c'') (ps_dir st)) bge_pin (path_of ''/c'')
     \<and> (\<nexists>w' u. model_loader (load_with_policy (serving_env sample_serve (path_of ''/c'') (ps_dir st)) sample_native toy_llama
            toy_ops bge_pin (path_of ''/c'')) (None, []) Auto = (w', Inr (LoadedUnready u)))"
proof -
  have "bge_pin \<in> set manifest" by (simp add: manifest_def PINS_def)
  then obtain st p where run: "acquire good_os (from_pin bge_pin) (path_of ''/c'') (start_state Map.empty) = (st, Inr p)"
    using acquire_serves [OF good_os_serves pin_names_apart, of "path_of ''/c''" "start_state Map.empty"] by blast
  have "env_sha256 (se_load sample_serve) = os_sha256 good_os"
    "se_unreadable sample_serve (path_join (path_of ''/c'') (pin_file bge_pin)) = None"
    by (simp_all add: sample_serve_def good_os_def)
  from prepared_model_is_served [OF bge_by_id run this] run show ?thesis by blast
qed

end
