(* ===== verification/Broker_Start.thy ===== *)
theory Broker_Start
  imports Serve Cli
begin

text \<open>
  The start of a broker process and its coexistence with others: \<open>src/src/broker/lease.rs\<close>,
  \<open>transport/unix.rs\<close>, the owner watchdog of \<open>watchdog.rs\<close>, the part of \<open>serve_with_loader\<close> in
  \<open>broker/mod.rs\<close> before its loop, and \<open>run_broker\<close> of \<open>main.rs\<close>. Any number of broker processes share
  a host: its files, with their modes, and the advisory locks on them. A process takes the stages
  of \<open>serve_with_loader\<close> one by one, its owner watchdog the look at the flag, the unlinking and the exit;
  the steps of all processes, the requests they serve, the end of their owners, their failures,
  panics and crashes are interleaved by the relation \<open>host_step\<close>. The calls of one lease, and those of
  \<open>bind\<close> up to the removal of the endpoint, are one step each, and the leases a function that returns
  drops are given back in one. Locks and endpoints are those of path names, compared as given.
\<close>

section \<open>The host\<close>

type_synonym pid = nat

text \<open>An entry of the file system and its permission bits; a socket knows the process that bound it.\<close>

datatype fs_entry = Directory nat | PlainFile nat | SocketFile nat pid

record host =
  host_entries :: "path \<rightharpoonup> fs_entry"
  host_locks :: "path \<rightharpoonup> pid"

text \<open>
  What the operating system refuses a call with, and the modes new entries get. A failing
  \<open>create_dir_all\<close> may have made some of the directories.
\<close>

record host_os =
  ho_create_dir :: "path \<Rightarrow> (nat \<times> io_error) option"
  ho_set_permissions :: "path \<Rightarrow> io_error option"
  ho_open :: "path \<Rightarrow> io_error option"
  ho_lock :: "path \<Rightarrow> io_error option"
  ho_remove :: "path \<Rightarrow> io_error option"
  ho_bind :: "path \<Rightarrow> io_error option"
  ho_spawn :: "string \<Rightarrow> io_error option"
  ho_dir_mode :: nat
  ho_file_mode :: nat

definition is_directory :: "fs_entry \<Rightarrow> bool" where
  "is_directory e = (case e of Directory _ \<Rightarrow> True | _ \<Rightarrow> False)"

definition with_mode :: "nat \<Rightarrow> fs_entry \<Rightarrow> fs_entry" where
  "with_mode m e = (case e of Directory _ \<Rightarrow> Directory m | PlainFile _ \<Rightarrow> PlainFile m | SocketFile _ q \<Rightarrow> SocketFile m q)"

definition ancestors :: "path \<Rightarrow> path list" where
  "ancestors p = map (\<lambda>n. p\<lparr>path_components := take n (path_components p)\<rparr>) [1..<Suc (length (path_components p))]"

definition make_dirs :: "nat \<Rightarrow> path list \<Rightarrow> (path \<rightharpoonup> fs_entry) \<Rightarrow> path \<rightharpoonup> fs_entry" where
  "make_dirs mode ps es = (\<lambda>q. if q \<in> set ps \<and> es q = None then Some (Directory mode) else es q)"

definition create_dir_all :: "host_os \<Rightarrow> path \<Rightarrow> host \<Rightarrow> host \<times> (io_error, unit) result" where
  "create_dir_all os p h =
     (case ho_create_dir os p of
        Some (n, e) \<Rightarrow>
          (h\<lparr>host_entries := make_dirs (ho_dir_mode os) (take n (ancestors p)) (host_entries h)\<rparr>, Inl e)
      | None \<Rightarrow>
          if list_all (\<lambda>a. case host_entries h a of None \<Rightarrow> True | Some e \<Rightarrow> is_directory e) (p # ancestors p)
          then (h\<lparr>host_entries := make_dirs (ho_dir_mode os) (ancestors p) (host_entries h)\<rparr>, Inr ())
          else (h, Inl ''not a directory''))"

definition set_permissions :: "host_os \<Rightarrow> path \<Rightarrow> nat \<Rightarrow> host \<Rightarrow> host \<times> (io_error, unit) result" where
  "set_permissions os p mode h =
     (case ho_set_permissions os p of
        Some e \<Rightarrow> (h, Inl e)
      | None \<Rightarrow>
          (case host_entries h p of
             None \<Rightarrow> (h, Inl ''not found'')
           | Some e \<Rightarrow> (h\<lparr>host_entries := (host_entries h)(p \<mapsto> with_mode mode e)\<rparr>, Inr ())))"

text \<open>A lock is on the file itself: it is lost to other processes with the name.\<close>

definition remove_file :: "host_os \<Rightarrow> path \<Rightarrow> host \<Rightarrow> host \<times> remove_result" where
  "remove_file os p h =
     (case ho_remove os p of
        Some e \<Rightarrow> (h, RemoveErr e)
      | None \<Rightarrow>
          (case host_entries h p of
             None \<Rightarrow> (h, RemoveNotFound)
           | Some e \<Rightarrow>
               if is_directory e then (h, RemoveErr ''is a directory'')
               else (h\<lparr>host_entries := (host_entries h)(p := None), host_locks := (host_locks h)(p := None)\<rparr>, Removed)))"

text \<open>\<open>OpenOptions\<close> with \<open>create\<close> and without \<open>truncate\<close>.\<close>

definition open_lock_file :: "host_os \<Rightarrow> path \<Rightarrow> host \<Rightarrow> host \<times> (io_error, unit) result" where
  "open_lock_file os p h =
     (case ho_open os p of
        Some e \<Rightarrow> (h, Inl e)
      | None \<Rightarrow>
          (case host_entries h p of
             None \<Rightarrow> (h\<lparr>host_entries := (host_entries h)(p \<mapsto> PlainFile (ho_file_mode os))\<rparr>, Inr ())
           | Some (PlainFile _) \<Rightarrow> (h, Inr ())
           | Some _ \<Rightarrow> (h, Inl ''not a regular file'')))"

text \<open>\<open>FileExt::try_lock\<close>: whether the lock was taken; it never waits.\<close>

definition try_lock :: "host_os \<Rightarrow> pid \<Rightarrow> path \<Rightarrow> host \<Rightarrow> host \<times> (io_error, bool) result" where
  "try_lock os pid p h =
     (case ho_lock os p of
        Some e \<Rightarrow> (h, Inl e)
      | None \<Rightarrow>
          (case host_locks h p of
             Some _ \<Rightarrow> (h, Inr False)
           | None \<Rightarrow> (h\<lparr>host_locks := (host_locks h)(p \<mapsto> pid)\<rparr>, Inr True)))"

section \<open>Leases\<close>

definition secure_parent :: "host_os \<Rightarrow> path \<Rightarrow> host \<Rightarrow> host \<times> (io_error, unit) result" where
  "secure_parent os p h =
     (case path_parent p of
        None \<Rightarrow> (h, Inl ''lock path has no parent'')
      | Some parent \<Rightarrow>
          (case create_dir_all os parent h of
             (h1, Inl e) \<Rightarrow> (h1, Inl e)
           | (h1, Inr _) \<Rightarrow> set_permissions os parent 0x1C0 h1))"

definition try_acquire :: "host_os \<Rightarrow> pid \<Rightarrow> path \<Rightarrow> host \<Rightarrow> host \<times> (io_error, bool) result" where
  "try_acquire os pid p h =
     (case secure_parent os p h of
        (h1, Inl e) \<Rightarrow> (h1, Inl e)
      | (h1, Inr _) \<Rightarrow>
          (case open_lock_file os p h1 of
             (h2, Inl e) \<Rightarrow> (h2, Inl e)
           | (h2, Inr _) \<Rightarrow> try_lock os pid p h2))"

definition release :: "pid \<Rightarrow> path \<Rightarrow> host \<Rightarrow> host" where
  "release pid p h = (if host_locks h p = Some pid then h\<lparr>host_locks := (host_locks h)(p := None)\<rparr> else h)"

definition release_all :: "pid \<Rightarrow> host \<Rightarrow> host" where
  "release_all pid h = h\<lparr>host_locks := (\<lambda>p. if host_locks h p = Some pid then None else host_locks h p)\<rparr>"

section \<open>The endpoint\<close>

text \<open>\<open>bind\<close> up to the removal of what the name holds; then the socket; then its mode.\<close>

definition bind_prepare :: "host_os \<Rightarrow> path \<Rightarrow> host \<Rightarrow> host \<times> (io_error, unit) result" where
  "bind_prepare os p h =
     (if \<not> path_absolute p then (h, Inl ''Unix broker endpoint must be absolute'')
      else
        (case path_parent p of
           None \<Rightarrow> (h, Inl ''broker endpoint has no parent'')
         | Some parent \<Rightarrow>
             (case create_dir_all os parent h of
                (h1, Inl e) \<Rightarrow> (h1, Inl e)
              | (h1, Inr _) \<Rightarrow>
                  (case set_permissions os parent 0x1C0 h1 of
                     (h2, Inl e) \<Rightarrow> (h2, Inl e)
                   | (h2, Inr _) \<Rightarrow>
                       (case remove_file os p h2 of
                          (h3, RemoveErr e) \<Rightarrow> (h3, Inl e)
                        | (h3, _) \<Rightarrow> (h3, Inr ()))))))"

definition bind_socket :: "host_os \<Rightarrow> pid \<Rightarrow> path \<Rightarrow> host \<Rightarrow> host \<times> (io_error, unit) result" where
  "bind_socket os pid p h =
     (case ho_bind os p of
        Some e \<Rightarrow> (h, Inl e)
      | None \<Rightarrow>
          (case host_entries h p of
             Some _ \<Rightarrow> (h, Inl ''address in use'')
           | None \<Rightarrow> (h\<lparr>host_entries := (host_entries h)(p \<mapsto> SocketFile (ho_file_mode os) pid)\<rparr>, Inr ())))"

text \<open>The last part, with the value \<open>endpoint_bound\<close> has after it.\<close>

definition bind_restrict :: "host_os \<Rightarrow> path \<Rightarrow> host \<Rightarrow> host \<times> bool \<times> (io_error, unit) result" where
  "bind_restrict os p h =
     (case set_permissions os p 0x180 h of
        (h1, Inl e) \<Rightarrow> (fst (remove_file os p h1), False, Inl e)
      | (h1, Inr _) \<Rightarrow> (h1, True, Inr ()))"

definition unix_bind :: "host_os \<Rightarrow> pid \<Rightarrow> path \<Rightarrow> host \<Rightarrow> host \<times> bool \<times> (io_error, unit) result" where
  "unix_bind os pid p h =
     (case bind_prepare os p h of
        (h1, Inl e) \<Rightarrow> (h1, False, Inl e)
      | (h1, Inr _) \<Rightarrow>
          (case bind_socket os pid p h1 of
             (h2, Inl e) \<Rightarrow> (h2, False, Inl e)
           | (h2, Inr _) \<Rightarrow> bind_restrict os p h2))"

section \<open>A broker process\<close>

record broker_config =
  cfg_model_id :: string
  cfg_endpoint :: path
  cfg_service_lock :: path
  cfg_accelerator_lock :: path

text \<open>\<open>run_broker\<close>: the configuration from the arguments.\<close>

definition run_broker_config :: "string \<Rightarrow> string \<Rightarrow> string \<Rightarrow> string \<Rightarrow> broker_config" where
  "run_broker_config model endpoint service_lock accelerator_lock =
     \<lparr>cfg_model_id = model, cfg_endpoint = path_of endpoint, cfg_service_lock = path_of service_lock,
      cfg_accelerator_lock = path_of accelerator_lock\<rparr>"

text \<open>
  Where the main thread of \<open>serve_with_loader\<close> is: the leases, the owner watchdog, the engine, the
  four moments of \<open>bind\<close> another thread can see, the accept thread, the loop. In \<open>Returning\<close> the
  function has returned, or unwound, and dropped its leases, but the process, and a watchdog thread
  it started, still run; \<open>Gone\<close> is the end of the process. Both carry the exit code.
\<close>

datatype stage =
    Launched | Leased | Watched | Elected | EngineReady | Cleared | Unpublished | Published | Accepting | Serving
  | Returning nat | Gone nat

text \<open>
  Where the thread of \<open>OwnerWatchdog\<close> is: not started; reading from the owner; past the end of the
  owner; past a look at \<open>endpoint_bound\<close> that found it set; at the exit.
\<close>

datatype owner_thread = OwnerUnstarted | OwnerReading | OwnerEnded | OwnerUnlinking | OwnerExiting

record ('e, 'l) broker_process =
  bp_config :: broker_config
  bp_stage :: stage
  bp_accel :: bool
  bp_engine :: "('e, 'l) broker_engine_state option"
  bp_bound :: bool
  bp_owner :: owner_thread

definition process_new :: "broker_config \<Rightarrow> ('e, 'l) broker_process" where
  "process_new c =
     \<lparr>bp_config = c, bp_stage = Launched, bp_accel = False, bp_engine = None, bp_bound = False, bp_owner = OwnerUnstarted\<rparr>"

text \<open>The end of a process, which gives back its locks whatever ended it.\<close>

definition terminate :: "pid \<Rightarrow> nat \<Rightarrow> host \<times> ('e, 'l) broker_process \<Rightarrow> host \<times> ('e, 'l) broker_process" where
  "terminate pid code hp =
     (release_all pid (fst hp),
      (snd hp)\<lparr>bp_stage := Gone code, bp_accel := False, bp_engine := None, bp_bound := False, bp_owner := OwnerUnstarted\<rparr>)"

text \<open>
  \<open>serve_with_loader\<close> returns: the engine and both leases are dropped. \<open>endpoint_bound\<close> is as it was,
  and so is the owner watchdog, whose thread nobody joins.
\<close>

definition leave :: "pid \<Rightarrow> nat \<Rightarrow> host \<times> ('e, 'l) broker_process \<Rightarrow> host \<times> ('e, 'l) broker_process" where
  "leave pid code hp =
     (release_all pid (fst hp), (snd hp)\<lparr>bp_stage := Returning code, bp_accel := False, bp_engine := None\<rparr>)"

text \<open>The engine in its place, and the accelerator lease given back when the engine dropped it.\<close>

definition set_engine ::
  "pid \<Rightarrow> ('e, 'l) broker_engine_state \<Rightarrow> host \<times> ('e, 'l) broker_process \<Rightarrow> host \<times> ('e, 'l) broker_process" where
  "set_engine pid b hp =
     (if bp_accel (snd hp) \<and> \<not> be_accelerator_lease b then release pid (cfg_accelerator_lock (bp_config (snd hp))) (fst hp) else fst hp,
      (snd hp)\<lparr>bp_engine := Some b, bp_accel := be_accelerator_lease b\<rparr>)"

definition or_exit ::
  "pid \<Rightarrow> stage \<Rightarrow> ('e, 'l) broker_process \<Rightarrow> host \<times> (io_error, unit) result \<Rightarrow> host \<times> ('e, 'l) broker_process" where
  "or_exit pid next p r =
     (case r of (h, Inl e) \<Rightarrow> leave pid 1 (h, p) | (h, Inr _) \<Rightarrow> (h, p\<lparr>bp_stage := next\<rparr>))"

definition spawn :: "host_os \<Rightarrow> string \<Rightarrow> host \<Rightarrow> host \<times> (io_error, unit) result" where
  "spawn os name h = (h, case ho_spawn os name of Some e \<Rightarrow> Inl e | None \<Rightarrow> Inr ())"

text \<open>The next thing the main thread does; \<open>load\<close> is what the loader answers for a lease taken or not.\<close>

definition main_advance ::
  "host_os \<Rightarrow> (bool \<Rightarrow> (io_error, ('e, 'l) broker_engine_state) result) \<Rightarrow> pid
     \<Rightarrow> host \<times> ('e, 'l) broker_process \<Rightarrow> host \<times> ('e, 'l) broker_process" where
  "main_advance os load pid hp =
     (let h = fst hp; p = snd hp; c = bp_config p
      in case bp_stage p of
           Launched \<Rightarrow>
             (case try_acquire os pid (cfg_service_lock c) h of
                (h1, Inl e) \<Rightarrow> leave pid 1 (h1, p)
              | (h1, Inr taken) \<Rightarrow> if taken then (h1, p\<lparr>bp_stage := Leased\<rparr>) else leave pid 0 (h1, p))
         | Leased \<Rightarrow>
             (case spawn os ''semantic-broker-owner-watchdog'' h of
                (h1, Inl e) \<Rightarrow> leave pid 1 (h1, p)
              | (h1, Inr _) \<Rightarrow> (h1, p\<lparr>bp_stage := Watched, bp_owner := OwnerReading\<rparr>))
         | Watched \<Rightarrow>
             (case try_acquire os pid (cfg_accelerator_lock c) h of
                (h1, Inl e) \<Rightarrow> leave pid 1 (h1, p)
              | (h1, Inr taken) \<Rightarrow> (h1, p\<lparr>bp_stage := Elected, bp_accel := taken\<rparr>))
         | Elected \<Rightarrow>
             (case load (bp_accel p) of
                Inl e \<Rightarrow> leave pid 1 (h, p)
              | Inr b \<Rightarrow> set_engine pid b (h, p\<lparr>bp_stage := EngineReady\<rparr>))
         | EngineReady \<Rightarrow> or_exit pid Cleared p (bind_prepare os (cfg_endpoint c) h)
         | Cleared \<Rightarrow> or_exit pid Unpublished p (bind_socket os pid (cfg_endpoint c) h)
         | Unpublished \<Rightarrow> (h, p\<lparr>bp_stage := Published, bp_bound := True\<rparr>)
         | Published \<Rightarrow>
             (case bind_restrict os (cfg_endpoint c) h of
                (h1, bound, r) \<Rightarrow> or_exit pid Accepting (p\<lparr>bp_bound := bound\<rparr>) (h1, r))
         | Accepting \<Rightarrow>
             (case spawn os ''semantic-broker-accept'' h of
                (h1, Inl e) \<Rightarrow> leave pid 1 (h1, p)
              | (h1, Inr _) \<Rightarrow> or_exit pid Serving p (spawn os ''semantic-broker-request-watchdog'' h1))
         | Serving \<Rightarrow> hp
         | Returning code \<Rightarrow> terminate pid code hp
         | Gone code \<Rightarrow> hp)"

text \<open>The four stages of \<open>bind\<close>, taken without interruption, are \<open>unix_bind\<close>.\<close>

lemma bind_stages:
  assumes "bp_stage p = EngineReady" and "unix_bind os pid (cfg_endpoint (bp_config p)) h = (h', bound, Inr u)"
  shows "(main_advance os load pid ^^ 4) (h, p) = (h', p\<lparr>bp_stage := Accepting, bp_bound := True\<rparr>) \<and> bound"
proof -
  obtain h1 where h1: "bind_prepare os (cfg_endpoint (bp_config p)) h = (h1, Inr ())"
    using assms(2) by (auto simp: unix_bind_def split: prod.splits sum.splits)
  with assms(2) obtain h2 where h2: "bind_socket os pid (cfg_endpoint (bp_config p)) h1 = (h2, Inr ())"
    by (auto simp: unix_bind_def split: prod.splits sum.splits)
  with assms(2) h1 have h3: "bind_restrict os (cfg_endpoint (bp_config p)) h2 = (h', bound, Inr ())"
    by (simp add: unix_bind_def)
  then have b: "bound" by (auto simp: bind_restrict_def split: prod.splits sum.splits)
  have "main_advance os load pid (h, p) = (h1, p\<lparr>bp_stage := Cleared\<rparr>)"
    using assms(1) h1 by (simp add: main_advance_def or_exit_def)
  moreover have "main_advance os load pid (h1, p\<lparr>bp_stage := Cleared\<rparr>) = (h2, p\<lparr>bp_stage := Unpublished\<rparr>)"
    using h2 by (simp add: main_advance_def or_exit_def)
  moreover have "main_advance os load pid (h2, p\<lparr>bp_stage := Unpublished\<rparr>) = (h2, p\<lparr>bp_stage := Published, bp_bound := True\<rparr>)"
    by (simp add: main_advance_def)
  moreover have "main_advance os load pid (h2, p\<lparr>bp_stage := Published, bp_bound := True\<rparr>)
      = (h', p\<lparr>bp_stage := Accepting, bp_bound := True\<rparr>)"
    using h3 b by (simp add: main_advance_def or_exit_def)
  ultimately show ?thesis using b by (simp add: eval_nat_numeral)
qed

text \<open>
  What the thread of \<open>OwnerWatchdog\<close> does next, \<open>event\<close> being what it reads from the owner. It looks
  at the flag, unlinks the endpoint and exits in three steps, the main thread and other processes
  between them.
\<close>

datatype owner_event = OwnerData | OwnerEof | OwnerError io_error

definition owner_watchdog ::
  "host_os \<Rightarrow> pid \<Rightarrow> owner_event \<Rightarrow> host \<times> ('e, 'l) broker_process \<Rightarrow> host \<times> ('e, 'l) broker_process" where
  "owner_watchdog os pid event hp =
     (let h = fst hp; p = snd hp
      in case bp_owner p of
           OwnerUnstarted \<Rightarrow> hp
         | OwnerReading \<Rightarrow> (case event of OwnerData \<Rightarrow> hp | _ \<Rightarrow> (h, p\<lparr>bp_owner := OwnerEnded\<rparr>))
         | OwnerEnded \<Rightarrow> (h, p\<lparr>bp_owner := if bp_bound p then OwnerUnlinking else OwnerExiting\<rparr>)
         | OwnerUnlinking \<Rightarrow> (fst (remove_file os (cfg_endpoint (bp_config p)) h), p\<lparr>bp_owner := OwnerExiting\<rparr>)
         | OwnerExiting \<Rightarrow> terminate pid 0 hp)"

definition running :: "stage \<Rightarrow> bool" where
  "running s = (case s of Returning _ \<Rightarrow> False | Gone _ \<Rightarrow> False | _ \<Rightarrow> True)"

definition alive :: "stage \<Rightarrow> bool" where
  "alive s = (case s of Gone _ \<Rightarrow> False | _ \<Rightarrow> True)"

section \<open>Many processes\<close>

record ('e, 'l) system =
  sys_host :: host
  sys_procs :: "pid \<rightharpoonup> ('e, 'l) broker_process"

definition put :: "pid \<Rightarrow> host \<times> ('e, 'l) broker_process \<Rightarrow> ('e, 'l) system \<Rightarrow> ('e, 'l) system" where
  "put pid hp s = \<lparr>sys_host = fst hp, sys_procs = (sys_procs s)(pid \<mapsto> snd hp)\<rparr>"

text \<open>
  The main thread does not fail once its socket is bound: its threads start, and the mode of the
  socket is set while its own watchdog is about to unlink it.
\<close>

definition untroubled :: "host_os \<Rightarrow> ('e, 'l) broker_process \<Rightarrow> bool" where
  "untroubled os p \<longleftrightarrow>
     (bp_stage p = Accepting \<longrightarrow> ho_spawn os = (\<lambda>_. None))
     \<and> (bp_stage p = Published \<and> bp_owner p = OwnerUnlinking \<longrightarrow> ho_set_permissions os (cfg_endpoint (bp_config p)) = None)"

text \<open>
  \<open>Load c lease r\<close> says that loading for the configuration \<open>c\<close> can answer \<open>r\<close>, and \<open>Embed b b'\<close> that a
  request can take the engine from \<open>b\<close> to \<open>b'\<close>. The configurations in use are \<open>configs\<close>. With \<open>faults\<close>
  every call can fail at every stage and the main thread can panic; without, a main thread that has
  bound its socket neither fails nor panics. A process can be killed in both.
\<close>

inductive host_step ::
  "broker_config set \<Rightarrow> bool \<Rightarrow> (broker_config \<Rightarrow> bool \<Rightarrow> (io_error, ('e, 'l) broker_engine_state) result \<Rightarrow> bool)
     \<Rightarrow> (('e, 'l) broker_engine_state \<Rightarrow> ('e, 'l) broker_engine_state \<Rightarrow> bool) \<Rightarrow> ('e, 'l) system \<Rightarrow> ('e, 'l) system \<Rightarrow> bool"
  for configs faults Load Embed where
  launch: "sys_procs s pid = None \<Longrightarrow> c \<in> configs \<Longrightarrow>
    host_step configs faults Load Embed s (put pid (sys_host s, process_new c) s)"
| advance: "sys_procs s pid = Some p \<Longrightarrow> (\<And>lease. Load (bp_config p) lease (load lease)) \<Longrightarrow> faults \<or> untroubled os p \<Longrightarrow>
    host_step configs faults Load Embed s (put pid (main_advance os load pid (sys_host s, p)) s)"
| request: "sys_procs s pid = Some p \<Longrightarrow> bp_stage p = Serving \<Longrightarrow> bp_engine p = Some b \<Longrightarrow> Embed b b' \<Longrightarrow>
    host_step configs faults Load Embed s (put pid (set_engine pid b' (sys_host s, p)) s)"
| owner: "sys_procs s pid = Some p \<Longrightarrow> alive (bp_stage p) \<Longrightarrow>
    host_step configs faults Load Embed s (put pid (owner_watchdog os pid event (sys_host s, p)) s)"
| panic: "sys_procs s pid = Some p \<Longrightarrow> running (bp_stage p) \<Longrightarrow> faults \<or> \<not> bp_bound p \<Longrightarrow>
    host_step configs faults Load Embed s (put pid (leave pid 101 (sys_host s, p)) s)"
| crash: "sys_procs s pid = Some p \<Longrightarrow> alive (bp_stage p) \<Longrightarrow>
    host_step configs faults Load Embed s (put pid (terminate pid code (sys_host s, p)) s)"

inductive host_reach ::
  "broker_config set \<Rightarrow> bool \<Rightarrow> (broker_config \<Rightarrow> bool \<Rightarrow> (io_error, ('e, 'l) broker_engine_state) result \<Rightarrow> bool)
     \<Rightarrow> (('e, 'l) broker_engine_state \<Rightarrow> ('e, 'l) broker_engine_state \<Rightarrow> bool) \<Rightarrow> host \<Rightarrow> ('e, 'l) system \<Rightarrow> bool"
  for configs faults Load Embed h0 where
  start: "host_reach configs faults Load Embed h0 \<lparr>sys_host = h0, sys_procs = Map.empty\<rparr>"
| step: "host_reach configs faults Load Embed h0 s \<Longrightarrow> host_step configs faults Load Embed s s' \<Longrightarrow>
    host_reach configs faults Load Embed h0 s'"

text \<open>The loading and the requests of the program.\<close>

definition program_load ::
  "'x native_api \<Rightarrow> ('x, 'c, 'b, 'f) llama_api \<Rightarrow> 'f float_ops \<Rightarrow> broker_config \<Rightarrow> bool
     \<Rightarrow> (io_error, ('x loaded_engine, cache_file \<times> 'x) broker_engine_state) result \<Rightarrow> bool" where
  "program_load N M F c lease r \<longleftrightarrow> (\<exists>sv d w d' w'. broker_load sv N M F (cfg_model_id c) lease d w = (d', w', r))"

definition program_embed ::
  "'x native_api \<Rightarrow> ('x, 'c, 'b, 'f) llama_api \<Rightarrow> 'f float_ops \<Rightarrow> ('x loaded_engine, cache_file \<times> 'x) broker_engine_state
     \<Rightarrow> ('x loaded_engine, cache_file \<times> 'x) broker_engine_state \<Rightarrow> bool" where
  "program_embed N M F b b' \<longleftrightarrow>
     (\<exists>env pin dir texts r.
        b' = fst (broker_embed (loaded_ops M F) (model_loader (load_with_policy env N M F pin dir)) b texts r))"


section \<open>What a process may change\<close>

definition holds_service :: "stage \<Rightarrow> bool" where
  "holds_service s = (case s of Launched \<Rightarrow> False | Returning _ \<Rightarrow> False | Gone _ \<Rightarrow> False | _ \<Rightarrow> True)"

text \<open>
  The changes a process may make to the host: locks of others only under the name of its endpoint,
  entries only to new directories and files and to directory modes, and, where it may (\<open>own\<close>), to
  what is under its endpoint.
\<close>

definition host_change :: "pid \<Rightarrow> path \<Rightarrow> bool \<Rightarrow> host \<Rightarrow> host \<Rightarrow> bool" where
  "host_change pid endpoint own h h' \<longleftrightarrow>
     (\<forall>x q. host_locks h x = Some q \<and> q \<noteq> pid \<longrightarrow> host_locks h' x = Some q \<or> x = endpoint)
     \<and> (\<forall>x e. host_entries h x = Some e \<longrightarrow>
          host_entries h' x = Some e \<or> is_directory e \<and> host_entries h' x = Some (Directory 0x1C0) \<or> own \<and> x = endpoint)"

lemma host_change_refl [simp]: "host_change pid ep own h h"
  by (simp add: host_change_def)

lemma host_change_trans:
  assumes "host_change pid ep own h h1" and "host_change pid ep own h1 h2"
  shows "host_change pid ep own h h2"
proof -
  have "host_locks h2 x = Some q \<or> x = ep" if "host_locks h x = Some q" "q \<noteq> pid" for x q
    using assms that unfolding host_change_def by blast
  moreover have "host_entries h2 x = Some e \<or> is_directory e \<and> host_entries h2 x = Some (Directory 0x1C0)
      \<or> own \<and> x = ep" if "host_entries h x = Some e" for x e
  proof -
    from assms(1) that consider "host_entries h1 x = Some e" | "is_directory e" "host_entries h1 x = Some (Directory 0x1C0)"
      | "own \<and> x = ep" unfolding host_change_def by blast
    then show ?thesis using assms(2) unfolding host_change_def by cases blast+
  qed
  ultimately show ?thesis unfolding host_change_def by blast
qed

lemma create_dir_all_change: "create_dir_all os p h = (h', r) \<Longrightarrow> host_change pid ep own h h' \<and> host_locks h' = host_locks h"
  by (auto simp: create_dir_all_def host_change_def make_dirs_def split: option.splits if_splits)

lemma create_dir_all_directory:
  "create_dir_all os p h = (h', Inr u) \<Longrightarrow> host_entries h' p = Some e \<Longrightarrow> is_directory e"
  by (auto simp: create_dir_all_def make_dirs_def is_directory_def split: option.splits if_splits)

lemma secure_directory:
  assumes "create_dir_all os p h = (h1, Inr u)" and "set_permissions os p 0x1C0 h1 = (h2, r)"
  shows "host_change pid ep own h h2" and "host_locks h2 = host_locks h"
    and "r = Inr u' \<Longrightarrow> host_entries h2 p = Some (Directory 0x1C0)"
proof -
  have d: "\<exists>m. e = Directory m" if "host_entries h1 p = Some e" for e
    using create_dir_all_directory [OF assms(1) that] by (cases e) (simp_all add: is_directory_def)
  have "host_change pid ep own h1 h2"
    using assms(2) d by (auto simp: set_permissions_def host_change_def with_mode_def is_directory_def split: option.splits if_splits)
  with create_dir_all_change [OF assms(1)] host_change_trans show "host_change pid ep own h h2" by blast
  show "host_locks h2 = host_locks h"
    using assms(2) create_dir_all_change [OF assms(1)] by (auto simp: set_permissions_def split: option.splits)
  show "host_entries h2 p = Some (Directory 0x1C0)" if "r = Inr u'"
    using assms(2) that d by (auto simp: set_permissions_def with_mode_def split: option.splits fs_entry.splits)
qed

lemma secure_parent_change:
  "secure_parent os p h = (h', r) \<Longrightarrow> host_change pid ep own h h' \<and> host_locks h' = host_locks h"
  using create_dir_all_change secure_directory(1,2)
  by (auto simp: secure_parent_def split: option.splits prod.splits sum.splits)

lemma open_lock_file_change:
  "open_lock_file os p h = (h', r) \<Longrightarrow> host_change pid ep own h h' \<and> host_locks h' = host_locks h"
  by (auto simp: open_lock_file_def host_change_def split: option.splits fs_entry.splits if_splits)

lemma try_acquire_change:
  assumes "try_acquire os pid p h = (h', r)"
  shows "host_change pid ep own h h'"
    and "host_locks h' = (if r = Inr True then (host_locks h)(p \<mapsto> pid) else host_locks h)"
    and "r = Inr True \<Longrightarrow> host_locks h p = None"
proof -
  obtain h1 r1 where s: "secure_parent os p h = (h1, r1)" by (metis prod.exhaust)
  note c1 = secure_parent_change [OF s]
  have "host_change pid ep own h h' \<and>
     (host_locks h' = (if r = Inr True then (host_locks h)(p \<mapsto> pid) else host_locks h)) \<and> (r = Inr True \<longrightarrow> host_locks h p = None)"
  proof (cases r1)
    case (Inl e)
    with assms s c1 show ?thesis by (auto simp: try_acquire_def)
  next
    case (Inr u)
    obtain h2 r2 where o: "open_lock_file os p h1 = (h2, r2)" by (metis prod.exhaust)
    note c2 = open_lock_file_change [OF o]
    have c: "host_change pid ep own h h2" "host_locks h2 = host_locks h" using c1 c2 host_change_trans by metis+
    show ?thesis
    proof (cases r2)
      case (Inl e)
      with assms s Inr o c show ?thesis by (auto simp: try_acquire_def)
    next
      case (Inr u2)
      with assms s \<open>r1 = Inr u\<close> o have t: "try_lock os pid p h2 = (h', r)" by (simp add: try_acquire_def)
      then have "host_change pid ep own h2 h'" by (auto simp: try_lock_def host_change_def split: option.splits if_splits)
      with c have "host_change pid ep own h h'" using host_change_trans by blast
      with t c(2) show ?thesis by (auto simp: try_lock_def split: option.splits)
    qed
  qed
  then show "host_change pid ep own h h'"
    "host_locks h' = (if r = Inr True then (host_locks h)(p \<mapsto> pid) else host_locks h)"
    "r = Inr True \<Longrightarrow> host_locks h p = None" by blast+
qed

lemma remove_file_change:
  assumes "remove_file os p h = (h', r)"
  shows "host_change pid p True h h'" and "x \<noteq> p \<Longrightarrow> host_locks h' x = host_locks h x"
    and "x \<noteq> p \<Longrightarrow> host_entries h' x = host_entries h x"
  using assms by (auto simp: remove_file_def host_change_def split: option.splits if_splits)

lemma bind_prepare_change:
  assumes "bind_prepare os p h = (h', r)"
  shows "host_change pid p True h h'" and "\<And>x. x \<noteq> p \<Longrightarrow> host_locks h' x = host_locks h x"
    and "r = Inr u \<Longrightarrow> \<exists>parent. path_parent p = Some parent \<and> host_entries h' parent = Some (Directory 0x1C0)"
proof -
  have "host_change pid p True h h' \<and> (\<forall>x. x \<noteq> p \<longrightarrow> host_locks h' x = host_locks h x)
    \<and> (r = Inr u \<longrightarrow> (\<exists>parent. path_parent p = Some parent \<and> host_entries h' parent = Some (Directory 0x1C0)))"
  proof (cases "path_absolute p \<and> path_parent p \<noteq> None")
    case False
    with assms show ?thesis by (auto simp: bind_prepare_def split: if_splits)
  next
    case True
    then obtain parent where parent: "path_absolute p" "path_parent p = Some parent" by auto
    then have ne: "parent \<noteq> p" using path_parent_neq by blast
    obtain h1 r1 where c: "create_dir_all os parent h = (h1, r1)" by (metis prod.exhaust)
    obtain h2 r2 where m: "set_permissions os parent 0x1C0 h1 = (h2, r2)" by (metis prod.exhaust)
    obtain h3 r3 where rm: "remove_file os p h2 = (h3, r3)" by (metis prod.exhaust)
    have rc: "host_change pid p True h2 h3" "\<forall>x. x \<noteq> p \<longrightarrow> host_locks h3 x = host_locks h2 x"
      "\<forall>x. x \<noteq> p \<longrightarrow> host_entries h3 x = host_entries h2 x"
      using rm by (auto simp: remove_file_def host_change_def split: option.splits if_splits)
    show ?thesis
    proof (cases r1)
      case (Inl e)
      with assms parent c create_dir_all_change [OF c] show ?thesis by (auto simp: bind_prepare_def)
    next
      case (Inr u1)
      note s = secure_directory [OF c [unfolded Inr] m]
      show ?thesis
      proof (cases r2)
        case (Inl e)
        with assms parent c Inr m s(1,2) show ?thesis by (auto simp: bind_prepare_def)
      next
        case r2: (Inr u2)
        have "h' = h3" using assms parent c Inr m r2 rm by (auto simp: bind_prepare_def split: remove_result.splits)
        moreover have "host_change pid p True h h3" using s(1) rc(1) host_change_trans by blast
        ultimately show ?thesis using rc(2,3) s(2,3) r2 parent(2) ne by auto
      qed
    qed
  qed
  then show "host_change pid p True h h'" "\<And>x. x \<noteq> p \<Longrightarrow> host_locks h' x = host_locks h x"
    "r = Inr u \<Longrightarrow> \<exists>parent. path_parent p = Some parent \<and> host_entries h' parent = Some (Directory 0x1C0)" by blast+
qed

lemma bind_socket_change:
  assumes "bind_socket os pid p h = (h', r)"
  shows "host_change pid p own h h'" and "host_locks h' = host_locks h"
    and "r = Inr u \<Longrightarrow> \<exists>m. host_entries h' p = Some (SocketFile m pid)"
  using assms by (auto simp: bind_socket_def host_change_def split: option.splits if_splits)

lemma set_permissions_change:
  assumes "set_permissions os p mode h = (h', r)"
  shows "host_locks h' = host_locks h" and "x \<noteq> p \<Longrightarrow> host_entries h' x = host_entries h x"
    and "host_entries h p = Some e \<Longrightarrow> r = Inr u \<Longrightarrow> host_entries h' p = Some (with_mode mode e)"
    and "host_entries h p = Some e \<Longrightarrow> ho_set_permissions os p = None \<Longrightarrow> r = Inr ()"
  using assms by (auto simp: set_permissions_def split: option.splits)

lemma bind_restrict_change:
  assumes "bind_restrict os p h = (h', bound, r)"
  shows "host_change pid p True h h'" and "\<And>x. x \<noteq> p \<Longrightarrow> host_locks h' x = host_locks h x"
    and "\<And>x. x \<noteq> p \<Longrightarrow> host_entries h' x = host_entries h x"
    and "bound = (r = Inr ())"
    and "host_entries h p = Some (SocketFile m q) \<Longrightarrow> r = Inr () \<Longrightarrow> host_entries h' p = Some (SocketFile 0x180 q)"
    and "host_entries h p = Some (SocketFile m q) \<Longrightarrow> ho_set_permissions os p = None \<Longrightarrow> r = Inr ()"
proof -
  obtain h1 r1 where m: "set_permissions os p 0x180 h = (h1, r1)" by (metis prod.exhaust)
  note c1 = set_permissions_change [OF m]
  obtain h2 r2 where rm: "remove_file os p h1 = (h2, r2)" by (metis prod.exhaust)
  note c2 = remove_file_change [OF rm]
  have h': "h' = (if r = Inr () then h1 else h2)" and "bound = (r = Inr ())" and r: "r = r1"
    using assms m rm by (auto simp: bind_restrict_def split: sum.splits)
  then show "bound = (r = Inr ())" by blast
  show locks: "\<And>x. x \<noteq> p \<Longrightarrow> host_locks h' x = host_locks h x"
    and entries: "\<And>x. x \<noteq> p \<Longrightarrow> host_entries h' x = host_entries h x"
    using h' c1(1,2) c2(2,3) by auto
  then show "host_change pid p True h h'" by (auto simp: host_change_def)
  show "host_entries h' p = Some (SocketFile 0x180 q)" if "host_entries h p = Some (SocketFile m q)" "r = Inr ()"
    using c1(3) [OF that(1)] that(2) h' r by (simp add: with_mode_def)
  show "r = Inr ()" if "host_entries h p = Some (SocketFile m q)" "ho_set_permissions os p = None"
    using c1(4) [OF that] r by simp
qed

section \<open>The invariant\<close>

definition dir_ready :: "stage \<Rightarrow> bool" where
  "dir_ready s \<longleftrightarrow> s \<in> {Cleared, Unpublished, Published, Accepting, Serving}"

definition socket_made :: "stage \<Rightarrow> bool" where
  "socket_made s \<longleftrightarrow> s \<in> {Unpublished, Published, Accepting, Serving}"

definition socket_published :: "stage \<Rightarrow> bool" where
  "socket_published s \<longleftrightarrow> s \<in> {Published, Accepting, Serving}"

definition early :: "stage \<Rightarrow> bool" where
  "early s \<longleftrightarrow> s \<in> {Launched, Leased, Watched}"

definition listening :: "stage \<Rightarrow> bool" where
  "listening s \<longleftrightarrow> s \<in> {Accepting, Serving}"

lemmas stage_defs = holds_service_def dir_ready_def socket_made_def socket_published_def listening_def

text \<open>
  An endpoint is guarded by the service lock \<open>L\<close> when every broker with that endpoint has that lock,
  no endpoint is the directory of this one, and no broker fails once its socket is bound.
\<close>

definition sole_endpoint :: "broker_config set \<Rightarrow> path \<Rightarrow> path \<Rightarrow> bool" where
  "sole_endpoint configs L e \<longleftrightarrow>
     (\<forall>c\<in>configs. (cfg_endpoint c = e \<longrightarrow> cfg_service_lock c = L) \<and> path_parent e \<noteq> Some (cfg_endpoint c))"

definition guarded_endpoint :: "broker_config set \<Rightarrow> bool \<Rightarrow> path \<Rightarrow> path \<Rightarrow> bool" where
  "guarded_endpoint configs faults L e \<longleftrightarrow> \<not> faults \<and> sole_endpoint configs L e"

definition endpoint_dir :: "host \<Rightarrow> path \<Rightarrow> bool" where
  "endpoint_dir h e \<longleftrightarrow> (\<exists>parent. path_parent e = Some parent \<and> host_entries h parent = Some (Directory 0x1C0))"

text \<open>What the host has for the endpoint of a process, by its stage, until its own watchdog unlinks it.\<close>

definition endpoint_ok :: "host \<Rightarrow> pid \<Rightarrow> ('e, 'l) broker_process \<Rightarrow> bool" where
  "endpoint_ok h pid p \<longleftrightarrow>
     (bp_bound p \<longrightarrow> socket_published (bp_stage p)) \<and> (bp_owner p = OwnerUnlinking \<longrightarrow> bp_bound p)
     \<and> (dir_ready (bp_stage p) \<longrightarrow> endpoint_dir h (cfg_endpoint (bp_config p)))
     \<and> (bp_owner p \<noteq> OwnerExiting \<longrightarrow>
          (socket_made (bp_stage p) \<longrightarrow> (\<exists>m. host_entries h (cfg_endpoint (bp_config p)) = Some (SocketFile m pid)))
          \<and> (listening (bp_stage p) \<longrightarrow> host_entries h (cfg_endpoint (bp_config p)) = Some (SocketFile 0x180 pid)))"

text \<open>What the host has for a process of the lock file \<open>L\<close>, be it a service or an accelerator lock.\<close>

definition host_ok :: "broker_config set \<Rightarrow> bool \<Rightarrow> path \<Rightarrow> host \<Rightarrow> pid \<Rightarrow> ('e, 'l) broker_process \<Rightarrow> bool" where
  "host_ok configs faults L h pid p \<longleftrightarrow>
     (holds_service (bp_stage p) \<and> cfg_service_lock (bp_config p) = L \<longrightarrow> host_locks h L = Some pid)
     \<and> (bp_accel p \<longrightarrow> holds_service (bp_stage p)
          \<and> (cfg_accelerator_lock (bp_config p) = L \<longrightarrow> host_locks h L = Some pid \<and> cfg_service_lock (bp_config p) \<noteq> L))
     \<and> (guarded_endpoint configs faults L (cfg_endpoint (bp_config p)) \<longrightarrow> endpoint_ok h pid p)"

text \<open>Where a process may change what is under its endpoint.\<close>

definition may_touch :: "broker_config set \<Rightarrow> bool \<Rightarrow> path \<Rightarrow> ('e, 'l) broker_process \<Rightarrow> bool" where
  "may_touch configs faults L p \<longleftrightarrow>
     (guarded_endpoint configs faults L (cfg_endpoint (bp_config p)) \<longrightarrow> holds_service (bp_stage p))"

lemma endpoint_dir_change:
  assumes "endpoint_dir h e" and "host_change pid ep own h h'" and "path_parent e \<noteq> Some ep"
  shows "endpoint_dir h' e"
proof -
  obtain parent where p: "path_parent e = Some parent" "host_entries h parent = Some (Directory 0x1C0)"
    using assms(1) by (auto simp: endpoint_dir_def)
  then have "host_entries h' parent = Some (Directory 0x1C0)" using assms(2,3) unfolding host_change_def by fastforce
  with p(1) show ?thesis by (simp add: endpoint_dir_def)
qed

lemma endpoint_ok_other:
  assumes "endpoint_ok h q p" and "host_change pid ep own h h'" and "path_parent (cfg_endpoint (bp_config p)) \<noteq> Some ep"
    and "socket_made (bp_stage p) \<Longrightarrow> \<not> (own \<and> cfg_endpoint (bp_config p) = ep)"
  shows "endpoint_ok h' q p"
proof -
  have "host_entries h' (cfg_endpoint (bp_config p)) = Some (SocketFile m q)"
    if "host_entries h (cfg_endpoint (bp_config p)) = Some (SocketFile m q)" "socket_made (bp_stage p)" for m
    using assms(2,4) that unfolding host_change_def by (fastforce simp: is_directory_def)
  moreover have "socket_made s" if "listening s" for s using that by (auto simp: stage_defs)
  ultimately show ?thesis using assms(1) endpoint_dir_change [OF _ assms(2,3)] unfolding endpoint_ok_def by metis
qed

lemma host_ok_other:
  assumes ok: "host_ok configs faults L h q p'" and pok: "host_ok configs faults L h pid p"
    and ch: "host_change pid (cfg_endpoint (bp_config p)) (may_touch configs faults L p) h h'" and "q \<noteq> pid"
    and "bp_config p \<in> configs" and "bp_config p' \<in> configs" and L: "\<And>c. c \<in> configs \<Longrightarrow> cfg_endpoint c \<noteq> L"
  shows "host_ok configs faults L h' q p'"
proof -
  have lock: "host_locks h' L = Some q" if "host_locks h L = Some q"
    using ch that \<open>q \<noteq> pid\<close> L [OF assms(5)] unfolding host_change_def by blast
  have ep: "endpoint_ok h' q p'" if g: "guarded_endpoint configs faults L (cfg_endpoint (bp_config p'))"
  proof (rule endpoint_ok_other [OF _ ch])
    show "endpoint_ok h q p'" using ok g by (simp add: host_ok_def)
    show "path_parent (cfg_endpoint (bp_config p')) \<noteq> Some (cfg_endpoint (bp_config p))"
      using g assms(5) by (simp add: guarded_endpoint_def sole_endpoint_def)
    show "\<not> (may_touch configs faults L p \<and> cfg_endpoint (bp_config p') = cfg_endpoint (bp_config p))"
      if s: "socket_made (bp_stage p')"
    proof
      assume a: "may_touch configs faults L p \<and> cfg_endpoint (bp_config p') = cfg_endpoint (bp_config p)"
      have "cfg_service_lock (bp_config p) = L" "cfg_service_lock (bp_config p') = L"
        using a g assms(5,6) by (simp_all add: guarded_endpoint_def sole_endpoint_def)
      moreover have "holds_service (bp_stage p)" using a g by (simp add: may_touch_def)
      moreover have "holds_service (bp_stage p')" using s by (auto simp: stage_defs)
      ultimately show False using ok pok \<open>q \<noteq> pid\<close> by (simp add: host_ok_def)
    qed
  qed
  show ?thesis using ok lock ep unfolding host_ok_def by blast
qed

section \<open>Every step keeps it\<close>

definition keeps ::
  "broker_config set \<Rightarrow> bool \<Rightarrow> path \<Rightarrow> pid \<Rightarrow> ('e, 'l) broker_process \<Rightarrow> host \<Rightarrow> host \<times> ('e, 'l) broker_process \<Rightarrow> bool" where
  "keeps configs faults L pid p h hp \<longleftrightarrow>
     host_ok configs faults L (fst hp) pid (snd hp)
     \<and> host_change pid (cfg_endpoint (bp_config p)) (may_touch configs faults L p) h (fst hp)
     \<and> bp_config (snd hp) = bp_config p"

lemma release_all_change: "host_change pid ep own h (release_all pid h)"
  by (auto simp: host_change_def release_all_def)

lemma terminate_keeps:
  assumes "host_change pid (cfg_endpoint (bp_config p)) (may_touch configs faults L p) h h1" and "bp_config p1 = bp_config p"
  shows "keeps configs faults L pid p h (terminate pid code (h1, p1))"
  using assms host_change_trans [OF assms(1) release_all_change]
  by (simp add: keeps_def terminate_def host_ok_def endpoint_ok_def stage_defs)

text \<open>A main thread leaves with nothing bound, or not at all while its endpoint is guarded.\<close>

lemma leave_keeps:
  assumes "host_change pid (cfg_endpoint (bp_config p)) (may_touch configs faults L p) h h1" and "bp_config p1 = bp_config p"
    and "guarded_endpoint configs faults L (cfg_endpoint (bp_config p)) \<Longrightarrow> \<not> bp_bound p1 \<and> bp_owner p1 \<noteq> OwnerUnlinking"
  shows "keeps configs faults L pid p h (leave pid code (h1, p1))"
  using assms host_change_trans [OF assms(1) release_all_change]
  by (simp add: keeps_def leave_def host_ok_def endpoint_ok_def stage_defs)

lemma or_exit_keeps:
  assumes "host_change pid (cfg_endpoint (bp_config p)) (may_touch configs faults L p) h h1" and "bp_config p1 = bp_config p"
    and "r \<noteq> Inr () \<Longrightarrow> guarded_endpoint configs faults L (cfg_endpoint (bp_config p)) \<Longrightarrow> \<not> bp_bound p1 \<and> bp_owner p1 \<noteq> OwnerUnlinking"
    and "r = Inr () \<Longrightarrow> host_ok configs faults L h1 pid (p1\<lparr>bp_stage := s\<rparr>)"
  shows "keeps configs faults L pid p h (or_exit pid s p1 (h1, r))"
proof (cases r)
  case (Inl e)
  with leave_keeps [OF assms(1,2), where code = 1] assms(3) show ?thesis by (simp add: or_exit_def)
next
  case (Inr u)
  with assms show ?thesis by (simp add: or_exit_def keeps_def)
qed

lemma unbound:
  assumes "host_ok configs faults L h pid p" and "guarded_endpoint configs faults L (cfg_endpoint (bp_config p))"
    and "\<not> socket_published (bp_stage p)"
  shows "\<not> bp_bound p \<and> bp_owner p \<noteq> OwnerUnlinking"
  using assms by (auto simp: host_ok_def endpoint_ok_def)

text \<open>A step of the main thread that leaves entries and locks alone.\<close>

lemma stage_keeps:
  assumes ok: "host_ok configs faults L h pid p" and "holds_service s = holds_service (bp_stage p)"
    and "dir_ready s \<longrightarrow> dir_ready (bp_stage p)" and "socket_made s \<longrightarrow> socket_made (bp_stage p)"
    and "listening s \<longrightarrow> listening (bp_stage p)" and "socket_published (bp_stage p) \<longrightarrow> socket_published s"
  shows "host_ok configs faults L h pid (p\<lparr>bp_stage := s\<rparr>)"
proof -
  have "endpoint_ok h pid (p\<lparr>bp_stage := s\<rparr>)" if "endpoint_ok h pid p" using that assms(2-) by (auto simp: endpoint_ok_def)
  with ok assms(2) show ?thesis by (auto simp: host_ok_def)
qed

lemma set_engine_keeps:
  assumes "host_ok configs faults L h pid p" and "be_accelerator_lease b \<longrightarrow> bp_accel p" and "bp_config p = bp_config p0"
  shows "keeps configs faults L pid p0 h (set_engine pid b (h, p))"
proof (cases "bp_accel p \<and> \<not> be_accelerator_lease b")
  case False
  have "endpoint_ok h pid (p\<lparr>bp_engine := Some b, bp_accel := be_accelerator_lease b\<rparr>)" if "endpoint_ok h pid p"
    using that by (simp add: endpoint_ok_def)
  with False assms show ?thesis by (auto simp: keeps_def set_engine_def host_ok_def)
next
  case True
  let ?h = "release pid (cfg_accelerator_lock (bp_config p)) h"
  have h: "host_entries ?h = host_entries h" "\<And>ep own. host_change pid ep own h ?h"
    "\<And>x. x \<noteq> cfg_accelerator_lock (bp_config p) \<Longrightarrow> host_locks ?h x = host_locks h x"
    by (auto simp: release_def host_change_def)
  have "endpoint_ok ?h pid (p\<lparr>bp_engine := Some b, bp_accel := False\<rparr>)" if "endpoint_ok h pid p"
    using that h(1) by (simp add: endpoint_ok_def endpoint_dir_def)
  moreover have "host_locks ?h L = Some pid" if "holds_service (bp_stage p)" "cfg_service_lock (bp_config p) = L"
    using assms(1) that True h(3) by (cases "cfg_accelerator_lock (bp_config p) = L") (auto simp: host_ok_def)
  ultimately show ?thesis using assms True h(2) by (simp add: keeps_def set_engine_def host_ok_def)
qed

lemma endpoint_ok_early:
  assumes "endpoint_ok h pid p" and "\<not> dir_ready (bp_stage p)" and "\<not> dir_ready (bp_stage p')" and "\<not> socket_made (bp_stage p')"
    and "bp_config p' = bp_config p" and "bp_bound p' = bp_bound p" and "bp_owner p' = bp_owner p \<or> bp_owner p' \<noteq> OwnerUnlinking"
  shows "endpoint_ok h' pid p'"
proof -
  have "\<not> socket_published (bp_stage p)" "\<not> listening (bp_stage p')" using assms(2,4) by (auto simp: stage_defs)
  with assms show ?thesis by (auto simp: endpoint_ok_def)
qed

lemma acquire_service_keeps:
  assumes ok: "host_ok configs faults L h pid p" and "bp_stage p = Launched"
  shows "keeps configs faults L pid p h (main_advance os load pid (h, p))"
proof -
  obtain h1 r where t: "try_acquire os pid (cfg_service_lock (bp_config p)) h = (h1, r)" by (metis prod.exhaust)
  note c = try_acquire_change [OF t]
  have na: "\<not> bp_accel p" using assms by (auto simp: host_ok_def holds_service_def)
  have nb: "\<not> bp_bound p \<and> bp_owner p \<noteq> OwnerUnlinking" if "guarded_endpoint configs faults L (cfg_endpoint (bp_config p))"
    using unbound [OF ok that] assms(2) by (simp add: stage_defs)
  show ?thesis
  proof (cases "r = Inr True")
    case True
    have "endpoint_ok h1 pid (p\<lparr>bp_stage := Leased\<rparr>)" if "endpoint_ok h pid p"
      by (rule endpoint_ok_early [OF that]) (simp_all add: assms(2) stage_defs)
    with assms True t c na show ?thesis by (simp add: main_advance_def keeps_def host_ok_def holds_service_def)
  next
    case False
    with assms t leave_keeps [OF c(1) refl nb] show ?thesis by (cases r) (auto simp: main_advance_def)
  qed
qed

lemma watch_keeps:
  assumes ok: "host_ok configs faults L h pid p" and "bp_stage p = Leased"
  shows "keeps configs faults L pid p h (main_advance os load pid (h, p))"
proof (cases "ho_spawn os ''semantic-broker-owner-watchdog''")
  case None
  have "endpoint_ok h pid (p\<lparr>bp_stage := Watched, bp_owner := OwnerReading\<rparr>)" if "endpoint_ok h pid p"
    by (rule endpoint_ok_early [OF that]) (simp_all add: assms(2) stage_defs)
  with assms None show ?thesis by (simp add: main_advance_def spawn_def keeps_def host_ok_def holds_service_def)
next
  case (Some e)
  have nb: "\<not> bp_bound p \<and> bp_owner p \<noteq> OwnerUnlinking" if "guarded_endpoint configs faults L (cfg_endpoint (bp_config p))"
    using unbound [OF ok that] assms(2) by (simp add: stage_defs)
  from leave_keeps [OF host_change_refl refl nb] assms(2) Some show ?thesis by (simp add: main_advance_def spawn_def)
qed

lemma acquire_accelerator_keeps:
  assumes ok: "host_ok configs faults L h pid p" and "bp_stage p = Watched"
  shows "keeps configs faults L pid p h (main_advance os load pid (h, p))"
proof -
  obtain h1 r where t: "try_acquire os pid (cfg_accelerator_lock (bp_config p)) h = (h1, r)" by (metis prod.exhaust)
  note c = try_acquire_change [OF t]
  have nb: "\<not> bp_bound p \<and> bp_owner p \<noteq> OwnerUnlinking" if "guarded_endpoint configs faults L (cfg_endpoint (bp_config p))"
    using unbound [OF ok that] assms(2) by (simp add: stage_defs)
  show ?thesis
  proof (cases r)
    case (Inl e)
    with assms t leave_keeps [OF c(1) refl nb, where code = 1] show ?thesis by (simp add: main_advance_def)
  next
    case (Inr taken)
    have s: "cfg_service_lock (bp_config p) = L \<Longrightarrow> host_locks h L = Some pid" using assms by (simp add: host_ok_def holds_service_def)
    with Inr c(2,3) have "cfg_service_lock (bp_config p) = L \<Longrightarrow> host_locks h1 L = Some pid"
      "taken \<Longrightarrow> cfg_accelerator_lock (bp_config p) = L \<Longrightarrow> host_locks h1 L = Some pid \<and> cfg_service_lock (bp_config p) \<noteq> L"
      by auto
    moreover have "endpoint_ok h1 pid (p\<lparr>bp_stage := Elected, bp_accel := taken\<rparr>)" if "endpoint_ok h pid p"
      by (rule endpoint_ok_early [OF that]) (simp_all add: assms(2) stage_defs)
    ultimately show ?thesis using assms Inr t c(1) by (simp add: main_advance_def keeps_def host_ok_def holds_service_def)
  qed
qed

lemma bind_prepare_keeps:
  assumes ok: "host_ok configs faults L h pid p" and s: "bp_stage p = EngineReady" and L: "cfg_endpoint (bp_config p) \<noteq> L"
  shows "keeps configs faults L pid p h (main_advance os load pid (h, p))"
proof -
  let ?ep = "cfg_endpoint (bp_config p)"
  obtain h1 r where b: "bind_prepare os ?ep h = (h1, r)" by (metis prod.exhaust)
  note c = bind_prepare_change [OF b]
  have "endpoint_ok h1 pid (p\<lparr>bp_stage := Cleared\<rparr>)" if "endpoint_ok h pid p" "r = Inr ()"
    using that s c(3) by (auto simp: endpoint_ok_def endpoint_dir_def stage_defs)
  then have "host_ok configs faults L h1 pid (p\<lparr>bp_stage := Cleared\<rparr>)" if "r = Inr ()"
    using ok s c(2) [of L] that L by (auto simp: host_ok_def holds_service_def)
  moreover have "may_touch configs faults L p" using s by (simp add: may_touch_def holds_service_def)
  moreover have "\<not> bp_bound p \<and> bp_owner p \<noteq> OwnerUnlinking" if "guarded_endpoint configs faults L ?ep"
    using unbound [OF ok that] s by (simp add: stage_defs)
  ultimately show ?thesis using s b c(1) by (auto simp: main_advance_def intro!: or_exit_keeps)
qed

lemma bind_socket_keeps:
  assumes ok: "host_ok configs faults L h pid p" and s: "bp_stage p = Cleared"
    and dir: "guarded_endpoint configs faults L (cfg_endpoint (bp_config p)) \<Longrightarrow>
      path_parent (cfg_endpoint (bp_config p)) \<noteq> Some (cfg_endpoint (bp_config p))"
  shows "keeps configs faults L pid p h (main_advance os load pid (h, p))"
proof -
  let ?ep = "cfg_endpoint (bp_config p)"
  obtain h1 r where b: "bind_socket os pid ?ep h = (h1, r)" by (metis prod.exhaust)
  note c = bind_socket_change [OF b]
  have "endpoint_ok h1 pid (p\<lparr>bp_stage := Unpublished\<rparr>)"
    if "endpoint_ok h pid p" "r = Inr ()" "path_parent ?ep \<noteq> Some ?ep"
    using that s c(3) endpoint_dir_change [OF _ c(1) that(3)] by (auto simp: endpoint_ok_def stage_defs)
  then have "host_ok configs faults L h1 pid (p\<lparr>bp_stage := Unpublished\<rparr>)" if "r = Inr ()"
    using ok s c(2) that dir by (auto simp: host_ok_def holds_service_def)
  moreover have "\<not> bp_bound p \<and> bp_owner p \<noteq> OwnerUnlinking" if "guarded_endpoint configs faults L ?ep"
    using unbound [OF ok that] s by (simp add: stage_defs)
  ultimately show ?thesis using s b c(1) by (auto simp: main_advance_def intro!: or_exit_keeps)
qed

lemma bind_publish_keeps:
  assumes ok: "host_ok configs faults L h pid p" and s: "bp_stage p = Unpublished"
  shows "keeps configs faults L pid p h (main_advance os load pid (h, p))"
proof -
  have "endpoint_ok h pid (p\<lparr>bp_stage := Published, bp_bound := True\<rparr>)" if "endpoint_ok h pid p"
    using that s by (auto simp: endpoint_ok_def stage_defs)
  with ok s show ?thesis by (simp add: main_advance_def keeps_def host_ok_def holds_service_def)
qed

lemma bind_restrict_keeps:
  assumes ok: "host_ok configs faults L h pid p" and s: "bp_stage p = Published" and L: "cfg_endpoint (bp_config p) \<noteq> L"
    and u: "faults \<or> untroubled os p"
    and dir: "guarded_endpoint configs faults L (cfg_endpoint (bp_config p)) \<Longrightarrow>
      path_parent (cfg_endpoint (bp_config p)) \<noteq> Some (cfg_endpoint (bp_config p))"
  shows "keeps configs faults L pid p h (main_advance os load pid (h, p))"
proof -
  let ?ep = "cfg_endpoint (bp_config p)"
  obtain h1 bound r where b: "bind_restrict os ?ep h = (h1, bound, r)" by (metis prod.exhaust)
  note c = bind_restrict_change [OF b]
  have ep: "endpoint_ok h1 pid (p\<lparr>bp_bound := bound, bp_stage := Accepting\<rparr>)"
    if g: "guarded_endpoint configs faults L ?ep" and r: "r = Inr ()"
  proof -
    have e: "endpoint_ok h pid p" using ok g by (simp add: host_ok_def)
    then have d: "endpoint_dir h1 ?ep" using s endpoint_dir_change [OF _ c(1) dir [OF g]] by (simp add: endpoint_ok_def stage_defs)
    have "host_entries h1 ?ep = Some (SocketFile 0x180 pid)" if o: "bp_owner p \<noteq> OwnerExiting"
    proof -
      obtain m where "host_entries h ?ep = Some (SocketFile m pid)" using e s o by (auto simp: endpoint_ok_def socket_made_def)
      with c(5) r show ?thesis by blast
    qed
    with d c(4) r show ?thesis by (simp add: endpoint_ok_def stage_defs)
  qed
  have fail: "bp_owner p \<noteq> OwnerUnlinking" if g: "guarded_endpoint configs faults L ?ep" and r: "r \<noteq> Inr ()"
  proof
    assume o: "bp_owner p = OwnerUnlinking"
    with ok g s o obtain m where "host_entries h ?ep = Some (SocketFile m pid)" by (auto simp: host_ok_def endpoint_ok_def socket_made_def)
    moreover have "ho_set_permissions os ?ep = None" using u g s o by (simp add: guarded_endpoint_def untroubled_def)
    ultimately show False using c(6) r by blast
  qed
  have "host_ok configs faults L h1 pid (p\<lparr>bp_bound := bound, bp_stage := Accepting\<rparr>)" if "r = Inr ()"
    using ok s c(2) [of L] L ep that by (auto simp: host_ok_def holds_service_def)
  moreover have "may_touch configs faults L p" using s by (simp add: may_touch_def holds_service_def)
  ultimately show ?thesis using s b c(1,4) fail by (auto simp: main_advance_def intro!: or_exit_keeps)
qed

lemma accept_keeps:
  assumes ok: "host_ok configs faults L h pid p" and s: "bp_stage p = Accepting" and u: "faults \<or> untroubled os p"
  shows "keeps configs faults L pid p h (main_advance os load pid (h, p))"
proof -
  have serving: "host_ok configs faults L h pid (p\<lparr>bp_stage := Serving\<rparr>)"
    using stage_keeps [OF ok, of Serving] s by (simp add: stage_defs)
  have leaves: "keeps configs faults L pid p h (leave pid 1 (h, p))" if "faults"
    using leave_keeps [OF host_change_refl refl, where p = p and faults = faults] that by (simp add: guarded_endpoint_def)
  have quiet: "ho_spawn os = (\<lambda>_. None)" if "\<not> faults" using u s that by (simp add: untroubled_def)
  have "keeps configs faults L pid p h (h, p\<lparr>bp_stage := Serving\<rparr>)" using serving by (simp add: keeps_def)
  with leaves quiet s show ?thesis by (cases faults) (auto simp: main_advance_def spawn_def or_exit_def split: option.split)
qed

lemma load_keeps:
  assumes ok: "host_ok configs faults L h pid p" and s: "bp_stage p = Elected"
    and load: "\<And>b. load (bp_accel p) = Inr b \<Longrightarrow> be_accelerator_lease b \<longrightarrow> bp_accel p"
  shows "keeps configs faults L pid p h (main_advance os load pid (h, p))"
proof (cases "load (bp_accel p)")
  case (Inl e)
  have "\<not> bp_bound p \<and> bp_owner p \<noteq> OwnerUnlinking" if "guarded_endpoint configs faults L (cfg_endpoint (bp_config p))"
    using unbound [OF ok that] s by (simp add: stage_defs)
  from leave_keeps [OF host_change_refl refl this] Inl s show ?thesis by (simp add: main_advance_def)
next
  case (Inr b)
  have "host_ok configs faults L h pid (p\<lparr>bp_stage := EngineReady\<rparr>)"
    using stage_keeps [OF ok, of EngineReady] s by (simp add: stage_defs)
  from set_engine_keeps [OF this, of b p] load [OF Inr] Inr s show ?thesis by (simp add: main_advance_def)
qed

lemma main_advance_keeps:
  assumes ok: "host_ok configs faults L h pid p" and load: "\<And>lease b. load lease = Inr b \<Longrightarrow> be_accelerator_lease b \<longrightarrow> lease"
    and L: "cfg_endpoint (bp_config p) \<noteq> L" and u: "faults \<or> untroubled os p"
  shows "keeps configs faults L pid p h (main_advance os load pid (h, p))"
proof -
  have dir: "path_parent (cfg_endpoint (bp_config p)) \<noteq> Some (cfg_endpoint (bp_config p))"
    using path_parent_neq by blast
  show ?thesis
  proof (cases "bp_stage p")
    case Launched with ok show ?thesis by (rule acquire_service_keeps)
  next
    case Leased with ok show ?thesis by (rule watch_keeps)
  next
    case Watched with ok show ?thesis by (rule acquire_accelerator_keeps)
  next
    case Elected from load_keeps [OF ok this load] show ?thesis .
  next
    case EngineReady from bind_prepare_keeps [OF ok this L] show ?thesis .
  next
    case Cleared from bind_socket_keeps [OF ok this dir] show ?thesis .
  next
    case Unpublished with ok show ?thesis by (rule bind_publish_keeps)
  next
    case Published from bind_restrict_keeps [OF ok this L u dir] show ?thesis .
  next
    case Accepting from accept_keeps [OF ok this u] show ?thesis .
  next
    case Serving with ok show ?thesis by (simp add: main_advance_def keeps_def)
  next
    case (Returning code) with terminate_keeps [OF host_change_refl refl] show ?thesis by (simp add: main_advance_def)
  next
    case (Gone code) with ok show ?thesis by (simp add: main_advance_def keeps_def)
  qed
qed

lemma owner_keeps:
  assumes ok: "host_ok configs faults L h pid p" and L: "cfg_endpoint (bp_config p) \<noteq> L"
  shows "keeps configs faults L pid p h (owner_watchdog os pid event (h, p))"
proof (cases "bp_owner p")
  case OwnerUnlinking
  let ?ep = "cfg_endpoint (bp_config p)"
  obtain h1 r where rm: "remove_file os ?ep h = (h1, r)" by (metis prod.exhaust)
  note c = remove_file_change [OF rm]
  have "holds_service s" if "socket_published s" for s using that by (auto simp: stage_defs)
  then have touch: "may_touch configs faults L p"
    using ok OwnerUnlinking by (simp add: may_touch_def host_ok_def endpoint_ok_def)
  have "endpoint_ok h1 pid (p\<lparr>bp_owner := OwnerExiting\<rparr>)" if e: "endpoint_ok h pid p"
  proof -
    have "path_parent ?ep \<noteq> Some ?ep" using path_parent_neq by blast
    with e endpoint_dir_change [OF _ c(1)] show ?thesis by (simp add: endpoint_ok_def)
  qed
  moreover have "host_locks h1 L = host_locks h L" using L c(2) [of L] by simp
  ultimately have "host_ok configs faults L h1 pid (p\<lparr>bp_owner := OwnerExiting\<rparr>)"
    using ok by (simp add: host_ok_def)
  with OwnerUnlinking rm c(1) touch show ?thesis by (simp add: owner_watchdog_def keeps_def)
next
  case OwnerExiting
  with terminate_keeps [OF host_change_refl refl] show ?thesis by (simp add: owner_watchdog_def)
next
  case OwnerEnded
  have "endpoint_ok h pid (p\<lparr>bp_owner := if bp_bound p then OwnerUnlinking else OwnerExiting\<rparr>)" if "endpoint_ok h pid p"
    using that OwnerEnded by (simp add: endpoint_ok_def)
  with ok OwnerEnded show ?thesis by (simp add: owner_watchdog_def keeps_def host_ok_def)
next
  case OwnerReading
  have "endpoint_ok h pid (p\<lparr>bp_owner := OwnerEnded\<rparr>)" if "endpoint_ok h pid p"
    using that OwnerReading by (simp add: endpoint_ok_def)
  with ok OwnerReading show ?thesis by (simp add: owner_watchdog_def keeps_def host_ok_def split: owner_event.split)
next
  case OwnerUnstarted
  with ok show ?thesis by (simp add: owner_watchdog_def keeps_def)
qed

lemma panic_keeps:
  assumes ok: "host_ok configs faults L h pid p" and "faults \<or> \<not> bp_bound p"
  shows "keeps configs faults L pid p h (leave pid code (h, p))"
proof (rule leave_keeps [OF host_change_refl refl])
  assume g: "guarded_endpoint configs faults L (cfg_endpoint (bp_config p))"
  then have "\<not> bp_bound p" using assms(2) by (simp add: guarded_endpoint_def)
  with ok g show "\<not> bp_bound p \<and> bp_owner p \<noteq> OwnerUnlinking" by (simp add: host_ok_def endpoint_ok_def)
qed

section \<open>Leased engines\<close>

text \<open>
  What the loading and the requests of a broker must give: an engine holds the lease only if it was
  given it and has not dropped it, and is accelerated only while it holds it.
\<close>

locale leased_engines =
  fixes Load :: "broker_config \<Rightarrow> bool \<Rightarrow> (io_error, ('e, 'l) broker_engine_state) result \<Rightarrow> bool"
    and Embed :: "('e, 'l) broker_engine_state \<Rightarrow> ('e, 'l) broker_engine_state \<Rightarrow> bool"
    and ok :: "('e, 'l) broker_engine_state \<Rightarrow> bool"
    and accelerated :: "('e, 'l) broker_engine_state \<Rightarrow> bool"
  assumes load_ok: "Load c lease (Inr b) \<Longrightarrow> ok b \<and> (be_accelerator_lease b \<longrightarrow> lease)"
    and embed_ok: "ok b \<Longrightarrow> Embed b b' \<Longrightarrow> ok b' \<and> (be_accelerator_lease b' \<longrightarrow> be_accelerator_lease b)"
    and ok_accelerated: "ok b \<Longrightarrow> accelerated b \<Longrightarrow> be_accelerator_lease b"
begin

definition engine_ok :: "('e, 'l) broker_process \<Rightarrow> bool" where
  "engine_ok p \<longleftrightarrow> (\<forall>b. bp_engine p = Some b \<longrightarrow> ok b \<and> bp_accel p = be_accelerator_lease b)
     \<and> (early (bp_stage p) \<longrightarrow> bp_engine p = None)"

definition system_ok :: "broker_config set \<Rightarrow> bool \<Rightarrow> path \<Rightarrow> ('e, 'l) system \<Rightarrow> bool" where
  "system_ok configs faults L s \<longleftrightarrow>
     (\<forall>pid p. sys_procs s pid = Some p \<longrightarrow>
        bp_config p \<in> configs \<and> host_ok configs faults L (sys_host s) pid p \<and> engine_ok p)"

lemma system_ok_put:
  assumes inv: "system_ok configs faults L s" and L: "\<forall>c\<in>configs. cfg_endpoint c \<noteq> L" and p: "sys_procs s pid = Some p"
    and k: "keeps configs faults L pid p (sys_host s) hp" and e: "engine_ok (snd hp)"
  shows "system_ok configs faults L (put pid hp s)"
proof -
  have sp: "bp_config p \<in> configs" "host_ok configs faults L (sys_host s) pid p" using inv p by (simp_all add: system_ok_def)
  have others: "host_ok configs faults L (fst hp) q p'" if q: "sys_procs s q = Some p'" "q \<noteq> pid" for q p'
  proof -
    have sq: "bp_config p' \<in> configs" "host_ok configs faults L (sys_host s) q p'" using inv q(1) by (simp_all add: system_ok_def)
    have ch: "host_change pid (cfg_endpoint (bp_config p)) (may_touch configs faults L p) (sys_host s) (fst hp)"
      using k by (simp add: keeps_def)
    from host_ok_other [OF sq(2) sp(2) ch q(2) sp(1) sq(1)] L show ?thesis by blast
  qed
  show ?thesis unfolding system_ok_def
  proof (intro allI impI)
    fix q p'
    assume q: "sys_procs (put pid hp s) q = Some p'"
    show "bp_config p' \<in> configs \<and> host_ok configs faults L (sys_host (put pid hp s)) q p' \<and> engine_ok p'"
    proof (cases "q = pid")
      case True
      with q k e sp(1) show ?thesis by (simp add: put_def keeps_def)
    next
      case False
      with q have "sys_procs s q = Some p'" by (simp add: put_def)
      with False others inv show ?thesis by (simp add: put_def system_ok_def)
    qed
  qed
qed

lemma leave_engine: "engine_ok (snd (leave pid code hp))"
  by (simp add: leave_def engine_ok_def)

lemma terminate_engine: "engine_ok (snd (terminate pid code hp))"
  by (simp add: terminate_def engine_ok_def)

lemma or_exit_engine:
  assumes "engine_ok p" and "\<not> early s"
  shows "engine_ok (snd (or_exit pid s p r))"
proof -
  obtain h res where "r = (h, res)" by (cases r)
  with assms leave_engine [of pid 1 "(h, p)"] show ?thesis by (cases res) (auto simp: or_exit_def engine_ok_def)
qed

lemma set_engine_engine: "ok b \<Longrightarrow> \<not> early (bp_stage p) \<Longrightarrow> engine_ok (snd (set_engine pid b (h, p)))"
  by (simp add: set_engine_def engine_ok_def)

lemma advance_engine:
  assumes e: "engine_ok p" and load: "\<And>lease. Load (bp_config p) lease (load lease)"
  shows "engine_ok (snd (main_advance os load pid (h, p)))"
proof (cases "bp_stage p")
  case Elected
  show ?thesis
  proof (cases "load (bp_accel p)")
    case (Inr b)
    with load_ok load [of "bp_accel p"] have "ok b" by metis
    with Elected Inr set_engine_engine [of b "p\<lparr>bp_stage := EngineReady\<rparr>"] show ?thesis
      by (simp add: main_advance_def early_def)
  qed (use Elected leave_engine in \<open>simp add: main_advance_def\<close>)
next
  case Launched
  with e leave_engine show ?thesis
    by (auto simp: main_advance_def engine_ok_def early_def split: prod.split sum.split)
next
  case Leased
  with e leave_engine show ?thesis
    by (auto simp: main_advance_def engine_ok_def early_def split: prod.split sum.split)
next
  case Watched
  with e leave_engine show ?thesis
    by (auto simp: main_advance_def engine_ok_def early_def split: prod.split sum.split)
next
  case Unpublished
  with e show ?thesis by (simp add: main_advance_def engine_ok_def early_def)
next
  case Published
  have "engine_ok (p\<lparr>bp_bound := bound\<rparr>)" for bound using e by (simp add: engine_ok_def)
  with Published or_exit_engine show ?thesis by (simp add: main_advance_def early_def split: prod.split)
next
  case Accepting
  with e leave_engine or_exit_engine show ?thesis by (simp add: main_advance_def early_def split: prod.split sum.split)
qed (use e or_exit_engine terminate_engine in \<open>simp_all add: main_advance_def early_def\<close>)

lemma owner_engine: "engine_ok p \<Longrightarrow> engine_ok (snd (owner_watchdog os pid event (h, p)))"
  by (cases "bp_owner p"; cases event) (simp_all add: owner_watchdog_def terminate_def engine_ok_def early_def)

lemma launch_ok: "bp_config (process_new c) = c" "host_ok configs faults L h pid (process_new c)" "engine_ok (process_new c)"
  by (simp_all add: process_new_def host_ok_def endpoint_ok_def stage_defs engine_ok_def)

lemma step_ok:
  assumes "host_step configs faults Load Embed s s'" and inv: "system_ok configs faults L s"
    and L: "\<forall>c\<in>configs. cfg_endpoint c \<noteq> L"
  shows "system_ok configs faults L s'"
proof -
  have get: "bp_config p \<in> configs" "host_ok configs faults L (sys_host s) pid p" "engine_ok p" if "sys_procs s pid = Some p" for pid p
    using inv that by (simp_all add: system_ok_def)
  note kept = system_ok_put [OF inv L]
  show ?thesis using assms(1)
  proof cases
    case (launch pid c)
    with inv show ?thesis by (auto simp: system_ok_def put_def launch_ok)
  next
    case (advance pid p load os)
    note p = get [OF advance(2)]
    have "be_accelerator_lease b \<longrightarrow> lease" if "load lease = Inr b" for lease b
      using load_ok advance(3) [of lease] that by metis
    then have "keeps configs faults L pid p (sys_host s) (main_advance os load pid (sys_host s, p))"
      by (rule main_advance_keeps [OF p(2) _ bspec [OF L p(1)] advance(4)])
    from this advance_engine [OF p(3) advance(3)] show ?thesis unfolding advance(1) by (rule kept [OF advance(2)])
  next
    case (request pid p b b')
    note p = get [OF request(2)]
    then have b: "ok b'" "be_accelerator_lease b' \<longrightarrow> bp_accel p"
      using embed_ok request(4,5) by (auto simp: engine_ok_def)
    have "engine_ok (snd (set_engine pid b' (sys_host s, p)))"
      using set_engine_engine [OF b(1)] request(3) by (simp add: early_def)
    from set_engine_keeps [OF p(2) b(2) refl] this show ?thesis unfolding request(1) by (rule kept [OF request(2)])
  next
    case (owner pid p os event)
    note p = get [OF owner(2)]
    from owner_keeps [OF p(2) bspec [OF L p(1)]] owner_engine [OF p(3)] show ?thesis
      unfolding owner(1) by (rule kept [OF owner(2)])
  next
    case (panic pid p)
    from panic_keeps [OF get(2) [OF panic(2)] panic(4)] leave_engine show ?thesis
      unfolding panic(1) by (rule kept [OF panic(2)])
  next
    case (crash pid p code)
    from terminate_keeps [OF host_change_refl refl] terminate_engine show ?thesis
      unfolding crash(1) by (rule kept [OF crash(2)])
  qed
qed

lemma reach_ok:
  assumes "host_reach configs faults Load Embed h0 s" and "\<forall>c\<in>configs. cfg_endpoint c \<noteq> L"
  shows "system_ok configs faults L s"
  using assms(1)
proof (induction rule: host_reach.induct)
  case start
  then show ?case by (simp add: system_ok_def)
next
  case (step s s')
  with step_ok assms(2) show ?case by blast
qed

lemma service_unique:
  assumes "host_reach configs faults Load Embed h0 s" and "\<forall>c\<in>configs. cfg_endpoint c \<noteq> L"
    and "sys_procs s pid = Some p" and "holds_service (bp_stage p)" and "cfg_service_lock (bp_config p) = L"
    and "sys_procs s pid' = Some p'" and "holds_service (bp_stage p')" and "cfg_service_lock (bp_config p') = L"
  shows "pid = pid'"
proof -
  have "host_ok configs faults L (sys_host s) pid p" "host_ok configs faults L (sys_host s) pid' p'"
    using reach_ok [OF assms(1,2)] assms(3,6) by (simp_all add: system_ok_def)
  with assms(4,5,7,8) show ?thesis by (simp add: host_ok_def)
qed

lemma accelerator_unique:
  assumes "host_reach configs faults Load Embed h0 s" and "\<forall>c\<in>configs. cfg_endpoint c \<noteq> L"
    and "sys_procs s pid = Some p" and "bp_engine p = Some b" and "accelerated b" and "cfg_accelerator_lock (bp_config p) = L"
    and "sys_procs s pid' = Some p'" and "bp_engine p' = Some b'" and "accelerated b'" and "cfg_accelerator_lock (bp_config p') = L"
  shows "pid = pid'"
proof -
  have "system_ok configs faults L s" using reach_ok [OF assms(1,2)] .
  then have "host_ok configs faults L (sys_host s) pid p" "host_ok configs faults L (sys_host s) pid' p'" "engine_ok p" "engine_ok p'"
    using assms(3,7) by (simp_all add: system_ok_def)
  with assms(4,5,6,8-10) ok_accelerated show ?thesis by (simp add: host_ok_def engine_ok_def)
qed

lemma endpoint_private:
  assumes "host_reach configs False Load Embed h0 s" and "\<forall>c\<in>configs. cfg_endpoint c \<noteq> L"
    and "sole_endpoint configs L (cfg_endpoint (bp_config p))"
    and "sys_procs s pid = Some p" and "listening (bp_stage p)" and "bp_owner p \<noteq> OwnerExiting"
  shows "host_entries (sys_host s) (cfg_endpoint (bp_config p)) = Some (SocketFile 0x180 pid)
    \<and> (\<exists>parent. path_parent (cfg_endpoint (bp_config p)) = Some parent
         \<and> host_entries (sys_host s) parent = Some (Directory 0x1C0))"
proof -
  have "host_ok configs False L (sys_host s) pid p" using reach_ok [OF assms(1,2)] assms(4) by (simp add: system_ok_def)
  then have "endpoint_ok (sys_host s) pid p" using assms(3) by (simp add: host_ok_def guarded_endpoint_def)
  moreover have "dir_ready (bp_stage p)" using assms(5) by (auto simp: stage_defs)
  ultimately show ?thesis using assms(5,6) by (simp add: endpoint_ok_def endpoint_dir_def)
qed

end

section \<open>The brokers of the program\<close>

interpretation brokers: leased_engines "program_load N M F" "program_embed N M F"
  "lease_backed (loaded_ops M F) (\<lambda>_. True)" "broker_is_accelerated (loaded_ops M F)"
proof unfold_locales
  show "lease_backed (loaded_ops M F) (\<lambda>_. True) b \<and> (be_accelerator_lease b \<longrightarrow> lease)"
    if "program_load N M F c lease (Inr b)" for c lease b
  proof -
    from that obtain lwp w w' where "load_with (loaded_ops M F) (model_loader lwp) lease w = (w', Inr b)"
      unfolding program_load_def by (blast dest: broker_load_engine)
    then show ?thesis by (rule loaded.load_with_leased)
  qed
  show "lease_backed (loaded_ops M F) (\<lambda>_. True) b' \<and> (be_accelerator_lease b' \<longrightarrow> be_accelerator_lease b)"
    if "lease_backed (loaded_ops M F) (\<lambda>_. True) b" and "program_embed N M F b b'" for b b'
    using that(2) loaded.embed_leased [OF that(1)] by (auto simp: program_embed_def)
  show "be_accelerator_lease b"
    if "lease_backed (loaded_ops M F) (\<lambda>_. True) b" and "broker_is_accelerated (loaded_ops M F) b" for b
    using that by (simp add: lease_backed_def)
qed


section \<open>A start that nothing hinders\<close>

text \<open>The main thread left to itself, the operating system and the loader answering as they will each time.\<close>

primrec main_run ::
  "(nat \<Rightarrow> host_os) \<Rightarrow> (nat \<Rightarrow> bool \<Rightarrow> (io_error, ('e, 'l) broker_engine_state) result) \<Rightarrow> pid \<Rightarrow> nat
     \<Rightarrow> host \<times> ('e, 'l) broker_process \<Rightarrow> host \<times> ('e, 'l) broker_process" where
  "main_run os load pid 0 hp = hp"
| "main_run os load pid (Suc n) hp = main_advance (os n) (load n) pid (main_run os load pid n hp)"

lemma main_advance_config: "bp_config (snd (main_advance os load pid hp)) = bp_config (snd hp)"
  by (cases "bp_stage (snd hp)")
    (auto simp: main_advance_def or_exit_def leave_def terminate_def set_engine_def Let_def split: prod.splits sum.splits)

lemma main_run_config: "bp_config (snd (main_run os load pid n (h, process_new c))) = c"
  by (induction n) (simp_all add: main_advance_config process_new_def)

definition no_refusal :: "host_os \<Rightarrow> bool" where
  "no_refusal os \<longleftrightarrow>
     ho_create_dir os = (\<lambda>_. None) \<and> ho_set_permissions os = (\<lambda>_. None) \<and> ho_open os = (\<lambda>_. None) \<and> ho_lock os = (\<lambda>_. None)
     \<and> ho_remove os = (\<lambda>_. None) \<and> ho_bind os = (\<lambda>_. None) \<and> ho_spawn os = (\<lambda>_. None)"

text \<open>The directories above the three names of a configuration.\<close>

definition config_names :: "broker_config \<Rightarrow> path set" where
  "config_names c = {cfg_endpoint c, cfg_service_lock c, cfg_accelerator_lock c}"

definition dirs_above :: "path \<Rightarrow> path set" where
  "dirs_above p = (case path_parent p of None \<Rightarrow> {} | Some d \<Rightarrow> set (d # ancestors d))"

definition dir_or_free :: "host \<Rightarrow> path \<Rightarrow> bool" where
  "dir_or_free h a = (case host_entries h a of None \<Rightarrow> True | Some e \<Rightarrow> is_directory e)"

text \<open>
  Nothing is in the way of a start: the names are apart, the endpoint is absolute, above the names
  there are only directories, and none of the names is a directory or, for a lock, a socket.
\<close>

definition start_clear :: "broker_config \<Rightarrow> host \<Rightarrow> bool" where
  "start_clear c h \<longleftrightarrow>
     path_absolute (cfg_endpoint c) \<and> cfg_endpoint c \<notin> {cfg_service_lock c, cfg_accelerator_lock c}
     \<and> (\<forall>p\<in>config_names c. (\<exists>d. path_parent p = Some d \<and> path_components d \<noteq> [])
          \<and> dirs_above p \<inter> config_names c = {} \<and> (\<forall>a\<in>dirs_above p. dir_or_free h a))
     \<and> (\<forall>p\<in>{cfg_service_lock c, cfg_accelerator_lock c}. host_entries h p = None \<or> (\<exists>m. host_entries h p = Some (PlainFile m)))
     \<and> (\<forall>e. host_entries h (cfg_endpoint c) = Some e \<longrightarrow> \<not> is_directory e)"

definition dirs_of :: "broker_config \<Rightarrow> path set" where
  "dirs_of c = (\<Union>p\<in>config_names c. dirs_above p)"

text \<open>A host that differs only in new directories above the names is as clear.\<close>

lemma start_clear_dirs:
  assumes "start_clear c h" and "\<And>x. x \<notin> dirs_of c \<Longrightarrow> host_entries h' x = host_entries h x"
    and "\<And>x. x \<in> dirs_of c \<Longrightarrow> dir_or_free h' x"
  shows "start_clear c h'"
proof -
  have n: "p \<notin> dirs_of c" if "p \<in> config_names c" for p
    using assms(1) that by (auto simp: start_clear_def dirs_of_def)
  have "host_entries h' p = host_entries h p" if "p \<in> config_names c" for p using assms(2) n that by blast
  moreover have "dir_or_free h' a" if "p \<in> config_names c" "a \<in> dirs_above p" for a p
    using assms(3) that by (auto simp: dirs_of_def)
  ultimately show ?thesis using assms(1) by (simp add: start_clear_def config_names_def)
qed

lemma last_ancestor: "path_components d \<noteq> [] \<Longrightarrow> d \<in> set (ancestors d)"
  by (auto simp: ancestors_def image_iff Suc_le_eq intro!: bexI [of _ "length (path_components d)"])

lemma directory_made:
  assumes os: "no_refusal os" and clear: "start_clear c h" and p: "p \<in> config_names c" and d: "path_parent p = Some d"
  obtains h1 h2 where "create_dir_all os d h = (h1, Inr ())" and "set_permissions os d 0x1C0 h1 = (h2, Inr ())"
    and "start_clear c h2" and "host_locks h2 = host_locks h" and "host_entries h2 d = Some (Directory 0x1C0)"
    and "\<And>x. x \<notin> dirs_of c \<Longrightarrow> host_entries h2 x = host_entries h x"
proof -
  have free: "dir_or_free h a" and indirs: "a \<in> dirs_of c" if "a \<in> set (d # ancestors d)" for a
  proof -
    have "a \<in> dirs_above p" using d that by (simp add: dirs_above_def)
    with clear p show "dir_or_free h a" "a \<in> dirs_of c" by (auto simp: start_clear_def dirs_of_def)
  qed
  have comps: "path_components d \<noteq> []" using clear p d by (auto simp: start_clear_def)
  define h1 where "h1 = h\<lparr>host_entries := make_dirs (ho_dir_mode os) (ancestors d) (host_entries h)\<rparr>"
  have c: "create_dir_all os d h = (h1, Inr ())"
    using os free by (simp add: create_dir_all_def no_refusal_def h1_def list_all_iff dir_or_free_def)
  obtain m where m: "host_entries h1 d = Some (Directory m)"
  proof (cases "host_entries h d")
    case None
    with last_ancestor [OF comps] that show thesis by (simp add: h1_def make_dirs_def)
  next
    case (Some e)
    then have "is_directory e" using free [of d] by (simp add: dir_or_free_def)
    with Some that show thesis by (cases e) (auto simp: h1_def make_dirs_def is_directory_def)
  qed
  define h2 where "h2 = h1\<lparr>host_entries := (host_entries h1)(d \<mapsto> Directory 0x1C0)\<rparr>"
  have s: "set_permissions os d 0x1C0 h1 = (h2, Inr ())"
    using os m by (simp add: set_permissions_def no_refusal_def h2_def with_mode_def)
  have out: "host_entries h2 x = host_entries h x" if "x \<notin> dirs_of c" for x
    using that indirs by (auto simp: h2_def h1_def make_dirs_def)
  have "dir_or_free h x" if "x \<in> dirs_of c" for x using clear that by (auto simp: start_clear_def dirs_of_def)
  then have "dir_or_free h2 x" if "x \<in> dirs_of c" for x
    using that by (auto simp: h2_def h1_def make_dirs_def dir_or_free_def is_directory_def)
  with start_clear_dirs [OF clear out] have "start_clear c h2" by blast
  then show thesis by (rule that [OF c s _ _ _ out]) (simp_all add: h2_def h1_def)
qed

lemma lock_taken:
  assumes os: "no_refusal os" and clear: "start_clear c h" and p: "p \<in> {cfg_service_lock c, cfg_accelerator_lock c}"
  obtains h' where "try_acquire os pid p h = (h', Inr (host_locks h p = None))" and "start_clear c h'"
    and "host_locks h' = (if host_locks h p = None then (host_locks h)(p \<mapsto> pid) else host_locks h)"
    and "host_entries h' (cfg_endpoint c) = host_entries h (cfg_endpoint c)"
proof -
  have pn: "p \<in> config_names c" using p by (auto simp: config_names_def)
  then obtain d where d: "path_parent p = Some d" using clear by (auto simp: start_clear_def)
  obtain h1 h2 where 1: "create_dir_all os d h = (h1, Inr ())" "set_permissions os d 0x1C0 h1 = (h2, Inr ())"
    "start_clear c h2" "host_locks h2 = host_locks h" "\<And>x. x \<notin> dirs_of c \<Longrightarrow> host_entries h2 x = host_entries h x"
    by (rule directory_made [OF os clear pn d]) blast
  have sec: "secure_parent os p h = (h2, Inr ())" using d 1(1,2) by (simp add: secure_parent_def)
  have ep: "cfg_endpoint c \<notin> dirs_of c" "cfg_endpoint c \<noteq> p" using clear p by (auto simp: start_clear_def dirs_of_def config_names_def)
  have np: "p \<notin> dirs_of c" using clear pn by (auto simp: start_clear_def dirs_of_def)
  have plain: "host_entries h2 p = None \<or> (\<exists>m. host_entries h2 p = Some (PlainFile m))" using 1(3) p by (auto simp: start_clear_def)
  define h3 where "h3 = (if host_entries h2 p = None then h2\<lparr>host_entries := (host_entries h2)(p \<mapsto> PlainFile (ho_file_mode os))\<rparr> else h2)"
  have op: "open_lock_file os p h2 = (h3, Inr ())"
    using os plain by (auto simp: open_lock_file_def no_refusal_def h3_def)
  have clear3: "start_clear c h3"
  proof -
    have "dir_or_free h3 a" if "q \<in> config_names c" "a \<in> dirs_above q" for a q
      using 1(3) np that by (auto simp: h3_def start_clear_def dirs_of_def dir_or_free_def)
    moreover have "host_entries h3 q = None \<or> (\<exists>m. host_entries h3 q = Some (PlainFile m))"
      if "q \<in> {cfg_service_lock c, cfg_accelerator_lock c}" for q
      using 1(3) that by (auto simp: h3_def start_clear_def)
    moreover have "host_entries h3 (cfg_endpoint c) = host_entries h2 (cfg_endpoint c)" using ep(2) by (simp add: h3_def)
    ultimately show ?thesis using 1(3) by (simp add: start_clear_def)
  qed
  then have "start_clear c (h3\<lparr>host_locks := l\<rparr>)" for l by (simp add: start_clear_def dir_or_free_def)
  moreover have "try_lock os pid p h3 = ((if host_locks h p = None then h3\<lparr>host_locks := (host_locks h)(p \<mapsto> pid)\<rparr> else h3), Inr (host_locks h p = None))"
    using os 1(4) by (auto simp: try_lock_def no_refusal_def h3_def split: option.split)
  ultimately show thesis using that [of "if host_locks h p = None then h3\<lparr>host_locks := (host_locks h)(p \<mapsto> pid)\<rparr> else h3"]
      sec op 1(4,5) ep clear3 by (simp add: try_acquire_def h3_def split: if_splits)
qed

lemma endpoint_bound_private:
  assumes os: "no_refusal os" "no_refusal os1" "no_refusal os2" and clear: "start_clear c h"
  obtains h1 h2 h3 where "bind_prepare os (cfg_endpoint c) h = (h1, Inr ())" and "bind_socket os1 pid (cfg_endpoint c) h1 = (h2, Inr ())"
    and "bind_restrict os2 (cfg_endpoint c) h2 = (h3, True, Inr ())"
    and "host_entries h3 (cfg_endpoint c) = Some (SocketFile 0x180 pid)" and "endpoint_dir h3 (cfg_endpoint c)"
    and "\<And>x. x \<noteq> cfg_endpoint c \<Longrightarrow> host_locks h3 x = host_locks h x"
proof -
  let ?ep = "cfg_endpoint c"
  have pn: "?ep \<in> config_names c" and abs: "path_absolute ?ep" using clear by (auto simp: config_names_def start_clear_def)
  then obtain d where d: "path_parent ?ep = Some d" using clear by (auto simp: start_clear_def)
  have dep: "d \<noteq> ?ep" using d path_parent_neq by blast
  obtain h1 h2 where 1: "create_dir_all os d h = (h1, Inr ())" "set_permissions os d 0x1C0 h1 = (h2, Inr ())"
    "start_clear c h2" "host_locks h2 = host_locks h" "host_entries h2 d = Some (Directory 0x1C0)"
    by (rule directory_made [OF os(1) clear pn d]) blast
  obtain r h3 where rm: "remove_file os ?ep h2 = (h3, r)" "r = RemoveNotFound \<or> r = Removed" "host_entries h3 ?ep = None"
    using 1(3) os(1) by (cases "host_entries h2 ?ep") (auto simp: remove_file_def no_refusal_def start_clear_def)
  note c = remove_file_change [OF rm(1)]
  have b1: "bind_prepare os ?ep h = (h3, Inr ())" using abs d 1(1,2) rm(1,2) by (auto simp: bind_prepare_def)
  define h4 where "h4 = h3\<lparr>host_entries := (host_entries h3)(?ep \<mapsto> SocketFile (ho_file_mode os1) pid)\<rparr>"
  have b2: "bind_socket os1 pid ?ep h3 = (h4, Inr ())" using os(2) rm(3) by (simp add: bind_socket_def no_refusal_def h4_def)
  define h5 where "h5 = h4\<lparr>host_entries := (host_entries h4)(?ep \<mapsto> SocketFile 0x180 pid)\<rparr>"
  have b3: "bind_restrict os2 ?ep h4 = (h5, True, Inr ())"
    using os(3) by (simp add: bind_restrict_def set_permissions_def no_refusal_def h5_def h4_def with_mode_def)
  have "endpoint_dir h5 ?ep" using d dep 1(5) c(3) [OF dep] by (simp add: endpoint_dir_def h5_def h4_def)
  moreover have "host_locks h5 x = host_locks h x" if "x \<noteq> ?ep" for x using c(2) [OF that] 1(4) by (simp add: h5_def h4_def)
  ultimately show thesis using that [OF b1 b2 b3] by (simp add: h5_def)
qed

lemma main_run_step:
  "main_run os load pid n hp = hp' \<Longrightarrow> m = Suc n \<Longrightarrow> main_run os load pid m hp = main_advance (os n) (load n) pid hp'"
  by simp

lemma start_serves:
  assumes os: "\<And>n. no_refusal (os n)" and clear: "start_clear c h" and free: "host_locks h (cfg_service_lock c) = None"
    and lease: "lease = (host_locks h (cfg_accelerator_lock c) = None \<and> cfg_accelerator_lock c \<noteq> cfg_service_lock c)"
    and load: "load 3 lease = Inr b" and backed: "be_accelerator_lease b \<longrightarrow> lease"
  shows "\<exists>h'. main_run os load pid 9 (h, process_new c)
        = (h', \<lparr>bp_config = c, bp_stage = Serving, bp_accel = be_accelerator_lease b, bp_engine = Some b, bp_bound = True, bp_owner = OwnerReading\<rparr>)
     \<and> host_locks h' (cfg_service_lock c) = Some pid
     \<and> (cfg_accelerator_lock c \<noteq> cfg_service_lock c \<longrightarrow>
          host_locks h' (cfg_accelerator_lock c) = (if be_accelerator_lease b then Some pid else host_locks h (cfg_accelerator_lock c)))
     \<and> host_entries h' (cfg_endpoint c) = Some (SocketFile 0x180 pid) \<and> endpoint_dir h' (cfg_endpoint c)"
proof -
  let ?sl = "cfg_service_lock c" and ?al = "cfg_accelerator_lock c" and ?ep = "cfg_endpoint c"
  let ?r = "\<lambda>n. main_run os load pid n (h, process_new c)"
  let ?p = "\<lambda>s accel e bound w. \<lparr>bp_config = c, bp_stage = s, bp_accel = accel, bp_engine = e, bp_bound = bound, bp_owner = w\<rparr>"
  obtain h1 where 1: "try_acquire (os 0) pid ?sl h = (h1, Inr True)" "start_clear c h1" "host_locks h1 = (host_locks h)(?sl \<mapsto> pid)"
    by (rule lock_taken [OF os [of 0] clear, where p = ?sl and pid = pid]) (simp, simp add: free that)
  have r1: "?r 1 = (h1, ?p Leased False None False OwnerUnstarted)"
    using 1(1) by (simp add: main_advance_def process_new_def)
  have spawns: "spawn (os n) name g = (g, Inr ())" for n name g using os [of n] by (simp add: spawn_def no_refusal_def)
  have r2: "?r 2 = (h1, ?p Watched False None False OwnerReading)"
    by (subst main_run_step [OF r1]) (simp_all add: main_advance_def spawns)
  obtain h2 where 2: "try_acquire (os 2) pid ?al h1 = (h2, Inr lease)" "start_clear c h2"
    "host_locks h2 = (if lease then (host_locks h1)(?al \<mapsto> pid) else host_locks h1)"
  proof (rule lock_taken [OF os 1(2), where p = ?al and pid = pid])
    have l: "(host_locks h1 ?al = None) = lease" using lease 1(3) by auto
    fix h' assume "try_acquire (os 2) pid ?al h1 = (h', Inr (host_locks h1 ?al = None))" "start_clear c h'"
      "host_locks h' = (if host_locks h1 ?al = None then (host_locks h1)(?al \<mapsto> pid) else host_locks h1)"
    with l that show thesis by simp
  qed simp
  have r3: "?r 3 = (h2, ?p Elected lease None False OwnerReading)"
    by (subst main_run_step [OF r2]) (simp_all add: main_advance_def 2(1))
  define h3 where "h3 = fst (set_engine pid b (h2, ?p EngineReady lease None False OwnerReading))"
  have r4: "?r 4 = (h3, ?p EngineReady (be_accelerator_lease b) (Some b) False OwnerReading)"
    by (subst main_run_step [OF r3]) (simp_all add: main_advance_def h3_def set_engine_def load)
  have h3: "host_entries h3 = host_entries h2" by (simp add: h3_def set_engine_def release_def)
  have l3: "host_locks h3 ?sl = Some pid"
    "?al \<noteq> ?sl \<Longrightarrow> host_locks h3 ?al = (if be_accelerator_lease b then Some pid else host_locks h ?al)"
    using 1(3) 2(3) lease backed by (auto simp: h3_def set_engine_def release_def)
  have "start_clear c h3" using 2(2) h3 by (simp add: start_clear_def dir_or_free_def)
  from endpoint_bound_private [OF os os os this, where pid = pid] obtain h4 h5 h6 where
    b: "bind_prepare (os 4) ?ep h3 = (h4, Inr ())" "bind_socket (os 5) pid ?ep h4 = (h5, Inr ())"
    "bind_restrict (os 7) ?ep h5 = (h6, True, Inr ())" "host_entries h6 ?ep = Some (SocketFile 0x180 pid)" "endpoint_dir h6 ?ep"
    "\<And>x. x \<noteq> ?ep \<Longrightarrow> host_locks h6 x = host_locks h3 x"
    by metis
  have r5: "?r 5 = (h4, ?p Cleared (be_accelerator_lease b) (Some b) False OwnerReading)"
    by (subst main_run_step [OF r4]) (simp_all add: main_advance_def or_exit_def b(1))
  have r6: "?r 6 = (h5, ?p Unpublished (be_accelerator_lease b) (Some b) False OwnerReading)"
    by (subst main_run_step [OF r5]) (simp_all add: main_advance_def or_exit_def b(2))
  have r7: "?r 7 = (h5, ?p Published (be_accelerator_lease b) (Some b) True OwnerReading)"
    by (subst main_run_step [OF r6]) (simp_all add: main_advance_def)
  have r8: "?r 8 = (h6, ?p Accepting (be_accelerator_lease b) (Some b) True OwnerReading)"
    by (subst main_run_step [OF r7]) (simp_all add: main_advance_def or_exit_def b(3))
  have r9: "?r 9 = (h6, ?p Serving (be_accelerator_lease b) (Some b) True OwnerReading)"
    by (subst main_run_step [OF r8]) (simp_all add: main_advance_def or_exit_def spawns)
  have "?sl \<noteq> ?ep" "?al \<noteq> ?ep" using clear by (auto simp: start_clear_def)
  with r9 l3 b(4-6) show ?thesis by simp
qed

lemma start_yields:
  assumes os: "\<And>n. no_refusal (os n)" and clear: "start_clear c h" and held: "host_locks h (cfg_service_lock c) \<noteq> None"
    and new: "pid \<notin> ran (host_locks h)"
  shows "\<exists>h' p. main_run os load pid 2 (h, process_new c) = (h', p) \<and> bp_stage p = Gone 0
     \<and> host_locks h' = host_locks h \<and> host_entries h' (cfg_endpoint c) = host_entries h (cfg_endpoint c)"
proof -
  have rel: "release_all pid g = g" if "host_locks g = host_locks h" for g
    using new that by (auto simp: release_all_def ran_def fun_eq_iff)
  obtain h1 where 1: "try_acquire (os 0) pid (cfg_service_lock c) h = (h1, Inr False)" "host_locks h1 = host_locks h"
    "host_entries h1 (cfg_endpoint c) = host_entries h (cfg_endpoint c)"
    by (rule lock_taken [OF os [of 0] clear, where p = "cfg_service_lock c" and pid = pid]) (simp, use held that in simp)
  have "main_run os load pid 1 (h, process_new c)
      = (h1, \<lparr>bp_config = c, bp_stage = Returning 0, bp_accel = False, bp_engine = None, bp_bound = False, bp_owner = OwnerUnstarted\<rparr>)"
    using 1(1) rel [OF 1(2)] by (simp add: main_advance_def process_new_def leave_def)
  from main_run_step [OF this, of 2] 1(2,3) rel [OF 1(2)] show ?thesis
    by (simp add: main_advance_def terminate_def)
qed


section \<open>An example host\<close>

text \<open>A start that reads an accelerated verdict from the store and loads its engine under the lease.\<close>

definition gpu_serve :: serve_env where
  "gpu_serve = sample_serve\<lparr>se_load := (se_load sample_serve)\<lparr>env_forced := None, env_store_codec := full_codec\<rparr>\<rparr>"

definition gpu_cache :: directory where
  "gpu_cache = [pin_file bge_pin \<mapsto> ''w'']"

abbreviation gpu_answer :: "bool \<Rightarrow> (io_error, (context_params list loaded_engine, cache_file \<times> context_params list) broker_engine_state) result" where
  "gpu_answer lease \<equiv>
     snd (snd (broker_load gpu_serve gpu_native toy_llama toy_ops (pin_id bge_pin) lease gpu_cache (Some [], [])))"

lemma gpu_prepared: "model_prepared (serving_env gpu_serve sample_cache gpu_cache) bge_pin sample_cache"
  by (simp add: model_prepared_def serving_env_model serving_env_sha gpu_serve_def sample_serve_def cleaned_def
      clean_stale_partials_def gpu_cache_def hex_bge_digest)

lemma gpu_loaded:
  "\<exists>e. load_with_policy (serving_env gpu_serve sample_cache gpu_cache) gpu_native toy_llama toy_ops bge_pin sample_cache
      (Some [], []) Auto = ((Some [], []), Inr (e, [])) \<and> sel_accelerated (le_selection e)"
proof -
  let ?env = "serving_env gpu_serve sample_cache gpu_cache"
  have env: "env_forced ?env = None" "env_store_codec ?env = full_codec" "env_feature ?env = (\<lambda>_. False)"
    "env_exe ?env = Inr \<lparr>path_absolute = True, path_components = [''sidecar'']\<rparr>"
    by (simp_all add: serving_env_def gpu_serve_def sample_serve_def sample_env_def)
  obtain e where "load_selected ?env gpu_native toy_llama toy_ops bge_pin (path_join sample_cache (pin_file bge_pin)) None (Some [], [])
      = ((Some [], []), Inr e)" "sel_accelerated (le_selection e)"
    using gpu_load_selected [OF env(2-4), of toy_ops] by blast
  then show ?thesis unfolding load_with_policy_prepared [OF gpu_prepared]
    by (simp add: load_guarded_def env(1) forced_backend_def)
qed

lemma gpu_answered: "\<exists>b. gpu_answer True = Inr b \<and> broker_is_accelerated (loaded_ops toy_llama toy_ops) b"
proof -
  obtain e where e: "load_with_policy (serving_env gpu_serve sample_cache gpu_cache) gpu_native toy_llama toy_ops bge_pin
      sample_cache (Some [], []) Auto = ((Some [], []), Inr (e, []))" "sel_accelerated (le_selection e)"
    using gpu_loaded by blast
  have dir: "cache_dir (se_cache_var gpu_serve) (se_home gpu_serve) = Inr sample_cache"
    using sample_serve_dir by (simp add: gpu_serve_def)
  show ?thesis
    by (simp add: broker_load_def bge_by_id dir load_with_def model_loader_def e loaded_ops_def loaded_is_accelerated_def
        llama_is_accelerated_def broker_is_accelerated_def)
qed

text \<open>Broker processes on an empty host where every call succeeds.\<close>

definition quiet_host :: host_os where
  "quiet_host =
     \<lparr>ho_create_dir = (\<lambda>_. None), ho_set_permissions = (\<lambda>_. None), ho_open = (\<lambda>_. None), ho_lock = (\<lambda>_. None),
      ho_remove = (\<lambda>_. None), ho_bind = (\<lambda>_. None), ho_spawn = (\<lambda>_. None), ho_dir_mode = 0x1ED, ho_file_mode = 0x1A4\<rparr>"

lemma quiet: "no_refusal quiet_host"
  by (simp add: no_refusal_def quiet_host_def)

definition tmp_path :: "string \<Rightarrow> path" where
  "tmp_path n = \<lparr>path_absolute = True, path_components = [''r'', n]\<rparr>"

definition tmp_dir :: path where
  "tmp_dir = \<lparr>path_absolute = True, path_components = [''r'']\<rparr>"

definition config_at :: "string \<Rightarrow> string \<Rightarrow> string \<Rightarrow> broker_config" where
  "config_at e s a =
     \<lparr>cfg_model_id = pin_id bge_pin, cfg_endpoint = tmp_path e, cfg_service_lock = tmp_path s, cfg_accelerator_lock = tmp_path a\<rparr>"

definition sample_config :: broker_config where
  "sample_config = config_at ''e'' ''s'' ''a''"

definition empty_host :: host where
  "empty_host = \<lparr>host_entries = Map.empty, host_locks = Map.empty\<rparr>"

lemma tmp_parent [simp]: "path_parent (tmp_path n) = Some tmp_dir" "tmp_path n \<noteq> tmp_dir" "tmp_dir \<noteq> tmp_path n"
  "path_absolute (tmp_path n)" "tmp_path n = tmp_path m \<longleftrightarrow> n = m" "ancestors tmp_dir = [tmp_dir]" "path_components tmp_dir = [''r'']"
  by (simp_all add: tmp_path_def tmp_dir_def path_parent_def ancestors_def)

lemma config_at_simps [simp]: "cfg_model_id (config_at e s a) = pin_id bge_pin" "cfg_endpoint (config_at e s a) = tmp_path e"
  "cfg_service_lock (config_at e s a) = tmp_path s" "cfg_accelerator_lock (config_at e s a) = tmp_path a"
  by (simp_all add: config_at_def)

lemma tmp_clear:
  assumes "dir_or_free h tmp_dir" and "e \<noteq> s" and "e \<noteq> a" and "\<And>d. host_entries h (tmp_path e) = Some d \<Longrightarrow> \<not> is_directory d"
    and "\<And>n. n \<in> {s, a} \<Longrightarrow> host_entries h (tmp_path n) = None \<or> (\<exists>m. host_entries h (tmp_path n) = Some (PlainFile m))"
  shows "start_clear (config_at e s a) h"
  using assms by (auto simp: start_clear_def config_names_def dirs_above_def)

lemma empty_clear: "start_clear sample_config empty_host"
  unfolding sample_config_def by (rule tmp_clear) (simp_all add: empty_host_def dir_or_free_def)

text \<open>A process started on a reachable host and run without disturbance leaves a reachable host.\<close>

lemma run_reach:
  assumes "host_reach configs faults Load Embed h0 s" and "sys_procs s pid = None" and c: "c \<in> configs"
    and os: "\<And>n. no_refusal (os n)" and load: "\<And>n lease. Load c lease (load n lease)"
  shows "host_reach configs faults Load Embed h0 (put pid (main_run os load pid n (sys_host s, process_new c)) s)"
proof (induction n)
  case 0
  from host_reach.step [OF assms(1) host_step.launch [OF assms(2) c]] show ?case by simp
next
  case (Suc n)
  let ?s = "put pid (main_run os load pid n (sys_host s, process_new c)) s"
  have p: "sys_procs ?s pid = Some (snd (main_run os load pid n (sys_host s, process_new c)))" by (simp add: put_def)
  have cfg: "bp_config (snd (main_run os load pid n (sys_host s, process_new c))) = c"
    by (rule main_run_config)
  have u: "faults \<or> untroubled (os n) q" for q :: "('a, 'b) broker_process"
    using os [of n] by (simp add: untroubled_def no_refusal_def)
  have "host_step configs faults Load Embed ?s (put pid (main_advance (os n) (load n) pid (sys_host ?s, snd (main_run os load pid n (sys_host s, process_new c)))) ?s)"
    by (rule host_step.advance [OF p _ u]) (simp add: cfg load)
  from host_reach.step [OF Suc this] show ?case by (simp add: put_def)
qed

abbreviation sample_run ::
  "nat \<Rightarrow> host \<times> (context_params list loaded_engine, cache_file \<times> context_params list) broker_process" where
  "sample_run n \<equiv> main_run (\<lambda>_. quiet_host) (\<lambda>_. gpu_answer) 7 n (empty_host, process_new sample_config)"

definition empty_system :: "(context_params list loaded_engine, cache_file \<times> context_params list) system" where
  "empty_system = \<lparr>sys_host = empty_host, sys_procs = Map.empty\<rparr>"

definition sample_system ::
  "nat \<Rightarrow> (context_params list loaded_engine, cache_file \<times> context_params list) system" where
  "sample_system n = put 7 (sample_run n) empty_system"

lemma sample_host_reach:
  "host_reach {sample_config} faults (program_load gpu_native toy_llama toy_ops) (program_embed gpu_native toy_llama toy_ops)
     empty_host (sample_system n)"
proof -
  have load: "program_load gpu_native toy_llama toy_ops sample_config lease (gpu_answer lease)" for lease
    unfolding program_load_def by (simp add: sample_config_def) (metis prod.collapse)
  have "host_reach {sample_config} faults (program_load gpu_native toy_llama toy_ops) (program_embed gpu_native toy_llama toy_ops)
      empty_host empty_system"
    unfolding empty_system_def by (rule host_reach.start)
  then have "host_reach {sample_config} faults (program_load gpu_native toy_llama toy_ops) (program_embed gpu_native toy_llama toy_ops)
      empty_host (put 7 (main_run (\<lambda>_. quiet_host) (\<lambda>_. gpu_answer) 7 n (sys_host empty_system, process_new sample_config)) empty_system)"
    by (rule run_reach) (simp_all add: load quiet empty_system_def)
  then show ?thesis by (simp add: sample_system_def empty_system_def)
qed

lemma sample_serves:
  "\<exists>b p. sys_procs (sample_system 9) 7 = Some p \<and> bp_stage p = Serving \<and> bp_engine p = Some b \<and> bp_owner p = OwnerReading
     \<and> bp_config p = sample_config \<and> broker_is_accelerated (loaded_ops toy_llama toy_ops) b"
proof -
  obtain b where b: "gpu_answer True = Inr b" "broker_is_accelerated (loaded_ops toy_llama toy_ops) b"
    using gpu_answered by blast
  have free: "host_locks empty_host p = None" for p by (simp add: empty_host_def)
  have "True = (host_locks empty_host (cfg_accelerator_lock sample_config) = None
      \<and> cfg_accelerator_lock sample_config \<noteq> cfg_service_lock sample_config)"
    by (simp add: free sample_config_def)
  from start_serves [OF quiet empty_clear free this, where load = "\<lambda>_. gpu_answer" and b = b and pid = 7] b
  show ?thesis by (auto simp: sample_system_def put_def)
qed

lemma gpu_leased:
  "\<exists>b. gpu_answer True = Inr b \<and> broker_is_accelerated (loaded_ops toy_llama toy_ops) b \<and> be_accelerator_lease b"
proof -
  obtain b where b: "gpu_answer True = Inr b" "broker_is_accelerated (loaded_ops toy_llama toy_ops) b"
    using gpu_answered by blast
  have "program_load gpu_native toy_llama toy_ops sample_config True (Inr b)"
    unfolding program_load_def using b(1) by (simp add: sample_config_def) (metis prod.collapse)
  from brokers.load_ok [OF this] b show ?thesis by (auto simp: lease_backed_def)
qed

section \<open>Why the conditions are needed\<close>

text \<open>
  \<open>bind\<close> removes whatever file has the name of the endpoint. When that is the lock file itself, the
  name is free again while the first broker still holds its lease, and a second broker passes.
\<close>

lemmas start_simps = main_advance_def try_acquire_def secure_parent_def create_dir_all_def set_permissions_def open_lock_file_def
  try_lock_def remove_file_def bind_prepare_def bind_socket_def bind_restrict_def quiet_host_def process_new_def make_dirs_def
  is_directory_def with_mode_def or_exit_def spawn_def set_engine_def release_def

lemma main_run_5:
  "main_run os load pid 5 hp = main_advance (os 4) (load 4) pid (main_advance (os 3) (load 3) pid (main_advance (os 2) (load 2) pid
     (main_advance (os 1) (load 1) pid (main_advance (os 0) (load 0) pid hp))))"
  by (simp add: eval_nat_numeral)

lemma lock_as_endpoint_run:
  "\<exists>h p. main_run (\<lambda>_. quiet_host) (\<lambda>_ _. Inr b) 7 5 (empty_host, process_new (config_at ''s'' ''s'' ''a'')) = (h, p)
     \<and> bp_stage p = Cleared \<and> host_locks h (tmp_path ''s'') = None \<and> host_entries h (tmp_path ''s'') = None
     \<and> host_entries h tmp_dir = Some (Directory 0x1C0)"
  unfolding main_run_5 by (cases "be_accelerator_lease b") (simp_all add: start_simps empty_host_def Let_def)

lemma quiet_run_reach:
  assumes "host_reach configs faults Load Embed h0 s" and "sys_procs s pid = None" and "c \<in> configs"
    and "\<And>lease. Load c lease (Inr b)" and "main_run (\<lambda>_. quiet_host) (\<lambda>_ _. Inr b) pid n (sys_host s, process_new c) = hp"
  shows "host_reach configs faults Load Embed h0 (put pid hp s)"
  using run_reach [where os = "\<lambda>_. quiet_host" and load = "\<lambda>_ _. Inr b", OF assms(1-3) quiet assms(4), of n] assms(5) by simp

lemma lock_as_endpoint_passed:
  assumes load: "\<And>lease. Load (config_at ''s'' ''s'' ''a'') lease (Inr b)"
  shows "\<exists>s p p'. host_reach {config_at ''s'' ''s'' ''a''} faults Load Embed empty_host s
     \<and> sys_procs s 7 = Some p \<and> holds_service (bp_stage p) \<and> sys_procs s 8 = Some p' \<and> holds_service (bp_stage p')
     \<and> cfg_service_lock (bp_config p) = cfg_service_lock (bp_config p')"
proof -
  let ?c = "config_at ''s'' ''s'' ''a''"
  obtain h p where r: "main_run (\<lambda>_. quiet_host) (\<lambda>_ _. Inr b) 7 5 (empty_host, process_new ?c) = (h, p)" "bp_stage p = Cleared"
    "host_locks h (tmp_path ''s'') = None" "host_entries h (tmp_path ''s'') = None" "host_entries h tmp_dir = Some (Directory 0x1C0)"
    using lock_as_endpoint_run by blast
  define s1 where "s1 = put 7 (h, p) \<lparr>sys_host = empty_host, sys_procs = Map.empty\<rparr>"
  have r1: "host_reach {?c} faults Load Embed empty_host s1"
    unfolding s1_def by (rule quiet_run_reach [OF host_reach.start, where b = b and n = 5]) (simp, simp, rule load, use r(1) in simp)
  have s1: "sys_host s1 = h" "sys_procs s1 = [7 \<mapsto> p]" by (simp_all add: s1_def put_def)
  have "main_run (\<lambda>_. quiet_host) (\<lambda>_ _. Inr b) 8 1 (h, process_new ?c)
      = (h\<lparr>host_entries := (host_entries h)(tmp_path ''s'' \<mapsto> PlainFile 0x1A4), host_locks := (host_locks h)(tmp_path ''s'' \<mapsto> 8)\<rparr>,
         (process_new ?c)\<lparr>bp_stage := Leased\<rparr>)" (is "_ = ?r")
    using r(3-5) by (simp add: start_simps) (auto simp: fun_eq_iff)
  then have "host_reach {?c} faults Load Embed empty_host (put 8 ?r s1)"
    by (intro quiet_run_reach [OF r1, where b = b and n = 1]) (simp add: s1, simp, rule load, simp add: s1)
  moreover have "bp_config p = ?c" using main_run_config [of "\<lambda>_. quiet_host" "\<lambda>_ _. Inr b" 7 5 empty_host ?c] r(1) by simp
  ultimately show ?thesis using r(2) s1(2)
    by (intro exI [where x = "put 8 ?r s1"]) (simp add: put_def holds_service_def process_new_def)
qed

text \<open>
  A start that fails after its socket is bound leaves its leases while its owner watchdog is armed and
  \<open>endpoint_bound\<close> is set. The next broker binds the same endpoint and serves, and the end of the
  first owner still unlinks it.
\<close>

lemma main_run_8:
  "main_run os load pid 8 hp = main_advance (os 7) (load 7) pid (main_advance (os 6) (load 6) pid (main_advance (os 5) (load 5) pid
     (main_run os load pid 5 hp)))"
  by (simp add: eval_nat_numeral)

lemma bound_run:
  "\<exists>h. main_run (\<lambda>_. quiet_host) (\<lambda>_ _. Inr b) 7 8 (empty_host, process_new sample_config)
       = (h, \<lparr>bp_config = sample_config, bp_stage = Accepting, bp_accel = be_accelerator_lease b, bp_engine = Some b, bp_bound = True, bp_owner = OwnerReading\<rparr>)
     \<and> host_entries h (tmp_path ''e'') = Some (SocketFile 0x180 7) \<and> host_entries h (tmp_path ''s'') = Some (PlainFile 0x1A4)
     \<and> host_entries h (tmp_path ''a'') = Some (PlainFile 0x1A4) \<and> host_entries h tmp_dir = Some (Directory 0x1C0)
     \<and> release_all 7 h = h\<lparr>host_locks := Map.empty\<rparr>
     \<and> (\<forall>n\<in>{''t'', ''u''}. host_entries h (tmp_path n) = None \<and> host_locks h (tmp_path n) = None)"
  unfolding main_run_8 main_run_5 sample_config_def
  by (cases "be_accelerator_lease b") (simp_all add: start_simps empty_host_def Let_def release_all_def fun_eq_iff)

lemma owner_end:
  assumes "host_reach configs faults Load Embed h0 s" and "sys_procs s pid = Some p" and "alive (bp_stage p)"
    and "bp_owner p = OwnerReading" and "bp_bound p"
  shows "\<exists>s'. host_reach configs faults Load Embed h0 s'
    \<and> sys_host s' = fst (remove_file os (cfg_endpoint (bp_config p)) (sys_host s)) \<and> (\<forall>q. q \<noteq> pid \<longrightarrow> sys_procs s' q = sys_procs s q)"
proof -
  let ?p1 = "p\<lparr>bp_owner := OwnerEnded\<rparr>" and ?p2 = "p\<lparr>bp_owner := OwnerUnlinking\<rparr>" and ?p3 = "p\<lparr>bp_owner := OwnerExiting\<rparr>"
  let ?h = "fst (remove_file os (cfg_endpoint (bp_config p)) (sys_host s))"
  have "host_step configs faults Load Embed s (put pid (owner_watchdog os pid OwnerEof (sys_host s, p)) s)"
    using assms(2,3) by (rule host_step.owner)
  with assms(1,4) have 1: "host_reach configs faults Load Embed h0 (put pid (sys_host s, ?p1) s)"
    by (auto simp: owner_watchdog_def intro: host_reach.step)
  have p1: "sys_procs (put pid (sys_host s, ?p1) s) pid = Some ?p1" "alive (bp_stage ?p1)" using assms(3) by (simp_all add: put_def)
  have 2: "host_reach configs faults Load Embed h0 (put pid (sys_host s, ?p2) s)"
    using host_reach.step [OF 1 host_step.owner [OF p1, of configs faults Load Embed os OwnerEof]] assms(5)
    by (simp add: owner_watchdog_def put_def)
  have p2: "sys_procs (put pid (sys_host s, ?p2) s) pid = Some ?p2" "alive (bp_stage ?p2)" using assms(3) by (simp_all add: put_def)
  have "host_reach configs faults Load Embed h0 (put pid (?h, ?p3) s)"
    using host_reach.step [OF 2 host_step.owner [OF p2, of configs faults Load Embed os OwnerEof]]
    by (simp add: owner_watchdog_def put_def)
  then show ?thesis by (intro exI [where x = "put pid (?h, ?p3) s"]) (simp add: put_def)
qed

lemma failed_start_unlinks_successor:
  assumes load: "\<And>lease. Load sample_config lease (Inr b)"
  shows "\<exists>s p. host_reach {sample_config} True Load Embed empty_host s \<and> sys_procs s 8 = Some p \<and> listening (bp_stage p)
     \<and> bp_owner p = OwnerReading \<and> bp_config p = sample_config \<and> host_entries (sys_host s) (cfg_endpoint sample_config) = None"
proof -
  let ?p = "\<lparr>bp_config = sample_config, bp_stage = Accepting, bp_accel = be_accelerator_lease b, bp_engine = Some b, bp_bound = True, bp_owner = OwnerReading\<rparr>"
  obtain h where r: "main_run (\<lambda>_. quiet_host) (\<lambda>_ _. Inr b) 7 8 (empty_host, process_new sample_config) = (h, ?p)"
    "host_entries h (tmp_path ''e'') = Some (SocketFile 0x180 7)" "host_entries h (tmp_path ''s'') = Some (PlainFile 0x1A4)"
    "host_entries h (tmp_path ''a'') = Some (PlainFile 0x1A4)" "host_entries h tmp_dir = Some (Directory 0x1C0)"
    "release_all 7 h = h\<lparr>host_locks := Map.empty\<rparr>"
    using bound_run by blast
  define s1 where "s1 = put 7 (h, ?p) \<lparr>sys_host = empty_host, sys_procs = Map.empty\<rparr>"
  have s1: "sys_host s1 = h" "sys_procs s1 = [7 \<mapsto> ?p]" by (simp_all add: s1_def put_def)
  have r1: "host_reach {sample_config} True Load Embed empty_host s1"
    unfolding s1_def by (rule quiet_run_reach [OF host_reach.start, where b = b and n = 8]) (simp, simp, rule load, use r(1) in simp)
  let ?os = "quiet_host\<lparr>ho_spawn := \<lambda>_. Some ''no thread''\<rparr>"
  let ?h = "h\<lparr>host_locks := Map.empty\<rparr>" and ?q = "?p\<lparr>bp_stage := Returning 1, bp_accel := False, bp_engine := None\<rparr>"
  have failed: "main_advance ?os (\<lambda>_. Inr b) 7 (h, ?p) = (?h, ?q)"
    by (simp add: main_advance_def spawn_def leave_def r(6))
  define s2 where "s2 = put 7 (?h, ?q) s1"
  have s2: "sys_host s2 = ?h" "sys_procs s2 = [7 \<mapsto> ?q]" by (simp_all add: s2_def put_def s1)
  have "host_step {sample_config} True Load Embed s1 (put 7 (main_advance ?os (\<lambda>_. Inr b) 7 (sys_host s1, ?p)) s1)"
    by (rule host_step.advance) (simp add: s1, simp, rule load, simp)
  with r1 have r2: "host_reach {sample_config} True Load Embed empty_host s2"
    by (metis host_reach.step s1(1) s2_def failed)
  have clear: "start_clear sample_config ?h"
    unfolding sample_config_def by (rule tmp_clear) (use r(2-5) in \<open>auto simp: dir_or_free_def is_directory_def\<close>)
  have t: "True = (host_locks ?h (cfg_accelerator_lock sample_config) = None \<and> cfg_accelerator_lock sample_config \<noteq> cfg_service_lock sample_config)"
    by (simp add: sample_config_def)
  obtain h3 where r3: "main_run (\<lambda>_. quiet_host) (\<lambda>_ _. Inr b) 8 9 (?h, process_new sample_config)
      = (h3, \<lparr>bp_config = sample_config, bp_stage = Serving, bp_accel = be_accelerator_lease b, bp_engine = Some b, bp_bound = True, bp_owner = OwnerReading\<rparr>)"
    "host_entries h3 (cfg_endpoint sample_config) = Some (SocketFile 0x180 8)"
    using start_serves [OF quiet clear _ t, where load = "\<lambda>_ _. Inr b" and b = b and pid = 8] by auto
  define s3 where "s3 = put 8 (main_run (\<lambda>_. quiet_host) (\<lambda>_ _. Inr b) 8 9 (?h, process_new sample_config)) s2"
  have "host_reach {sample_config} True Load Embed empty_host s3" unfolding s3_def
    by (rule quiet_run_reach [OF r2, where b = b and n = 9]) (simp add: s2, simp, rule load, simp add: s2)
  moreover have s3: "sys_host s3 = h3" "sys_procs s3 7 = Some ?q" "\<exists>p. sys_procs s3 8 = Some p \<and> bp_stage p = Serving
      \<and> bp_owner p = OwnerReading \<and> bp_config p = sample_config"
    by (simp_all add: s3_def r3 put_def s2)
  ultimately obtain s4 where "host_reach {sample_config} True Load Embed empty_host s4"
    "sys_host s4 = fst (remove_file quiet_host (cfg_endpoint sample_config) h3)" "\<forall>q. q \<noteq> 7 \<longrightarrow> sys_procs s4 q = sys_procs s3 q"
    using owner_end [of "{sample_config}" True Load Embed empty_host s3 7 ?q quiet_host] by (auto simp: alive_def)
  moreover from this r3(2) have "host_entries (sys_host s4) (cfg_endpoint sample_config) = None"
    by (simp add: remove_file_def quiet_host_def is_directory_def)
  ultimately show ?thesis using s3(3) by (auto simp: listening_def)
qed

text \<open>A broker with the same endpoint and another service lock takes the endpoint of a broker that listens.\<close>

lemma shared_endpoint_taken:
  assumes load: "\<And>c lease. Load c lease (Inr b)"
  shows "\<exists>s p. host_reach {sample_config, config_at ''e'' ''t'' ''u''} False Load Embed empty_host s
     \<and> sys_procs s 7 = Some p \<and> listening (bp_stage p) \<and> bp_owner p = OwnerReading \<and> bp_config p = sample_config
     \<and> host_entries (sys_host s) (cfg_endpoint sample_config) = Some (SocketFile 0x180 8)"
proof -
  let ?p = "\<lparr>bp_config = sample_config, bp_stage = Accepting, bp_accel = be_accelerator_lease b, bp_engine = Some b, bp_bound = True, bp_owner = OwnerReading\<rparr>"
  let ?c = "config_at ''e'' ''t'' ''u''"
  obtain h where r: "main_run (\<lambda>_. quiet_host) (\<lambda>_ _. Inr b) 7 8 (empty_host, process_new sample_config) = (h, ?p)"
    "host_entries h (tmp_path ''e'') = Some (SocketFile 0x180 7)" "host_entries h tmp_dir = Some (Directory 0x1C0)"
    "\<forall>n\<in>{''t'', ''u''}. host_entries h (tmp_path n) = None \<and> host_locks h (tmp_path n) = None"
    using bound_run by blast
  define s1 where "s1 = put 7 (h, ?p) \<lparr>sys_host = empty_host, sys_procs = Map.empty\<rparr>"
  have s1: "sys_host s1 = h" "sys_procs s1 = [7 \<mapsto> ?p]" by (simp_all add: s1_def put_def)
  have r1: "host_reach {sample_config, ?c} False Load Embed empty_host s1"
    unfolding s1_def by (rule quiet_run_reach [OF host_reach.start, where b = b and n = 8 and c = sample_config]) (simp, simp, rule load, use r(1) in simp)
  have clear: "start_clear ?c h"
    by (rule tmp_clear) (use r(2-4) in \<open>auto simp: dir_or_free_def is_directory_def\<close>)
  have t: "host_locks h (cfg_service_lock ?c) = None"
    "True = (host_locks h (cfg_accelerator_lock ?c) = None \<and> cfg_accelerator_lock ?c \<noteq> cfg_service_lock ?c)"
    using r(4) by simp_all
  obtain h3 q where r3: "main_run (\<lambda>_. quiet_host) (\<lambda>_ _. Inr b) 8 9 (h, process_new ?c) = (h3, q)"
    "host_entries h3 (cfg_endpoint ?c) = Some (SocketFile 0x180 8)"
    using start_serves [OF quiet clear t, where load = "\<lambda>_ _. Inr b" and b = b and pid = 8] by auto
  have "host_reach {sample_config, ?c} False Load Embed empty_host (put 8 (h3, q) s1)"
    by (rule quiet_run_reach [OF r1, where b = b and n = 9 and c = ?c]) (simp add: s1, simp, rule load, use r3(1) s1 in simp)
  then show ?thesis using r3(2)
    by (intro exI [where x = "put 8 (h3, q) s1"] exI [where x = ?p]) (simp add: put_def s1 listening_def sample_config_def)
qed

section \<open>Properties of the brokers on a host\<close>

text \<open>
  C7 (safety). At most one broker serves under a service lock: whatever the interleaving of any number
  of broker processes, of their requests, of the ends of their owners, of failures, panics and crashes
  at any moment, two processes past the first stage with the same service lock are one. The condition
  is that no broker of the host is given the path of that lock as its endpoint. The code never checks
  it and \<open>bind\<close> unlinks the endpoint whatever it is: lemma \<open>lock_as_endpoint_passed\<close> has two brokers
  under one lock where it does not hold.
\<close>

theorem one_broker_per_service_lock:
  assumes "host_reach configs faults (program_load N M F) (program_embed N M F) h0 s"
    and "\<forall>c\<in>configs. cfg_endpoint c \<noteq> lock"
    and "sys_procs s pid = Some p" and "holds_service (bp_stage p)" and "cfg_service_lock (bp_config p) = lock"
    and "sys_procs s pid' = Some p'" and "holds_service (bp_stage p')" and "cfg_service_lock (bp_config p') = lock"
  shows "pid = pid'"
  using assms by (rule brokers.service_unique)

theorem one_broker_per_service_lock_witness:
  "\<exists>p pid. sys_procs (sample_system 9) 7 = Some p \<and> bp_stage p = Serving
     \<and> sys_procs (sample_system 9) pid = Some p \<and> pid = 7"
proof -
  obtain b p where p: "sys_procs (sample_system 9) 7 = Some p" "bp_stage p = Serving" "bp_config p = sample_config"
    using sample_serves by blast
  then have h: "holds_service (bp_stage p)" by (simp add: holds_service_def)
  have l: "\<forall>c\<in>{sample_config}. cfg_endpoint c \<noteq> tmp_path ''s''" "cfg_service_lock (bp_config p) = tmp_path ''s''"
    by (simp_all add: p(3) sample_config_def)
  from one_broker_per_service_lock [OF sample_host_reach l(1) p(1) h l(2) p(1) h l(2)] p show ?thesis by blast
qed

text \<open>
  C10 (safety). At most one accelerated engine runs under an accelerator lock, across all brokers of
  the host, for every backend, loader and llama.cpp: an engine is accelerated only while its
  process holds the lock, through demotions, restarts, failures, panics and crashes. As for the
  service lock, the condition is that no broker is given the path of that lock as its endpoint; the
  code does not check it.
\<close>

theorem one_accelerated_engine:
  assumes "host_reach configs faults (program_load N M F) (program_embed N M F) h0 s"
    and "\<forall>c\<in>configs. cfg_endpoint c \<noteq> lock"
    and "sys_procs s pid = Some p" and "bp_engine p = Some b" and "broker_is_accelerated (loaded_ops M F) b"
    and "cfg_accelerator_lock (bp_config p) = lock"
    and "sys_procs s pid' = Some p'" and "bp_engine p' = Some b'" and "broker_is_accelerated (loaded_ops M F) b'"
    and "cfg_accelerator_lock (bp_config p') = lock"
  shows "pid = pid'"
  using assms by (rule brokers.accelerator_unique)

theorem one_accelerated_engine_witness:
  "\<exists>p b pid. sys_procs (sample_system 9) 7 = Some p \<and> bp_engine p = Some b
     \<and> broker_is_accelerated (loaded_ops toy_llama toy_ops) b \<and> sys_procs (sample_system 9) pid = Some p \<and> pid = 7"
proof -
  obtain b p where p: "sys_procs (sample_system 9) 7 = Some p" "bp_engine p = Some b"
    "broker_is_accelerated (loaded_ops toy_llama toy_ops) b" "bp_config p = sample_config"
    using sample_serves by blast
  have l: "\<forall>c\<in>{sample_config}. cfg_endpoint c \<noteq> tmp_path ''a''" "cfg_accelerator_lock (bp_config p) = tmp_path ''a''"
    by (simp_all add: p(4) sample_config_def)
  from one_accelerated_engine [OF sample_host_reach l(1) p(1-3) l(2) p(1-3) l(2)] p show ?thesis by blast
qed

text \<open>
  C14 (invariant). A broker that accepts connections keeps its endpoint, and keeps it private, until its
  own owner watchdog has unlinked it: the name holds the socket it bound, with mode 0600, in a directory
  of mode 0700, whatever other brokers start, fail, exit or crash. The conditions are that no broker
  has the service lock as its endpoint, that every broker with this endpoint has the same service
  lock, that no broker has the directory as its endpoint, and that no broker fails or panics once its
  socket is bound (\<open>faults\<close> is False). The code checks none of them: \<open>shared_endpoint_taken\<close> and
  \<open>failed_start_unlinks_successor\<close> lose the endpoint of a listening broker where the second or the last
  does not hold.
\<close>

theorem endpoint_stays_private:
  assumes "host_reach configs False (program_load N M F) (program_embed N M F) h0 s"
    and "\<forall>c\<in>configs. cfg_endpoint c \<noteq> cfg_service_lock (bp_config p)
      \<and> (cfg_endpoint c = cfg_endpoint (bp_config p) \<longrightarrow> cfg_service_lock c = cfg_service_lock (bp_config p))
      \<and> path_parent (cfg_endpoint (bp_config p)) \<noteq> Some (cfg_endpoint c)"
    and "sys_procs s pid = Some p" and "listening (bp_stage p)" and "bp_owner p \<noteq> OwnerExiting"
  shows "host_entries (sys_host s) (cfg_endpoint (bp_config p)) = Some (SocketFile 0x180 pid)
    \<and> (\<exists>parent. path_parent (cfg_endpoint (bp_config p)) = Some parent
         \<and> host_entries (sys_host s) parent = Some (Directory 0x1C0))"
proof (rule brokers.endpoint_private [OF assms(1) _ _ assms(3-5)])
  show "\<forall>c\<in>configs. cfg_endpoint c \<noteq> cfg_service_lock (bp_config p)" using assms(2) by blast
  show "sole_endpoint configs (cfg_service_lock (bp_config p)) (cfg_endpoint (bp_config p))"
    using assms(2) by (simp add: sole_endpoint_def)
qed

theorem endpoint_stays_private_witness:
  "host_entries (sys_host (sample_system 9)) (tmp_path ''e'') = Some (SocketFile 0x180 7)
   \<and> host_entries (sys_host (sample_system 9)) tmp_dir = Some (Directory 0x1C0)"
proof -
  obtain b p where p: "sys_procs (sample_system 9) 7 = Some p" "bp_stage p = Serving" "bp_config p = sample_config" "bp_owner p = OwnerReading"
    using sample_serves by blast
  then have l: "listening (bp_stage p)" "bp_owner p \<noteq> OwnerExiting" by (simp_all add: listening_def)
  have c: "\<forall>c\<in>{sample_config}. cfg_endpoint c \<noteq> cfg_service_lock (bp_config p)
      \<and> (cfg_endpoint c = cfg_endpoint (bp_config p) \<longrightarrow> cfg_service_lock c = cfg_service_lock (bp_config p))
      \<and> path_parent (cfg_endpoint (bp_config p)) \<noteq> Some (cfg_endpoint c)"
    by (simp add: p(3) sample_config_def)
  from endpoint_stays_private [OF sample_host_reach c p(1) l] show ?thesis by (simp add: p(3) sample_config_def)
qed

text \<open>
  C32 (liveness). A start that nothing hinders comes to serve, and one under a lease that another
  process holds gives way. Where the system refuses no call, the loader answers with an engine, the
  three names are apart and free of directories and sockets in the way (\<open>start_clear\<close>), and the process
  is new, the main thread alone gets there: with the service lock free, in nine steps it serves with
  the service lock, an engine, its socket at the endpoint with mode 0600 in a directory of mode 0700
  and \<open>endpoint_bound\<close> set, and holds the accelerator lock exactly if the engine kept the lease, having
  left it as it was otherwise; with the service lock held, in two steps it has exited with code 0, no
  lock and nothing at the endpoint changed. The accelerator lock is never waited for.
\<close>

theorem broker_starts:
  assumes "\<forall>n. no_refusal (os n)" and "start_clear c h" and "pid \<notin> ran (host_locks h)"
    and "cfg_accelerator_lock c \<noteq> cfg_service_lock c"
    and "load 3 (host_locks h (cfg_accelerator_lock c) = None) = Inr b"
    and "be_accelerator_lease b \<longrightarrow> host_locks h (cfg_accelerator_lock c) = None"
  shows "if host_locks h (cfg_service_lock c) = None
    then \<exists>h' p. main_run os load pid 9 (h, process_new c) = (h', p)
      \<and> bp_stage p = Serving \<and> bp_engine p = Some b \<and> bp_bound p \<and> bp_owner p = OwnerReading
      \<and> host_locks h' (cfg_service_lock c) = Some pid
      \<and> host_locks h' (cfg_accelerator_lock c) = (if be_accelerator_lease b then Some pid else host_locks h (cfg_accelerator_lock c))
      \<and> host_entries h' (cfg_endpoint c) = Some (SocketFile 0x180 pid)
      \<and> (\<exists>parent. path_parent (cfg_endpoint c) = Some parent \<and> host_entries h' parent = Some (Directory 0x1C0))
    else \<exists>h' p. main_run os load pid 2 (h, process_new c) = (h', p) \<and> bp_stage p = Gone 0
      \<and> host_locks h' = host_locks h \<and> host_entries h' (cfg_endpoint c) = host_entries h (cfg_endpoint c)"
proof (cases "host_locks h (cfg_service_lock c) = None")
  case True
  have os: "no_refusal (os n)" for n using assms(1) by blast
  from start_serves [where os = os and load = load and pid = pid and b = b
      and lease = "host_locks h (cfg_accelerator_lock c) = None", OF os assms(2) True] assms(4-6) True
  show ?thesis by (auto simp: endpoint_dir_def)
next
  case False
  have os: "no_refusal (os n)" for n using assms(1) by blast
  from start_yields [where os = os and load = load, OF os assms(2) False assms(3)] show ?thesis unfolding if_not_P [OF False] .
qed

theorem broker_starts_witness:
  "\<exists>h' p b. sample_run 9 = (h', p) \<and> bp_stage p = Serving \<and> bp_engine p = Some b
     \<and> broker_is_accelerated (loaded_ops toy_llama toy_ops) b
     \<and> host_locks h' (tmp_path ''s'') = Some 7 \<and> host_locks h' (tmp_path ''a'') = Some 7
     \<and> host_entries h' (tmp_path ''e'') = Some (SocketFile 0x180 7) \<and> host_entries h' tmp_dir = Some (Directory 0x1C0)"
proof -
  obtain b where b: "gpu_answer True = Inr b" "broker_is_accelerated (loaded_ops toy_llama toy_ops) b" "be_accelerator_lease b"
    using gpu_leased by blast
  have free: "host_locks empty_host = Map.empty" by (simp add: empty_host_def)
  have os: "\<forall>n::nat. no_refusal quiet_host" by (simp add: quiet)
  from broker_starts [OF os empty_clear, of 7 "\<lambda>_. gpu_answer" b] b free
  show ?thesis by (auto simp: sample_config_def)
qed

end
