(* ===== verification/Build_Identity.thy ===== *)
theory Build_Identity
  imports Package_Manifest
begin

text \<open>
  build.rs and build_support.rs: the native build identity compiled into the executable, which names
  the package (\<open>Package_Manifest\<close>) and keys the verdict cache (\<open>Backend_Select\<close>). The environment of
  the build is a map; the lines printed for cargo are the result.
\<close>

section \<open>The flags of the compiler\<close>

definition unit_separator :: char where
  "unit_separator = CHR 0x1F"

text \<open>\<open>str::split\<close> on one character.\<close>

fun split_char :: "char \<Rightarrow> string \<Rightarrow> string list" where
  "split_char sep [] = [[]]"
| "split_char sep (c # cs) =
     (if c = sep then [] # split_char sep cs
      else case split_char sep cs of [] \<Rightarrow> [[c]] | w # ws \<Rightarrow> (c # w) # ws)"

text \<open>The loop of \<open>identity_rustflags\<close>: a remap flag is dropped, with its argument when that is a flag of its own.\<close>

fun identity_flags :: "string list \<Rightarrow> string list" where
  "identity_flags [] = []"
| "identity_flags (f # fs) =
     (if starts_with f ''--remap-path-prefix='' then identity_flags fs
      else if f = ''--remap-path-prefix'' then (case fs of [] \<Rightarrow> [] | _ # rest \<Rightarrow> identity_flags rest)
      else f # identity_flags fs)"

definition identity_rustflags :: "string \<Rightarrow> string" where
  "identity_rustflags encoded =
     hex (join_str [unit_separator] (identity_flags (split_char unit_separator encoded)))"

section \<open>The build script\<close>

definition rerun_names :: "string list" where
  "rerun_names = [''TARGET'', ''CARGO_ENCODED_RUSTFLAGS'', ''CARGO_CFG_TARGET_OS'', ''CARGO_CFG_TARGET_FEATURE'',
     ''CARGO_FEATURE_METAL'', ''CARGO_FEATURE_VULKAN'', ''CARGO_FEATURE_CUDA'', ''CARGO_FEATURE_ROCM'',
     ''CARGO_FEATURE_DYNAMIC_BACKENDS'', ''JULIE_NATIVE_PATCH_IDENTITY'']"

definition build_features :: "string list" where
  "build_features = [''metal'', ''vulkan'', ''cuda'', ''rocm'', ''dynamic-backends'']"

text \<open>\<open>env::var\<close>: a variable that is set and valid UTF-8; \<open>env::var_os\<close> only asks for the first.\<close>

definition env_var :: "(string \<rightharpoonup> bytes) \<Rightarrow> string \<Rightarrow> string option" where
  "env_var env name = (case env name of None \<Rightarrow> None | Some v \<Rightarrow> if utf8_valid v then Some v else None)"

definition env_var_or :: "(string \<rightharpoonup> bytes) \<Rightarrow> string \<Rightarrow> string \<Rightarrow> string" where
  "env_var_or env name other = (case env_var env name of None \<Rightarrow> other | Some v \<Rightarrow> v)"

definition ascii_upper :: "char \<Rightarrow> char" where
  "ascii_upper c = (if 97 \<le> byte_of c \<and> byte_of c \<le> 122 then char_of (byte_of c - 32) else c)"

definition feature_variable :: "string \<Rightarrow> string" where
  "feature_variable feature = ''CARGO_FEATURE_'' @ map (\<lambda>c. ascii_upper (if c = CHR ''-'' then CHR ''_'' else c)) feature"

definition package_features :: "(string \<rightharpoonup> bytes) \<Rightarrow> string" where
  "package_features env = join_str '','' (filter (\<lambda>f. env (feature_variable f) \<noteq> None) build_features)"

definition build_identity :: "(string \<rightharpoonup> bytes) \<Rightarrow> string" where
  "build_identity env =
     ''target='' @ env_var_or env ''TARGET'' ''unknown-target''
     @ '';target_features='' @ env_var_or env ''CARGO_CFG_TARGET_FEATURE'' []
     @ '';package_features='' @ package_features env
     @ '';native_patch='' @ env_var_or env ''JULIE_NATIVE_PATCH_IDENTITY'' ''none''
     @ '';rustflags='' @ identity_rustflags (env_var_or env ''CARGO_ENCODED_RUSTFLAGS'' [])"

definition build_main :: "(string \<rightharpoonup> bytes) \<Rightarrow> string list" where
  "build_main env =
     map (\<lambda>name. ''cargo:rerun-if-env-changed='' @ name) rerun_names
     @ [''cargo:rustc-env=JULIE_NATIVE_BUILD_IDENTITY='' @ build_identity env]
     @ (if env ''CARGO_FEATURE_DYNAMIC_BACKENDS'' \<noteq> None \<and> env_var env ''CARGO_CFG_TARGET_OS'' = Some ''linux''
        then [''cargo:rustc-link-arg=-Wl,-rpath,$ORIGIN''] else [])"

section \<open>Splitting and joining\<close>

lemma split_char_nonempty [simp]: "split_char sep s \<noteq> []"
  by (induction s) (auto split: list.split)

lemma split_char_pieces: "w \<in> set (split_char sep s) \<Longrightarrow> sep \<notin> set w"
  by (induction s arbitrary: w) (auto split: list.splits if_splits)

lemma split_char_append: "sep \<notin> set w \<Longrightarrow> split_char sep (w @ sep # s) = w # split_char sep s"
  by (induction w) auto

lemma split_char_last: "sep \<notin> set w \<Longrightarrow> split_char sep w = [w]"
  by (induction w) auto

lemma split_semicolon_char: "split_semicolon s = split_char CHR '';'' s"
  by (induction s) (auto split: list.split)

lemma split_join: "xs \<noteq> [] \<Longrightarrow> \<forall>w \<in> set xs. sep \<notin> set w \<Longrightarrow> split_char sep (join_str [sep] xs) = xs"
  by (induction "[sep]" xs rule: join_str.induct) (simp_all add: split_char_append split_char_last)

text \<open>Joining forgets only the difference between no flag and one empty flag.\<close>

definition or_blank :: "string list \<Rightarrow> string list" where
  "or_blank xs = (if xs = [] then [[]] else xs)"

lemma join_or_blank: "join_str sep (or_blank xs) = join_str sep xs"
  by (simp add: or_blank_def)

lemma join_inject:
  assumes "\<forall>w \<in> set xs. sep \<notin> set w" and "\<forall>w \<in> set ys. sep \<notin> set w"
  shows "join_str [sep] xs = join_str [sep] ys \<longleftrightarrow> or_blank xs = or_blank ys"
proof
  assume "join_str [sep] xs = join_str [sep] ys"
  then have "split_char sep (join_str [sep] (or_blank xs)) = split_char sep (join_str [sep] (or_blank ys))"
    by (simp add: join_or_blank)
  moreover have "or_blank xs \<noteq> []" "or_blank ys \<noteq> []" by (simp_all add: or_blank_def)
  moreover have "\<forall>w \<in> set (or_blank xs). sep \<notin> set w" "\<forall>w \<in> set (or_blank ys). sep \<notin> set w"
    using assms by (simp_all add: or_blank_def)
  ultimately show "or_blank xs = or_blank ys" by (simp add: split_join)
next
  assume "or_blank xs = or_blank ys"
  then show "join_str [sep] xs = join_str [sep] ys" by (metis join_or_blank)
qed

lemma identity_flags_subset: "set (identity_flags fs) \<subseteq> set fs"
  by (induction fs rule: identity_flags.induct) (auto split: list.splits)

section \<open>Hexadecimal\<close>

lemma byte_of_hex_digit: "n < 16 \<Longrightarrow> byte_of (hex_digit n) = (if n < 10 then 48 + n else 87 + n)"
  by (simp add: hex_digit_def byte_of_def)

lemma hex_digit_inject:
  assumes "m < 16" and "n < 16"
  shows "hex_digit m = hex_digit n \<longleftrightarrow> m = n"
proof
  assume "hex_digit m = hex_digit n"
  then have "byte_of (hex_digit m) = byte_of (hex_digit n)" by simp
  then show "m = n" by (simp add: byte_of_hex_digit assms split: if_splits)
qed simp

lemma hex_byte_inject: "hex_byte c = hex_byte d \<longleftrightarrow> c = d"
proof
  assume "hex_byte c = hex_byte d"
  then have "byte_of c div 16 = byte_of d div 16" "byte_of c mod 16 = byte_of d mod 16"
    by (simp_all add: hex_byte_def hex_digit_inject less_mult_imp_div_less)
  then show "c = d" by (metis byte_of_inject div_mult_mod_eq)
qed simp

lemma hex_inject: "hex a = hex b \<longleftrightarrow> a = b"
proof (induction a arbitrary: b)
  case Nil
  then show ?case by (cases b) (simp_all add: hex_def hex_byte_def)
next
  case (Cons c cs)
  show ?case
  proof (cases b)
    case Nil
    then show ?thesis by (simp add: hex_def hex_byte_def)
  next
    case (Cons d ds)
    have "length (hex_byte c) = length (hex_byte d)" by (simp add: hex_byte_def)
    with Cons Cons.IH [of ds] show ?thesis by (simp add: hex_def hex_byte_inject)
  qed
qed

definition hex_char :: "char \<Rightarrow> bool" where
  "hex_char c \<longleftrightarrow> is_ascii_digit c \<or> 97 \<le> byte_of c \<and> byte_of c \<le> 102"

lemma hex_char_digit: "n < 16 \<Longrightarrow> hex_char (hex_digit n)"
  by (simp add: hex_char_def is_ascii_digit_def byte_of_hex_digit)

lemma hex_chars: "list_all hex_char (hex bs)"
  by (induction bs) (auto simp: hex_def hex_byte_def less_mult_imp_div_less intro!: hex_char_digit)

section \<open>Substrings between separators\<close>

lemma contains_str_iff: "contains_str s p \<longleftrightarrow> (\<exists>u v. s = u @ p @ v)"
proof (induction s)
  case (Cons c cs)
  show ?case
  proof
    assume "contains_str (c # cs) p"
    then consider "starts_with (c # cs) p" | "contains_str cs p" by auto
    then show "\<exists>u v. c # cs = u @ p @ v"
    proof cases
      case 1
      then show ?thesis by (metis append_Nil starts_with_iff)
    next
      case 2
      then show ?thesis by (metis Cons.IH append_Cons)
    qed
  next
    assume "\<exists>u v. c # cs = u @ p @ v"
    then obtain u v where "c # cs = u @ p @ v" by blast
    then have "starts_with (c # cs) p \<or> (\<exists>u v. cs = u @ p @ v)"
      by (cases u) (auto simp: starts_with_iff)
    then show "contains_str (c # cs) p" using Cons.IH by simp
  qed
qed simp

lemma contains_str_split:
  assumes "c \<notin> set p" and "p \<noteq> []"
  shows "contains_str (a @ c # b) p \<longleftrightarrow> contains_str a p \<or> contains_str b p"
proof
  assume "contains_str (a @ c # b) p"
  then obtain u v where "a @ c # b = u @ p @ v" by (auto simp: contains_str_iff)
  with assms show "contains_str a p \<or> contains_str b p"
    by (auto simp: contains_str_iff append_eq_append_conv2 Cons_eq_append_conv) blast+
next
  assume "contains_str a p \<or> contains_str b p"
  then show "contains_str (a @ c # b) p"
    by (metis append.assoc append_Cons contains_str_iff)
qed

lemma contains_str_chars: "contains_str s p \<Longrightarrow> set p \<subseteq> set s"
  by (auto simp: contains_str_iff)

section \<open>Properties of the identity\<close>

text \<open>
  Two sets of encoded flags give the same identity exactly when they are the same flags
  once the path remappings are gone: where the sources lie on the build machine does not change
  the identity, and any other flag does.
\<close>

lemma identity_forgets_remaps_only:
  "identity_rustflags a = identity_rustflags b
     \<longleftrightarrow> or_blank (identity_flags (split_char unit_separator a)) = or_blank (identity_flags (split_char unit_separator b))"
proof -
  have pieces: "\<forall>w \<in> set (identity_flags (split_char unit_separator e)). unit_separator \<notin> set w" for e
    using identity_flags_subset split_char_pieces by blast
  show ?thesis unfolding identity_rustflags_def hex_inject by (rule join_inject [OF pieces pieces])
qed

text \<open>A part of the identity that names no path and does not end its field.\<close>

definition plain_field :: "string \<Rightarrow> bool" where
  "plain_field v \<longleftrightarrow>
     CHR ''/'' \<notin> set v \<and> backslash \<notin> set v \<and> CHR '';'' \<notin> set v \<and> \<not> contains_str v ''.worktrees''"

definition field :: "string \<Rightarrow> string \<Rightarrow> string" where
  "field name v = name @ CHR ''='' # v"

lemma plain_fieldI: "CHR ''/'' \<notin> set v \<Longrightarrow> backslash \<notin> set v \<Longrightarrow> CHR '';'' \<notin> set v \<Longrightarrow> CHR ''.'' \<notin> set v \<Longrightarrow> plain_field v"
  using contains_str_chars [of v "''.worktrees''"] by (auto simp: plain_field_def)

lemma plain_field_split: "c \<in> {CHR ''='', CHR '':''} \<Longrightarrow> plain_field (a @ c # b) \<longleftrightarrow> plain_field a \<and> plain_field b"
  by (auto simp: plain_field_def contains_str_split backslash_def)

lemma plain_field_field: "plain_field (field name v) \<longleftrightarrow> plain_field name \<and> plain_field v"
  by (simp add: field_def plain_field_split)

lemma plain_hex: "list_all hex_char v \<Longrightarrow> plain_field v"
  by (rule plain_fieldI)
    (auto simp: list_all_iff hex_char_def is_ascii_digit_def byte_of_def backslash_def)

lemma join_str_chars: "set (join_str sep xs) \<subseteq> set sep \<union> (\<Union>x \<in> set xs. set x)"
  by (induction sep xs rule: join_str.induct) auto

lemma plain_package_features: "plain_field (package_features env)"
proof -
  have "set (package_features env) \<subseteq> set '','' \<union> (\<Union>x \<in> set build_features. set x)"
    unfolding package_features_def using join_str_chars [of "'',''"] by fastforce
  then show ?thesis
    by (intro plain_fieldI) (auto simp: build_features_def backslash_def)
qed

definition identity_fields :: "(string \<rightharpoonup> bytes) \<Rightarrow> string list" where
  "identity_fields env =
     [field ''target'' (env_var_or env ''TARGET'' ''unknown-target''),
      field ''target_features'' (env_var_or env ''CARGO_CFG_TARGET_FEATURE'' []),
      field ''package_features'' (package_features env),
      field ''native_patch'' (env_var_or env ''JULIE_NATIVE_PATCH_IDENTITY'' ''none''),
      field ''rustflags'' (identity_rustflags (env_var_or env ''CARGO_ENCODED_RUSTFLAGS'' []))]"

lemma build_identity_fields: "build_identity env = join_str '';'' (identity_fields env)"
  by (simp add: build_identity_def identity_fields_def field_def)

lemma plain_names: "list_all plain_field [''target'', ''target_features'', ''package_features'', ''native_patch'', ''rustflags'']"
  by (auto intro!: plain_fieldI simp: backslash_def)

lemma join_plain:
  assumes "list_all plain_field xs" and "xs \<noteq> []"
  shows "\<not> contains_str (join_str '';'' xs) ''.worktrees'' \<and> CHR ''/'' \<notin> set (join_str '';'' xs)
    \<and> backslash \<notin> set (join_str '';'' xs)"
  using assms
proof (induction "'';''" xs rule: join_str.induct)
  case (3 x y ys)
  then show ?case by (auto simp: plain_field_def contains_str_split backslash_def)
qed (auto simp: plain_field_def)

lemma identity_fields_plain:
  assumes "plain_field (env_var_or env ''TARGET'' ''unknown-target'')"
    and "plain_field (env_var_or env ''CARGO_CFG_TARGET_FEATURE'' [])"
    and "plain_field (env_var_or env ''JULIE_NATIVE_PATCH_IDENTITY'' ''none'')"
  shows "list_all plain_field (identity_fields env)"
  using assms plain_names plain_package_features [of env] plain_hex [OF hex_chars]
  by (simp add: identity_fields_def plain_field_field identity_rustflags_def)

lemma identity_fields_split:
  assumes "list_all plain_field (identity_fields env)"
  shows "split_semicolon (build_identity env) = identity_fields env"
  unfolding split_semicolon_char build_identity_fields
  by (rule split_join) (use assms in \<open>auto simp: identity_fields_def list_all_iff plain_field_def\<close>)

lemma find_patch_field:
  "find (\<lambda>v. starts_with v ''native_patch='') (identity_fields env)
     = Some (''native_patch='' @ env_var_or env ''JULIE_NATIVE_PATCH_IDENTITY'' ''none'')"
  by (simp add: identity_fields_def field_def starts_with_def)

definition patch_name :: string where
  "patch_name = ''llama-cpp-sys-2-0.1.151:vulkan-repro-v4:''"

lemma plain_patch:
  assumes "patch_digest_ok digest"
  shows "plain_field (patch_name @ digest)"
proof -
  have "plain_field ''llama-cpp-sys-2-0.1.151''" by (simp add: plain_field_def backslash_def starts_with_def)
  moreover have "plain_field ''vulkan-repro-v4''" by (rule plain_fieldI) (simp_all add: backslash_def)
  moreover have "plain_field digest"
    using assms by (intro plain_hex) (simp add: patch_digest_ok_def hex_char_def list_all_iff)
  ultimately have "plain_field (''llama-cpp-sys-2-0.1.151'' @ CHR '':'' # ''vulkan-repro-v4'' @ CHR '':'' # digest)"
    by (simp only: plain_field_split insert_iff simp_thms)
  then show ?thesis by (simp add: patch_name_def)
qed

text \<open>
  C28 (roundtrip). An executable built with the patched native library is recognised as such: from the
  patch name and a digest in the environment of the build, whatever its compiler flags and the
  paths in them, comes an identity that the verifier of patched packages accepts and that is no
  development path.
\<close>

theorem patched_build_is_accepted:
  assumes "plain_field (env_var_or env ''TARGET'' ''unknown-target'')"
    and "plain_field (env_var_or env ''CARGO_CFG_TARGET_FEATURE'' [])"
    and "env_var_or env ''JULIE_NATIVE_PATCH_IDENTITY'' ''none'' = patch_name @ digest" and "patch_digest_ok digest"
    and "pm_native_build_identity p = build_identity env"
  shows "check_patched p = Inr () \<and> \<not> identity_is_development_path (pm_native_build_identity p)"
proof -
  have plain: "list_all plain_field (identity_fields env)"
    using assms plain_patch by (intro identity_fields_plain) simp_all
  have prefix: "''native_patch='' @ patch_name @ digest = NATIVE_PATCH_IDENTITY_PREFIX @ digest"
    by (simp add: patch_name_def NATIVE_PATCH_IDENTITY_PREFIX_def)
  have "check_patched p = Inr ()"
    by (simp add: check_patched_def assms(5) identity_fields_split [OF plain] find_patch_field assms(3,4) prefix ensure_def
        del: append_assoc append.simps)
  moreover have "identity_fields env \<noteq> []" "build_identity env \<noteq> []"
    by (simp_all add: identity_fields_def build_identity_def)
  ultimately show ?thesis
    using join_plain [OF plain] by (simp add: assms(5) identity_is_development_path_def flip: build_identity_fields)
qed

definition release_env :: "string \<rightharpoonup> bytes" where
  "release_env = [''TARGET'' \<mapsto> ''x86_64-unknown-linux-gnu'', ''CARGO_FEATURE_VULKAN'' \<mapsto> ''1'',
     ''JULIE_NATIVE_PATCH_IDENTITY'' \<mapsto> patch_name @ replicate 64 CHR ''a'',
     ''CARGO_ENCODED_RUSTFLAGS'' \<mapsto> ''--remap-path-prefix=/home/ci=/src'']"

lemma release_env_values:
  "env_var_or release_env ''TARGET'' ''unknown-target'' = ''x86_64-unknown-linux-gnu''"
  "env_var_or release_env ''CARGO_CFG_TARGET_FEATURE'' [] = []"
  "env_var_or release_env ''JULIE_NATIVE_PATCH_IDENTITY'' ''none'' = patch_name @ replicate 64 CHR ''a''"
proof -
  have "utf8_valid (patch_name @ replicate 64 CHR ''a'')" by code_simp
  then show "env_var_or release_env ''JULIE_NATIVE_PATCH_IDENTITY'' ''none'' = patch_name @ replicate 64 CHR ''a''"
    by (simp add: env_var_or_def env_var_def release_env_def)
  have "utf8_valid ''x86_64-unknown-linux-gnu''" by code_simp
  then show "env_var_or release_env ''TARGET'' ''unknown-target'' = ''x86_64-unknown-linux-gnu''"
    by (simp add: env_var_or_def env_var_def release_env_def)
qed (simp add: env_var_or_def env_var_def release_env_def)

theorem patched_build_is_accepted_witness:
  "check_patched (metal_package\<lparr>pm_native_build_identity := build_identity release_env\<rparr>) = Inr ()
     \<and> \<not> identity_is_development_path (build_identity release_env)"
proof -
  have "plain_field ''x86_64-unknown-linux-gnu''" "plain_field []"
    by (rule plain_fieldI; simp add: backslash_def)+
  moreover have "patch_digest_ok (replicate 64 CHR ''a'')" by code_simp
  ultimately show ?thesis
    using patched_build_is_accepted
      [of release_env "replicate 64 CHR ''a''" "metal_package\<lparr>pm_native_build_identity := build_identity release_env\<rparr>"]
    by (simp add: release_env_values)
qed

end
