(* ===== verification/Windows_Pipe.thy ===== *)
theory Windows_Pipe
  imports Prelude "HOL-Library.Multiset" "HOL-Library.Word"
begin

text \<open>
  The Windows transport of the broker (src/broker/transport/windows.rs): a named pipe only the
  current user can open, overlapped reads, writes and accepts, their cancellation, and the release of
  every handle. The Win32 functions are the operations of \<open>win_api\<close>; what they did is logged, so that
  the discipline of the calls can be stated. The second half interleaves one operation with the
  threads that cancel it.
\<close>

section \<open>Win32\<close>

type_synonym handle = nat
type_synonym sid = bytes
type_synonym error_code = "32 word"

definition ERROR_IO_PENDING :: error_code where
  "ERROR_IO_PENDING = 997"

definition ERROR_PIPE_CONNECTED :: error_code where
  "ERROR_PIPE_CONNECTED = 535"

definition ERROR_NOT_FOUND :: error_code where
  "ERROR_NOT_FOUND = 1168"

datatype win_error = RawOs error_code | InvalidInput string | OtherError string

datatype access_mask = GenericAll

datatype pipe_flag =
  AccessDuplex | FlagOverlapped | TypeByte | ReadmodeByte | PipeWait | RejectRemoteClients

text \<open>The arguments of \<open>CreateNamedPipeW\<close>; without a DACL in the descriptor everyone has access.\<close>

record pipe_request =
  np_name :: "16 word list"
  np_open_mode :: "pipe_flag list"
  np_pipe_mode :: "pipe_flag list"
  np_unlimited :: bool
  np_out_buffer :: nat
  np_in_buffer :: nat
  np_timeout :: nat
  np_dacl :: "(sid \<times> access_mask) list option"
  np_inherit :: bool

text \<open>
  What was called. An overlapped operation is named by its pipe and by the event in its \<open>OVERLAPPED\<close>,
  and is in flight when the call said \<open>ERROR_IO_PENDING\<close>.
\<close>

datatype win_call =
    OpenedToken handle
  | AskedToken handle
  | CreatedPipe handle pipe_request
  | CreatedEvent handle
  | StartedIo handle handle bool
  | WaitedIo handle handle
  | CancelledIo handle "handle option"
  | DisconnectedPipe handle
  | ClosedHandle handle

text \<open>
  The flags \<open>cancel_requested\<close> are shared with other threads, so their value belongs to the world and
  not to the caller. A call that answers zero, a null handle or \<open>INVALID_HANDLE_VALUE\<close> gives None or
  False; \<open>wa_read\<close> and \<open>wa_write\<close> give whether the call succeeded at once and its byte count.
\<close>

datatype cancel_flag = ListenerFlag | ConnectionFlag handle

record 'w win_api =
  wa_open_token :: "'w \<Rightarrow> 'w \<times> handle option"
  wa_token_size :: "'w \<Rightarrow> handle \<Rightarrow> 'w \<times> nat"
  wa_token_user :: "'w \<Rightarrow> handle \<Rightarrow> nat \<Rightarrow> 'w \<times> sid option"
  wa_sid_length :: "'w \<Rightarrow> sid \<Rightarrow> 'w \<times> nat"
  wa_init_acl :: "'w \<Rightarrow> nat \<Rightarrow> 'w \<times> bool"
  wa_add_ace :: "'w \<Rightarrow> nat \<Rightarrow> access_mask \<Rightarrow> sid \<Rightarrow> 'w \<times> bool"
  wa_init_descriptor :: "'w \<Rightarrow> 'w \<times> bool"
  wa_set_dacl :: "'w \<Rightarrow> (sid \<times> access_mask) list \<Rightarrow> 'w \<times> bool"
  wa_create_pipe :: "'w \<Rightarrow> pipe_request \<Rightarrow> 'w \<times> handle option"
  wa_create_event :: "'w \<Rightarrow> 'w \<times> handle option"
  wa_connect :: "'w \<Rightarrow> handle \<Rightarrow> handle \<Rightarrow> 'w \<times> bool"
  wa_read :: "'w \<Rightarrow> handle \<Rightarrow> nat \<Rightarrow> handle \<Rightarrow> 'w \<times> bool \<times> nat"
  wa_write :: "'w \<Rightarrow> handle \<Rightarrow> bytes \<Rightarrow> handle \<Rightarrow> 'w \<times> bool \<times> nat"
  wa_overlapped_result :: "'w \<Rightarrow> handle \<Rightarrow> handle \<Rightarrow> 'w \<times> nat option"
  wa_cancel :: "'w \<Rightarrow> handle \<Rightarrow> handle option \<Rightarrow> 'w \<times> bool"
  wa_disconnect :: "'w \<Rightarrow> handle \<Rightarrow> 'w"
  wa_close :: "'w \<Rightarrow> handle \<Rightarrow> 'w"
  wa_last_error :: "'w \<Rightarrow> error_code"
  wa_flag_store :: "'w \<Rightarrow> cancel_flag \<Rightarrow> bool \<Rightarrow> 'w"
  wa_flag_swap :: "'w \<Rightarrow> cancel_flag \<Rightarrow> 'w \<times> bool"

record 'w win =
  win_world :: 'w
  win_calls :: "win_call list"

text \<open>One call of the API, with what it adds to the log.\<close>

definition invoke :: "('w \<Rightarrow> 'w \<times> 'r) \<Rightarrow> ('w \<Rightarrow> 'r \<Rightarrow> win_call list) \<Rightarrow> 'w win \<Rightarrow> 'w win \<times> 'r" where
  "invoke f record_of s =
     (case f (win_world s) of (x, r) \<Rightarrow> (\<lparr>win_world = x, win_calls = win_calls s @ record_of x r\<rparr>, r))"

definition unlogged :: "'w \<Rightarrow> 'r \<Rightarrow> win_call list" where
  "unlogged x r = []"

definition asked_token :: "handle \<Rightarrow> 'w \<Rightarrow> 'r \<Rightarrow> win_call list" where
  "asked_token h x r = [AskedToken h]"

definition opened :: "(handle \<Rightarrow> win_call) \<Rightarrow> 'w \<Rightarrow> handle option \<Rightarrow> win_call list" where
  "opened c x r = (case r of None \<Rightarrow> [] | Some h \<Rightarrow> [c h])"

definition close_handle :: "'w win_api \<Rightarrow> handle \<Rightarrow> 'w win \<Rightarrow> 'w win" where
  "close_handle A h s = fst (invoke (\<lambda>x. (wa_close A x h, ())) (\<lambda>x r. [ClosedHandle h]) s)"

definition os_error :: "error_code \<Rightarrow> win_error" where
  "os_error e = RawOs e"

definition last_error :: "'w win_api \<Rightarrow> 'w win \<Rightarrow> win_error" where
  "last_error A s = os_error (wa_last_error A (win_world s))"

definition poisoned :: win_error where
  "poisoned = OtherError ''Windows broker transport lock poisoned''"

section \<open>The endpoint\<close>

definition PIPE_BUFFER_SIZE :: nat where
  "PIPE_BUFFER_SIZE = 64 * 1024"

definition PIPE_PREFIX :: string where
  "PIPE_PREFIX = [backslash, backslash, CHR ''.'', backslash] @ ''pipe'' @ [backslash]"

text \<open>\<open>str::encode_utf16\<close> on the bytes of the string.\<close>

fun encode_utf16 :: "string \<Rightarrow> 16 word list" where
  "encode_utf16 [] = []"
| "encode_utf16 (a # r) =
     (if byte_of a < 0x80 then of_nat (byte_of a) # encode_utf16 r
      else if byte_of a < 0xE0 then
        (case r of b # r' \<Rightarrow> of_nat ((byte_of a - 0xC0) * 64 + (byte_of b - 0x80)) # encode_utf16 r' | _ \<Rightarrow> [])
      else if byte_of a < 0xF0 then
        (case r of b # c # r' \<Rightarrow>
           of_nat (((byte_of a - 0xE0) * 64 + (byte_of b - 0x80)) * 64 + (byte_of c - 0x80)) # encode_utf16 r' | _ \<Rightarrow> [])
      else
        (case r of b # c # d # r' \<Rightarrow>
           (let n = (((byte_of a - 0xF0) * 64 + (byte_of b - 0x80)) * 64 + (byte_of c - 0x80)) * 64
                      + (byte_of d - 0x80) - 0x10000
            in of_nat (0xD800 + n div 0x400) # of_nat (0xDC00 + n mod 0x400) # encode_utf16 r')
         | _ \<Rightarrow> []))"

definition validate_endpoint :: "string \<Rightarrow> (win_error, unit) result" where
  "validate_endpoint endpoint =
     (if \<not> starts_with endpoint PIPE_PREFIX \<or> length endpoint = length PIPE_PREFIX then
        Inl (InvalidInput (''Windows broker endpoint must use the full '' @ PIPE_PREFIX @ ''<name> form''))
      else if 0 \<in> set (encode_utf16 endpoint) then
        Inl (InvalidInput ''Windows broker endpoint contains NUL'')
      else Inr ())"

section \<open>Security\<close>

text \<open>\<open>TokenUserBuffer::current\<close>: the token and the user in it. The first failure reads the last error after closing.\<close>

definition token_user_current :: "'w win_api \<Rightarrow> 'w win \<Rightarrow> 'w win \<times> (win_error, handle \<times> sid) result" where
  "token_user_current A s =
     (case invoke (wa_open_token A) (opened OpenedToken) s of
        (s1, None) \<Rightarrow> (s1, Inl (last_error A s1))
      | (s1, Some token) \<Rightarrow>
          (case invoke (\<lambda>x. wa_token_size A x token) (asked_token token) s1 of
             (s2, needed) \<Rightarrow>
               if needed = 0 then
                 (let s3 = close_handle A token s2 in (s3, Inl (last_error A s3)))
               else
                 (case invoke (\<lambda>x. wa_token_user A x token needed) (asked_token token) s2 of
                    (s3, None) \<Rightarrow> (let e = last_error A s3 in (close_handle A token s3, Inl e))
                  | (s3, Some user) \<Rightarrow> (s3, Inr (token, user)))))"

definition ACL_SIZE :: nat where
  "ACL_SIZE = 8"

definition ACE_SIZE :: nat where
  "ACE_SIZE = 12"

definition acl_bytes :: "nat \<Rightarrow> nat" where
  "acl_bytes sid_length = ACL_SIZE + ACE_SIZE - 4 + sid_length"

text \<open>The list and the descriptor for a user, once its SID is known.\<close>

definition user_dacl :: "'w win_api \<Rightarrow> sid \<Rightarrow> 'w win \<Rightarrow> 'w win \<times> (win_error, (sid \<times> access_mask) list) result" where
  "user_dacl A user s =
     (case invoke (\<lambda>x. wa_sid_length A x user) unlogged s of
        (s1, sid_length) \<Rightarrow>
          if sid_length = 0 then (s1, Inl (last_error A s1))
          else
            (case invoke (\<lambda>x. wa_init_acl A x (acl_bytes sid_length)) unlogged s1 of
               (s2, False) \<Rightarrow> (s2, Inl (last_error A s2))
             | (s2, True) \<Rightarrow>
                 (case invoke (\<lambda>x. wa_add_ace A x (acl_bytes sid_length) GenericAll user) unlogged s2 of
                    (s3, False) \<Rightarrow> (s3, Inl (last_error A s3))
                  | (s3, True) \<Rightarrow>
                      (case invoke (wa_init_descriptor A) unlogged s3 of
                         (s4, False) \<Rightarrow> (s4, Inl (last_error A s4))
                       | (s4, True) \<Rightarrow>
                           (case invoke (\<lambda>x. wa_set_dacl A x [(user, GenericAll)]) unlogged s4 of
                              (s5, False) \<Rightarrow> (s5, Inl (last_error A s5))
                            | (s5, True) \<Rightarrow> (s5, Inr [(user, GenericAll)]))))))"

text \<open>\<open>PipeSecurity::current_user\<close>; the token is closed when the buffer is dropped.\<close>

definition current_user :: "'w win_api \<Rightarrow> 'w win \<Rightarrow> 'w win \<times> (win_error, (sid \<times> access_mask) list) result" where
  "current_user A s =
     (case token_user_current A s of
        (s1, Inl e) \<Rightarrow> (s1, Inl e)
      | (s1, Inr (token, user)) \<Rightarrow> (case user_dacl A user s1 of (s2, r) \<Rightarrow> (close_handle A token s2, r)))"

definition pipe_request_for :: "16 word list \<Rightarrow> (sid \<times> access_mask) list \<Rightarrow> pipe_request" where
  "pipe_request_for endpoint dacl =
     \<lparr>np_name = endpoint, np_open_mode = [AccessDuplex, FlagOverlapped],
      np_pipe_mode = [TypeByte, ReadmodeByte, PipeWait, RejectRemoteClients], np_unlimited = True,
      np_out_buffer = PIPE_BUFFER_SIZE, np_in_buffer = PIPE_BUFFER_SIZE, np_timeout = 0,
      np_dacl = Some dacl, np_inherit = False\<rparr>"

definition create_instance :: "'w win_api \<Rightarrow> 16 word list \<Rightarrow> 'w win \<Rightarrow> 'w win \<times> (win_error, handle) result" where
  "create_instance A endpoint s =
     (case current_user A s of
        (s1, Inl e) \<Rightarrow> (s1, Inl e)
      | (s1, Inr dacl) \<Rightarrow>
          (case invoke (\<lambda>x. wa_create_pipe A x (pipe_request_for endpoint dacl))
                  (opened (\<lambda>h. CreatedPipe h (pipe_request_for endpoint dacl))) s1 of
             (s2, None) \<Rightarrow> (s2, Inl (last_error A s2))
           | (s2, Some h) \<Rightarrow> (s2, Inr h)))"

section \<open>One overlapped operation\<close>

record pending_io =
  pio_handle :: handle
  pio_event :: handle
  pio_pending :: bool

definition pending_io_new :: "'w win_api \<Rightarrow> handle \<Rightarrow> 'w win \<Rightarrow> 'w win \<times> (win_error, pending_io) result" where
  "pending_io_new A h s =
     (case invoke (wa_create_event A) (opened CreatedEvent) s of
        (s1, None) \<Rightarrow> (s1, Inl (last_error A s1))
      | (s1, Some event) \<Rightarrow> (s1, Inr \<lparr>pio_handle = h, pio_event = event, pio_pending = True\<rparr>))"

definition overlapped_result :: "'w win_api \<Rightarrow> pending_io \<Rightarrow> 'w win \<Rightarrow> 'w win \<times> nat option" where
  "overlapped_result A op s =
     invoke (\<lambda>x. wa_overlapped_result A x (pio_handle op) (pio_event op))
       (\<lambda>x r. [WaitedIo (pio_handle op) (pio_event op)]) s"

definition complete :: "'w win_api \<Rightarrow> pending_io \<Rightarrow> 'w win \<Rightarrow> 'w win \<times> pending_io \<times> (win_error, nat) result" where
  "complete A op s =
     (case overlapped_result A op s of
        (s1, None) \<Rightarrow> (s1, op\<lparr>pio_pending := False\<rparr>, Inl (last_error A s1))
      | (s1, Some n) \<Rightarrow> (s1, op\<lparr>pio_pending := False\<rparr>, Inr n))"

definition finish_without_wait :: "pending_io \<Rightarrow> pending_io" where
  "finish_without_wait op = op\<lparr>pio_pending := False\<rparr>"

definition cancel_ex :: "'w win_api \<Rightarrow> handle \<Rightarrow> handle option \<Rightarrow> 'w win \<Rightarrow> 'w win \<times> bool" where
  "cancel_ex A h event s = invoke (\<lambda>x. wa_cancel A x h event) (\<lambda>x r. [CancelledIo h event]) s"

definition pending_io_cancel :: "'w win_api \<Rightarrow> pending_io \<Rightarrow> 'w win \<Rightarrow> 'w win" where
  "pending_io_cancel A op s = fst (cancel_ex A (pio_handle op) (Some (pio_event op)) s)"

text \<open>\<open>Drop for PendingIo\<close> and then, with its field, \<open>Drop for OverlappedState\<close>.\<close>

definition pending_io_drop :: "'w win_api \<Rightarrow> pending_io \<Rightarrow> 'w win \<Rightarrow> 'w win" where
  "pending_io_drop A op s =
     close_handle A (pio_event op)
       (if pio_pending op then fst (overlapped_result A op (pending_io_cancel A op s)) else s)"

text \<open>The flag taken after the operation was started, and the operation cancelled when it was set.\<close>

definition take_cancel :: "'w win_api \<Rightarrow> cancel_flag \<Rightarrow> pending_io \<Rightarrow> 'w win \<Rightarrow> 'w win" where
  "take_cancel A flag op s =
     (case invoke (\<lambda>x. wa_flag_swap A x flag) unlogged s of
        (s1, requested) \<Rightarrow> if requested then pending_io_cancel A op s1 else s1)"

definition start_error :: "'w win_api \<Rightarrow> bool \<Rightarrow> 'w win \<Rightarrow> error_code option" where
  "start_error A started s = (if started then None else Some (wa_last_error A (win_world s)))"

text \<open>What a start logs: an operation that did not finish at once is in flight when it is pending.\<close>

definition started_io :: "'w win_api \<Rightarrow> pending_io \<Rightarrow> 'w \<Rightarrow> bool \<Rightarrow> win_call list" where
  "started_io A op x started =
     [StartedIo (pio_handle op) (pio_event op) (\<not> started \<and> wa_last_error A x = ERROR_IO_PENDING)]"

section \<open>Connections\<close>

text \<open>\<open>finish_io\<close>; its \<open>expect\<close> panics without an error, which \<open>transfer_expects\<close> below rules out.\<close>

definition finish_io ::
  "'w win_api \<Rightarrow> bool \<Rightarrow> error_code option \<Rightarrow> nat \<Rightarrow> pending_io \<Rightarrow> 'w win \<Rightarrow> 'w win \<times> pending_io \<times> (win_error, nat) result" where
  "finish_io A started start_err immediate_bytes op s =
     (if started then (s, finish_without_wait op, Inr immediate_bytes)
      else
        (case start_err of
           None \<Rightarrow> (s, op, Inl (OtherError ''panic: failed overlapped I/O must capture last-error''))
         | Some err \<Rightarrow>
             if err \<noteq> ERROR_IO_PENDING then (s, finish_without_wait op, Inl (os_error err))
             else complete A op s))"

text \<open>\<open>read\<close> and \<open>write\<close> differ in the call that starts the operation only; a length is cut to 32 bits.\<close>

definition transfer_size :: "nat \<Rightarrow> nat" where
  "transfer_size len = min len (2 ^ 32 - 1)"

definition transfer ::
  "'w win_api \<Rightarrow> ('w \<Rightarrow> handle \<Rightarrow> handle \<Rightarrow> 'w \<times> bool \<times> nat) \<Rightarrow> handle \<Rightarrow> 'w win \<Rightarrow> 'w win \<times> (win_error, nat) result" where
  "transfer A start h s =
     (case pending_io_new A h s of
        (s1, Inl e) \<Rightarrow> (s1, Inl e)
      | (s1, Inr op) \<Rightarrow>
          (case invoke (\<lambda>x. start x h (pio_event op)) (\<lambda>x r. started_io A op x (fst r)) s1 of
             (s2, started, immediate_bytes) \<Rightarrow>
               (let start_err = start_error A started s2;
                    s3 = take_cancel A (ConnectionFlag h) op s2
                in case finish_io A started start_err immediate_bytes op s3 of
                     (s4, op1, r) \<Rightarrow> (pending_io_drop A op1 s4, r))))"

definition pipe_read :: "'w win_api \<Rightarrow> handle \<Rightarrow> nat \<Rightarrow> 'w win \<Rightarrow> 'w win \<times> (win_error, nat) result" where
  "pipe_read A h len s =
     (if len = 0 then (s, Inr 0)
      else transfer A (\<lambda>x p event. wa_read A x p (transfer_size len) event) h s)"

definition pipe_write :: "'w win_api \<Rightarrow> handle \<Rightarrow> bytes \<Rightarrow> 'w win \<Rightarrow> 'w win \<times> (win_error, nat) result" where
  "pipe_write A h buffer s =
     (if buffer = [] then (s, Inr 0)
      else transfer A (\<lambda>x p event. wa_write A x p (take (transfer_size (length buffer)) buffer) event) h s)"

definition cancel_handle :: "'w win_api \<Rightarrow> handle \<Rightarrow> 'w win \<Rightarrow> 'w win \<times> (win_error, unit) result" where
  "cancel_handle A h s =
     (case cancel_ex A h None s of
        (s1, True) \<Rightarrow> (s1, Inr ())
      | (s1, False) \<Rightarrow>
          (let err = wa_last_error A (win_world s1)
           in (s1, if err = ERROR_NOT_FOUND then Inr () else Inl (os_error err))))"

definition flag_store :: "'w win_api \<Rightarrow> cancel_flag \<Rightarrow> bool \<Rightarrow> 'w win \<Rightarrow> 'w win" where
  "flag_store A flag b s = fst (invoke (\<lambda>x. (wa_flag_store A x flag b, ())) unlogged s)"

definition cancel_io :: "'w win_api \<Rightarrow> handle \<Rightarrow> 'w win \<Rightarrow> 'w win \<times> (win_error, unit) result" where
  "cancel_io A h s = cancel_handle A h (flag_store A (ConnectionFlag h) True s)"

definition drop_pipe :: "'w win_api \<Rightarrow> handle \<Rightarrow> 'w win \<Rightarrow> 'w win" where
  "drop_pipe A h s = close_handle A h s"

text \<open>The last clone of a connection: \<open>Drop for PipeHandle\<close> and then for the pipe in it.\<close>

definition drop_connection :: "'w win_api \<Rightarrow> handle \<Rightarrow> 'w win \<Rightarrow> 'w win" where
  "drop_connection A h s =
     drop_pipe A h (fst (invoke (\<lambda>x. (wa_disconnect A x h, ())) (\<lambda>x r. [DisconnectedPipe h]) s))"

section \<open>The listener\<close>

datatype 'a mutex = Poisoned 'a | Guarded 'a

record listener =
  ln_endpoint :: "16 word list"
  ln_first :: "handle option mutex"
  ln_pending :: "handle list mutex"

definition pipe_bind :: "'w win_api \<Rightarrow> string \<Rightarrow> 'w win \<Rightarrow> 'w win \<times> bool \<times> (win_error, listener) result" where
  "pipe_bind A endpoint s =
     (case validate_endpoint endpoint of
        Inl e \<Rightarrow> (s, False, Inl e)
      | Inr _ \<Rightarrow>
          (case create_instance A (encode_utf16 endpoint @ [0]) s of
             (s1, Inl e) \<Rightarrow> (s1, False, Inl e)
           | (s1, Inr h) \<Rightarrow>
               (flag_store A ListenerFlag False s1, True,
                Inr \<lparr>ln_endpoint = encode_utf16 endpoint @ [0], ln_first = Guarded (Some h), ln_pending = Guarded []\<rparr>)))"

definition swap_remove :: "nat \<Rightarrow> 'a list \<Rightarrow> 'a list" where
  "swap_remove i xs = (if i = length xs - 1 then butlast xs else (butlast xs)[i := last xs])"

text \<open>\<open>PendingAccept::register\<close> and its drop.\<close>

definition pending_register :: "handle \<Rightarrow> listener \<Rightarrow> (win_error, listener) result" where
  "pending_register h l =
     (case ln_pending l of
        Poisoned _ \<Rightarrow> Inl poisoned
      | Guarded hs \<Rightarrow> Inr (l\<lparr>ln_pending := Guarded (hs @ [h])\<rparr>))"

definition pending_drop :: "handle \<Rightarrow> listener \<Rightarrow> listener" where
  "pending_drop h l =
     (case ln_pending l of
        Poisoned _ \<Rightarrow> l
      | Guarded hs \<Rightarrow>
          (case position (\<lambda>x. x = h) hs of
             None \<Rightarrow> l
           | Some i \<Rightarrow> l\<lparr>ln_pending := Guarded (swap_remove i hs)\<rparr>))"

text \<open>The part of \<open>accept\<close> between the registration and its drop.\<close>

definition connect_pipe :: "'w win_api \<Rightarrow> handle \<Rightarrow> 'w win \<Rightarrow> 'w win \<times> (win_error, unit) result" where
  "connect_pipe A h s =
     (case pending_io_new A h s of
        (s1, Inl e) \<Rightarrow> (s1, Inl e)
      | (s1, Inr op) \<Rightarrow>
          (case invoke (\<lambda>x. wa_connect A x h (pio_event op)) (started_io A op) s1 of
             (s2, linked) \<Rightarrow>
               (let connect_error = start_error A linked s2;
                    s3 = take_cancel A ListenerFlag op s2
                in case (case connect_error of
                           None \<Rightarrow> (s3, finish_without_wait op, Inr ())
                         | Some err \<Rightarrow>
                             if err = ERROR_IO_PENDING then
                               (case complete A op s3 of (s4, op1, r) \<Rightarrow> (s4, op1, map_sum id (\<lambda>_. ()) r))
                             else if err = ERROR_PIPE_CONNECTED then (s3, finish_without_wait op, Inr ())
                             else (s3, finish_without_wait op, Inl (os_error err))) of
                     (s4, op1, r) \<Rightarrow> (pending_io_drop A op1 s4, r))))"

definition accept :: "'w win_api \<Rightarrow> listener \<Rightarrow> 'w win \<Rightarrow> 'w win \<times> listener \<times> (win_error, handle) result" where
  "accept A l s =
     (case ln_first l of
        Poisoned _ \<Rightarrow> (s, l, Inl poisoned)
      | Guarded first \<Rightarrow>
          (let l1 = l\<lparr>ln_first := Guarded None\<rparr>
           in case (case first of Some h \<Rightarrow> (s, Inr h) | None \<Rightarrow> create_instance A (ln_endpoint l) s) of
                (s1, Inl e) \<Rightarrow> (s1, l1, Inl e)
              | (s1, Inr h) \<Rightarrow>
                  (case pending_register h l1 of
                     Inl e \<Rightarrow> (drop_pipe A h s1, l1, Inl e)
                   | Inr l2 \<Rightarrow>
                       (case connect_pipe A h s1 of
                          (s2, Inl e) \<Rightarrow> (drop_pipe A h s2, pending_drop h l2, Inl e)
                        | (s2, Inr _) \<Rightarrow> (flag_store A (ConnectionFlag h) False s2, pending_drop h l2, Inr h)))))"

fun cancel_handles :: "'w win_api \<Rightarrow> handle list \<Rightarrow> 'w win \<Rightarrow> 'w win \<times> (win_error, unit) result" where
  "cancel_handles A [] s = (s, Inr ())"
| "cancel_handles A (h # hs) s =
     (case cancel_handle A h s of
        (s1, Inl e) \<Rightarrow> (s1, Inl e)
      | (s1, Inr _) \<Rightarrow> cancel_handles A hs s1)"

definition cancel_pending :: "'w win_api \<Rightarrow> listener \<Rightarrow> 'w win \<Rightarrow> 'w win \<times> (win_error, unit) result" where
  "cancel_pending A l s =
     (let s1 = flag_store A ListenerFlag True s
      in case ln_pending l of
           Poisoned _ \<Rightarrow> (s1, Inl poisoned)
         | Guarded hs \<Rightarrow> cancel_handles A hs s1)"

text \<open>The last clone of a listener drops the instance no accept has taken.\<close>

definition drop_listener :: "'w win_api \<Rightarrow> listener \<Rightarrow> 'w win \<Rightarrow> 'w win" where
  "drop_listener A l s = (case ln_first l of
        Guarded (Some h) \<Rightarrow> drop_pipe A h s | Poisoned (Some h) \<Rightarrow> drop_pipe A h s | _ \<Rightarrow> s)"

section \<open>The discipline of the calls\<close>

text \<open>
  A pipe only \<open>user\<close> can open, from this machine, whose handle no child inherits and whose name ends
  with its first NUL.
\<close>

definition private_request :: "sid \<Rightarrow> pipe_request \<Rightarrow> bool" where
  "private_request user req \<longleftrightarrow>
     np_dacl req = Some [(user, GenericAll)] \<and> RejectRemoteClients \<in> set (np_pipe_mode req) \<and> \<not> np_inherit req
     \<and> np_name req \<noteq> [] \<and> last (np_name req) = 0 \<and> 0 \<notin> set (butlast (np_name req))"

text \<open>
  A call replayed on the handles that are open and the operations in flight. It is refused when it
  uses a handle that is not open, closes a pipe or an event under an operation in flight, which
  would free the \<open>OVERLAPPED\<close> the system still writes to, or creates a pipe that is not private.
\<close>

type_synonym win_resources = "handle multiset \<times> (handle \<times> handle) multiset"

fun replay_call :: "sid \<Rightarrow> win_call \<Rightarrow> win_resources \<Rightarrow> win_resources option" where
  "replay_call user (OpenedToken h) (H, F) = Some (add_mset h H, F)"
| "replay_call user (AskedToken h) (H, F) = (if h \<in># H then Some (H, F) else None)"
| "replay_call user (CreatedPipe h req) (H, F) = (if private_request user req then Some (add_mset h H, F) else None)"
| "replay_call user (CreatedEvent h) (H, F) = Some (add_mset h H, F)"
| "replay_call user (StartedIo p e in_flight) (H, F) =
     (if p \<in># H \<and> e \<in># H then Some (H, if in_flight then add_mset (p, e) F else F) else None)"
| "replay_call user (WaitedIo p e) (H, F) = (if p \<in># H \<and> e \<in># H then Some (H, F - {#(p, e)#}) else None)"
| "replay_call user (CancelledIo p e) (H, F) =
     (if p \<in># H \<and> (case e of None \<Rightarrow> True | Some x \<Rightarrow> x \<in># H) then Some (H, F) else None)"
| "replay_call user (DisconnectedPipe p) (H, F) = (if p \<in># H then Some (H, F) else None)"
| "replay_call user (ClosedHandle h) (H, F) =
     (if h \<in># H \<and> h \<notin># image_mset fst F + image_mset snd F then Some (H - {#h#}, F) else None)"

fun replay :: "sid \<Rightarrow> win_call list \<Rightarrow> win_resources \<Rightarrow> win_resources option" where
  "replay user [] r = Some r"
| "replay user (c # cs) r = (case replay_call user c r of None \<Rightarrow> None | Some r1 \<Rightarrow> replay user cs r1)"

definition holds :: "sid \<Rightarrow> handle multiset \<Rightarrow> (handle \<times> handle) multiset \<Rightarrow> 'w win \<Rightarrow> bool" where
  "holds user H F s \<longleftrightarrow> replay user (win_calls s) ({#}, {#}) = Some (H, F)"

text \<open>The token of the process names \<open>user\<close>, whenever it is asked.\<close>

definition token_names :: "'w win_api \<Rightarrow> sid \<Rightarrow> bool" where
  "token_names A user \<longleftrightarrow> (\<forall>x h n. snd (wa_token_user A x h n) = None \<or> snd (wa_token_user A x h n) = Some user)"

named_theorems holds_rules

lemma replay_append: "replay user (a @ b) r = (case replay user a r of None \<Rightarrow> None | Some r1 \<Rightarrow> replay user b r1)"
  by (induction a arbitrary: r) (auto split: option.split)

lemma holds_extend:
  assumes "holds user H F s" and "win_calls s' = win_calls s @ cs" and "replay user cs (H, F) = Some (H', F')"
  shows "holds user H' F' s'"
  using assms by (simp add: holds_def replay_append)

lemma holds_unlogged [holds_rules]: "invoke f unlogged s = (s', r) \<Longrightarrow> holds user H F s \<Longrightarrow> holds user H F s'"
  by (erule holds_extend [of _ _ _ _ _ "[]"]) (auto simp: invoke_def unlogged_def split: prod.splits)

lemma holds_asked [holds_rules]:
  "invoke f (asked_token h) s = (s', r) \<Longrightarrow> holds user (add_mset h H) F s \<Longrightarrow> holds user (add_mset h H) F s'"
  by (erule holds_extend [of _ _ _ _ _ "[AskedToken h]"]) (auto simp: invoke_def asked_token_def split: prod.splits)

lemma holds_opened_None [holds_rules]: "invoke f (opened c) s = (s', None) \<Longrightarrow> holds user H F s \<Longrightarrow> holds user H F s'"
  by (erule holds_extend [of _ _ _ _ _ "[]"]) (auto simp: invoke_def opened_def split: prod.splits)

lemma invoke_calls: "invoke f record_of s = (s', r) \<Longrightarrow> \<exists>x. win_calls s' = win_calls s @ record_of x r"
  by (auto simp: invoke_def split: prod.splits)

lemma holds_opened:
  assumes "invoke f (opened c) s = (s', Some h)" and "holds user H F s" and "replay_call user (c h) (H, F) = Some (add_mset h H, F)"
  shows "holds user (add_mset h H) F s'"
  using invoke_calls [OF assms(1)] assms(2,3) by (auto intro: holds_extend simp: opened_def)

lemma holds_event [holds_rules]:
  "invoke f (opened CreatedEvent) s = (s', Some h) \<Longrightarrow> holds user H F s \<Longrightarrow> holds user (add_mset h H) F s'"
  by (erule holds_opened) simp_all

lemma holds_pipe:
  "invoke f (opened (\<lambda>h. CreatedPipe h req)) s = (s', Some h) \<Longrightarrow> holds user H F s \<Longrightarrow> private_request user req \<Longrightarrow>
     holds user (add_mset h H) F s'"
  by (erule holds_opened) simp_all

lemma holds_token [holds_rules]:
  "invoke f (opened OpenedToken) s = (s', Some h) \<Longrightarrow> holds user H F s \<Longrightarrow> holds user (add_mset h H) F s'"
  by (erule holds_opened) simp_all

lemma holds_close [holds_rules]: "holds user (add_mset h H) {#} s \<Longrightarrow> holds user H {#} (close_handle A h s)"
  by (erule holds_extend [of _ _ _ _ _ "[ClosedHandle h]"]) (simp_all add: close_handle_def invoke_def)

lemma holds_cancel_ex:
  assumes "holds user H F s" and "h \<in># H" and "case e of None \<Rightarrow> True | Some x \<Rightarrow> x \<in># H"
  shows "holds user H F (fst (cancel_ex A h e s))"
  using assms(1)
  by (rule holds_extend [of _ _ _ _ _ "[CancelledIo h e]"])
    (use assms(2,3) in \<open>simp_all add: cancel_ex_def invoke_def split: prod.split\<close>)

lemma holds_flag_store [holds_rules]: "holds user H F s \<Longrightarrow> holds user H F (flag_store A flag b s)"
  by (simp add: holds_def flag_store_def invoke_def unlogged_def)

lemma holds_drop_pipe [holds_rules]: "holds user (add_mset h H) {#} s \<Longrightarrow> holds user H {#} (drop_pipe A h s)"
  by (simp add: drop_pipe_def holds_close)

lemma holds_drop_connection [holds_rules]:
  assumes "holds user (add_mset h H) {#} s"
  shows "holds user H {#} (drop_connection A h s)"
proof -
  have "holds user (add_mset h H) {#} (fst (invoke (\<lambda>x. (wa_disconnect A x h, ())) (\<lambda>x r. [DisconnectedPipe h]) s))"
    using assms by (rule holds_extend [of _ _ _ _ _ "[DisconnectedPipe h]"]) (simp_all add: invoke_def)
  then show ?thesis by (simp add: drop_connection_def holds_drop_pipe)
qed

section \<open>Every operation keeps the discipline\<close>

lemma token_user_current_holds:
  assumes "token_user_current A s = (s', r)" and "holds user H {#} s" and "token_names A user"
  shows "case r of Inl e \<Rightarrow> holds user H {#} s' | Inr (token, x) \<Rightarrow> holds user (add_mset token H) {#} s' \<and> x = user"
proof -
  have named: "invoke (\<lambda>x. wa_token_user A x t n) (asked_token t) s1 = (s2, Some u) \<Longrightarrow> u = user" for t n s1 s2 u
    using assms(3) by (auto simp: token_names_def invoke_def split: prod.splits) (metis option.distinct(1) option.inject snd_conv)
  show ?thesis
    using assms(1,2) unfolding token_user_current_def
    by (auto simp: Let_def split: prod.splits option.splits if_splits; blast intro: holds_rules dest: named)
qed

lemma user_dacl_holds:
  assumes "user_dacl A user s = (s', r)" and "holds user H F s"
  shows "holds user H F s' \<and> (case r of Inl e \<Rightarrow> True | Inr dacl \<Rightarrow> dacl = [(user, GenericAll)])"
  using assms unfolding user_dacl_def
  by (auto split: prod.splits bool.splits if_splits; blast intro: holds_unlogged)

lemma current_user_holds:
  assumes "current_user A s = (s', r)" and "holds user H {#} s" and "token_names A user"
  shows "holds user H {#} s' \<and> (case r of Inl e \<Rightarrow> True | Inr dacl \<Rightarrow> dacl = [(user, GenericAll)])"
proof -
  obtain s1 r1 where 1: "token_user_current A s = (s1, r1)" by fastforce
  note t = token_user_current_holds [OF 1 assms(2,3)]
  show ?thesis
  proof (cases r1)
    case (Inl e)
    with 1 t assms(1) show ?thesis by (auto simp: current_user_def)
  next
    case (Inr ts)
    obtain token where r1: "r1 = Inr (token, user)" and h: "holds user (add_mset token H) {#} s1"
      using Inr t by (cases ts) auto
    obtain s2 r2 where 2: "user_dacl A user s1 = (s2, r2)" by fastforce
    from user_dacl_holds [OF 2 h] 1 2 r1 assms(1) show ?thesis
      by (auto simp: current_user_def intro: holds_close)
  qed
qed

definition terminated :: "16 word list \<Rightarrow> bool" where
  "terminated name \<longleftrightarrow> name \<noteq> [] \<and> last name = 0 \<and> 0 \<notin> set (butlast name)"

lemma create_instance_holds:
  assumes "create_instance A endpoint s = (s', r)" and "holds user H {#} s" and "token_names A user" and "terminated endpoint"
  shows "case r of Inl e \<Rightarrow> holds user H {#} s' | Inr h \<Rightarrow> holds user (add_mset h H) {#} s'"
proof -
  obtain s1 r1 where 1: "current_user A s = (s1, r1)" by fastforce
  note c = current_user_holds [OF 1 assms(2,3)]
  have priv: "private_request user (pipe_request_for endpoint [(user, GenericAll)])"
    using assms(4) by (simp add: private_request_def pipe_request_for_def terminated_def)
  show ?thesis
  proof (cases r1)
    case (Inl e)
    with 1 c assms(1) show ?thesis by (auto simp: create_instance_def)
  next
    case (Inr dacl)
    with 1 c assms(1) priv show ?thesis
      by (auto simp: create_instance_def split: prod.splits option.splits intro: holds_opened_None holds_pipe)
  qed
qed

text \<open>An operation of the pipe \<open>h\<close>, its event open, in flight or not.\<close>

definition io_holds :: "sid \<Rightarrow> handle multiset \<Rightarrow> pending_io \<Rightarrow> bool \<Rightarrow> 'w win \<Rightarrow> bool" where
  "io_holds user H op in_flight s \<longleftrightarrow>
     pio_handle op \<in># H
     \<and> holds user (add_mset (pio_event op) H) (if in_flight then {#(pio_handle op, pio_event op)#} else {#}) s"

lemma pending_io_new_holds:
  assumes "pending_io_new A h s = (s', r)" and "holds user H {#} s" and "h \<in># H"
  shows "case r of Inl e \<Rightarrow> holds user H {#} s' | Inr op \<Rightarrow> io_holds user H op False s' \<and> pio_handle op = h"
  using assms
  by (auto simp: pending_io_new_def io_holds_def split: prod.splits option.splits intro: holds_opened_None holds_event)

lemma started_io_holds:
  assumes "invoke f (\<lambda>x r. started_io A op x (g r)) s = (s', r)" and "io_holds user H op False s"
  shows "io_holds user H op (\<not> g r \<and> wa_last_error A (win_world s') = ERROR_IO_PENDING) s'"
proof -
  have "win_calls s' = win_calls s @ started_io A op (win_world s') (g r)"
    using assms(1) by (auto simp: invoke_def split: prod.splits)
  with assms(2) show ?thesis
    unfolding io_holds_def by (auto intro: holds_extend simp: started_io_def)
qed

lemma take_cancel_holds:
  assumes "io_holds user H op in_flight s"
  shows "io_holds user H op in_flight (take_cancel A flag op s)"
proof -
  obtain s1 b where 1: "invoke (\<lambda>x. wa_flag_swap A x flag) unlogged s = (s1, b)" by fastforce
  with assms have "io_holds user H op in_flight s1" by (auto simp: io_holds_def intro: holds_unlogged)
  then show ?thesis
    by (auto simp: take_cancel_def 1 pending_io_cancel_def io_holds_def intro!: holds_cancel_ex)
qed

lemma complete_holds:
  assumes "complete A op s = (s', op', r)" and "io_holds user H op in_flight s"
  shows "io_holds user H op' False s' \<and> \<not> pio_pending op'"
proof -
  obtain s1 n where 1: "overlapped_result A op s = (s1, n)" by fastforce
  then have "win_calls s1 = win_calls s @ [WaitedIo (pio_handle op) (pio_event op)]"
    by (auto simp: overlapped_result_def invoke_def split: prod.splits)
  with assms(2) have "io_holds user H op False s1"
    by (auto simp: io_holds_def intro: holds_extend split: if_splits)
  with assms(1) 1 show ?thesis by (auto simp: complete_def io_holds_def split: option.splits)
qed

lemma pending_io_drop_holds:
  "io_holds user H op False s \<Longrightarrow> \<not> pio_pending op \<Longrightarrow> holds user H {#} (pending_io_drop A op s)"
  by (simp add: pending_io_drop_def io_holds_def holds_close)

lemma finish_without_wait_holds:
  "io_holds user H op in_flight s \<Longrightarrow> \<not> in_flight \<Longrightarrow>
     io_holds user H (finish_without_wait op) False s \<and> \<not> pio_pending (finish_without_wait op)"
  by (simp add: finish_without_wait_def io_holds_def)

lemma finish_io_holds:
  assumes "finish_io A started start_err n op s = (s', op', r)" and "io_holds user H op in_flight s"
    and "in_flight = (start_err = Some ERROR_IO_PENDING)" and "(start_err = None) = started"
  shows "io_holds user H op' False s' \<and> \<not> pio_pending op'"
proof (cases "start_err = Some ERROR_IO_PENDING")
  case True
  with assms(1,4) have "complete A op s = (s', op', r)" by (auto simp: finish_io_def)
  then show ?thesis using assms(2) by (rule complete_holds)
next
  case False
  with assms show ?thesis
    using finish_without_wait_holds [OF assms(2)] by (auto simp: finish_io_def split: option.splits if_splits)
qed

text \<open>The operation of a read or write: the \<open>expect\<close> of \<open>finish_io\<close> always has its error.\<close>

lemma transfer_expects: "(start_error A started s = None) = started"
  by (simp add: start_error_def)

lemma transfer_holds:
  assumes "transfer A start h s = (s', r)" and "holds user H {#} s" and "h \<in># H"
  shows "holds user H {#} s'"
proof -
  obtain s1 r1 where 1: "pending_io_new A h s = (s1, r1)" by fastforce
  note n = pending_io_new_holds [OF 1 assms(2,3)]
  show ?thesis
  proof (cases r1)
    case (Inl e)
    with 1 n assms(1) show ?thesis by (auto simp: transfer_def)
  next
    case (Inr op)
    obtain s2 started k where
      2: "invoke (\<lambda>x. start x h (pio_event op)) (\<lambda>x r. started_io A op x (fst r)) s1 = (s2, started, k)"
      by (metis prod.exhaust)
    obtain s4 op1 r4 where
      3: "finish_io A started (start_error A started s2) k op (take_cancel A (ConnectionFlag h) op s2) = (s4, op1, r4)"
      by (metis prod.exhaust)
    have "io_holds user H op (\<not> started \<and> wa_last_error A (win_world s2) = ERROR_IO_PENDING) s2"
      using started_io_holds [OF 2, of user H] n Inr by simp
    then have f: "io_holds user H op (start_error A started s2 = Some ERROR_IO_PENDING) (take_cancel A (ConnectionFlag h) op s2)"
      by (intro take_cancel_holds) (cases started; simp add: start_error_def)
    from finish_io_holds [OF 3 this refl transfer_expects] have "holds user H {#} (pending_io_drop A op1 s4)"
      by (auto intro: pending_io_drop_holds)
    with assms(1) 1 2 3 Inr show ?thesis by (simp add: transfer_def Let_def)
  qed
qed

lemma pipe_read_holds: "pipe_read A h len s = (s', r) \<Longrightarrow> holds user H {#} s \<Longrightarrow> h \<in># H \<Longrightarrow> holds user H {#} s'"
  by (auto simp: pipe_read_def split: if_splits intro: transfer_holds)

lemma pipe_write_holds: "pipe_write A h buffer s = (s', r) \<Longrightarrow> holds user H {#} s \<Longrightarrow> h \<in># H \<Longrightarrow> holds user H {#} s'"
  by (auto simp: pipe_write_def split: if_splits intro: transfer_holds)

lemma cancel_handle_holds:
  assumes "cancel_handle A h s = (s', r)" and "holds user H F s" and "h \<in># H"
  shows "holds user H F s'"
proof -
  obtain s1 b where 1: "cancel_ex A h None s = (s1, b)" by fastforce
  then have "holds user H F s1" using holds_cancel_ex [OF assms(2,3), of None A] by simp
  with assms(1) 1 show ?thesis by (auto simp: cancel_handle_def Let_def split: bool.splits)
qed

lemma cancel_handles_holds:
  "cancel_handles A hs s = (s', r) \<Longrightarrow> holds user H F s \<Longrightarrow> set hs \<subseteq> set_mset H \<Longrightarrow> holds user H F s'"
proof (induction hs arbitrary: s)
  case (Cons h hs)
  obtain s1 r1 where 1: "cancel_handle A h s = (s1, r1)" by fastforce
  then have h: "holds user H F s1" using cancel_handle_holds Cons.prems(2,3) by fastforce
  show ?case
  proof (cases r1)
    case (Inl e)
    with 1 h Cons.prems(1) show ?thesis by simp
  next
    case (Inr u)
    with 1 Cons.prems(1) have "cancel_handles A hs s1 = (s', r)" by simp
    with Cons.IH h Cons.prems(3) show ?thesis by simp
  qed
qed simp

lemma connect_pipe_holds:
  assumes "connect_pipe A h s = (s', r)" and "holds user H {#} s" and "h \<in># H"
  shows "holds user H {#} s'"
proof -
  obtain s1 r1 where 1: "pending_io_new A h s = (s1, r1)" by fastforce
  note n = pending_io_new_holds [OF 1 assms(2,3)]
  show ?thesis
  proof (cases r1)
    case (Inl e)
    with 1 n assms(1) show ?thesis by (auto simp: connect_pipe_def)
  next
    case (Inr op)
    obtain s2 linked where 2: "invoke (\<lambda>x. wa_connect A x h (pio_event op)) (started_io A op) s1 = (s2, linked)"
      by fastforce
    define s3 where "s3 = take_cancel A ListenerFlag op s2"
    have "io_holds user H op (\<not> linked \<and> wa_last_error A (win_world s2) = ERROR_IO_PENDING) s2"
      using started_io_holds [of _ A op "\<lambda>r. r" s1 s2 linked user H] 2 n Inr by simp
    then have f: "io_holds user H op (start_error A linked s2 = Some ERROR_IO_PENDING) s3"
      unfolding s3_def by (intro take_cancel_holds) (cases linked; simp add: start_error_def)
    obtain s4 op1 r4 where 3: "complete A op s3 = (s4, op1, r4)" by (metis prod.exhaust)
    have c: "io_holds user H op1 False s4 \<and> \<not> pio_pending op1" using 3 f by (rule complete_holds)
    have w: "start_error A linked s2 \<noteq> Some ERROR_IO_PENDING \<Longrightarrow> holds user H {#} (pending_io_drop A (finish_without_wait op) s3)"
      using finish_without_wait_holds [OF f] by (auto intro: pending_io_drop_holds)
    from assms(1) 1 2 3 Inr c w show ?thesis
      by (auto simp: connect_pipe_def Let_def ERROR_IO_PENDING_def ERROR_PIPE_CONNECTED_def simp flip: s3_def
          split: option.splits if_splits intro: pending_io_drop_holds)
  qed
qed

text \<open>What a listener and the connections of a process own.\<close>

fun mutex_content :: "'a mutex \<Rightarrow> 'a" where
  "mutex_content (Poisoned x) = x"
| "mutex_content (Guarded x) = x"

definition first_owned :: "listener \<Rightarrow> handle multiset" where
  "first_owned l = (case mutex_content (ln_first l) of None \<Rightarrow> {#} | Some h \<Rightarrow> {#h#})"

lemma swap_remove_last: "swap_remove (length xs) (xs @ [x]) = xs"
  by (simp add: swap_remove_def)

lemma mset_swap_remove:
  assumes "i < length xs"
  shows "add_mset (xs ! i) (mset (swap_remove i xs)) = mset xs"
proof (cases xs rule: rev_cases)
  case (snoc ys y)
  with assms show ?thesis
    by (cases "i = length ys") (auto simp: swap_remove_def mset_update nth_append multiset_eq_iff)
qed (use assms in simp)

lemma pending_drop_register:
  assumes "pending_register h l = Inr l'"
  shows "ln_first (pending_drop h l') = ln_first l \<and> ln_endpoint (pending_drop h l') = ln_endpoint l
    \<and> mset (mutex_content (ln_pending (pending_drop h l'))) = mset (mutex_content (ln_pending l))"
proof -
  obtain hs where l: "ln_pending l = Guarded hs" "l' = l\<lparr>ln_pending := Guarded (hs @ [h])\<rparr>"
    using assms by (auto simp: pending_register_def split: mutex.splits)
  obtain i where i: "position (\<lambda>x. x = h) (hs @ [h]) = Some i"
    using position_None_iff [of "\<lambda>x. x = h" "hs @ [h]"] by fastforce
  then have "i < length (hs @ [h])" "(hs @ [h]) ! i = h"
    by (simp_all add: position_Some)
  then have "mset (swap_remove i (hs @ [h])) = mset hs"
    using mset_swap_remove [of i "hs @ [h]"] by simp
  with l i show ?thesis by (simp add: pending_drop_def)
qed

lemma accept_holds:
  assumes "accept A l s = (s', l', r)" and "holds user (first_owned l + C) {#} s" and "token_names A user"
    and "terminated (ln_endpoint l)"
  shows "holds user (first_owned l' + C + (case r of Inl e \<Rightarrow> {#} | Inr h \<Rightarrow> {#h#})) {#} s'
    \<and> ln_endpoint l' = ln_endpoint l"
proof (cases "ln_first l")
  case (Poisoned x)
  with assms(1,2) show ?thesis by (auto simp: accept_def)
next
  case (Guarded first)
  let ?l1 = "l\<lparr>ln_first := Guarded None\<rparr>"
  have own1: "first_owned ?l1 = {#}" by (simp add: first_owned_def)
  obtain s1 r1 where 1: "(case first of Some h \<Rightarrow> (s, Inr h) | None \<Rightarrow> create_instance A (ln_endpoint l) s) = (s1, r1)"
    by (metis prod.exhaust)
  have c: "case r1 of Inl e \<Rightarrow> holds user C {#} s1 | Inr h \<Rightarrow> holds user (add_mset h C) {#} s1"
  proof (cases first)
    case None
    with Guarded assms(2) have "holds user C {#} s" by (simp add: first_owned_def)
    from create_instance_holds [OF _ this assms(3,4)] 1 None show ?thesis by simp
  next
    case (Some h)
    with Guarded assms(2) 1 show ?thesis by (auto simp: first_owned_def)
  qed
  show ?thesis
  proof (cases r1)
    case (Inl e)
    with 1 Guarded assms(1) c own1 show ?thesis by (auto simp: accept_def)
  next
    case (Inr h)
    with c have h: "holds user (add_mset h C) {#} s1" by simp
    show ?thesis
    proof (cases "pending_register h ?l1")
      case (Inl e)
      with 1 Inr Guarded assms(1) own1 holds_drop_pipe [OF h] show ?thesis by (auto simp: accept_def)
    next
      case reg: (Inr l2)
      have own2: "first_owned (pending_drop h l2) = {#}" "ln_endpoint (pending_drop h l2) = ln_endpoint l"
        using pending_drop_register [OF reg] own1 by (simp_all add: first_owned_def)
      obtain s2 r2 where 2: "connect_pipe A h s1 = (s2, r2)" by fastforce
      have h2: "holds user (add_mset h C) {#} s2" using connect_pipe_holds [OF 2 h] by simp
      show ?thesis
      proof (cases r2)
        case (Inl e)
        with 1 2 Inr Guarded assms(1) reg own2 holds_drop_pipe [OF h2] show ?thesis by (auto simp: accept_def)
      next
        case c2: (Inr u)
        with 1 2 Inr Guarded assms(1) reg own2 holds_flag_store [OF h2] show ?thesis by (auto simp: accept_def)
      qed
    qed
  qed
qed

lemma drop_listener_holds:
  "holds user (first_owned l + C) {#} s \<Longrightarrow> holds user C {#} (drop_listener A l s)"
  by (auto simp: drop_listener_def first_owned_def intro: holds_drop_pipe split: mutex.splits option.splits)

section \<open>A whole life of a listener and its connections\<close>

datatype pipe_op =
    DoAccept
  | DoRead nat nat
  | DoWrite nat bytes
  | DoCancelIo nat
  | DoCancelPending
  | DropConnection nat
  | DropListener

type_synonym 'w pipe_state = "listener option \<times> handle list \<times> 'w win"

fun pipe_op_step :: "'w win_api \<Rightarrow> pipe_op \<Rightarrow> 'w pipe_state \<Rightarrow> 'w pipe_state" where
  "pipe_op_step A DoAccept (l, cs, s) =
     (case l of
        None \<Rightarrow> (l, cs, s)
      | Some x \<Rightarrow>
          (case accept A x s of
             (s1, x1, Inl e) \<Rightarrow> (Some x1, cs, s1)
           | (s1, x1, Inr h) \<Rightarrow> (Some x1, cs @ [h], s1)))"
| "pipe_op_step A (DoRead i n) (l, cs, s) = (l, cs, if i < length cs then fst (pipe_read A (cs ! i) n s) else s)"
| "pipe_op_step A (DoWrite i bs) (l, cs, s) = (l, cs, if i < length cs then fst (pipe_write A (cs ! i) bs s) else s)"
| "pipe_op_step A (DoCancelIo i) (l, cs, s) = (l, cs, if i < length cs then fst (cancel_io A (cs ! i) s) else s)"
| "pipe_op_step A DoCancelPending (l, cs, s) =
     (l, cs, case l of None \<Rightarrow> s | Some x \<Rightarrow> fst (cancel_pending A x s))"
| "pipe_op_step A (DropConnection i) (l, cs, s) =
     (if i < length cs then (l, take i cs @ drop (Suc i) cs, drop_connection A (cs ! i) s) else (l, cs, s))"
| "pipe_op_step A DropListener (l, cs, s) =
     (None, cs, case l of None \<Rightarrow> s | Some x \<Rightarrow> drop_listener A x s)"

definition pipe_session :: "'w win_api \<Rightarrow> string \<Rightarrow> pipe_op list \<Rightarrow> 'w win \<Rightarrow> 'w pipe_state" where
  "pipe_session A endpoint ops s =
     (case pipe_bind A endpoint s of
        (s1, bound, Inl e) \<Rightarrow> (None, [], s1)
      | (s1, bound, Inr l) \<Rightarrow> fold (pipe_op_step A) ops (Some l, [], s1))"

definition pipe_teardown :: "'w win_api \<Rightarrow> 'w pipe_state \<Rightarrow> 'w win" where
  "pipe_teardown A st =
     (case st of (l, cs, s) \<Rightarrow>
        fold (drop_connection A) cs (case l of None \<Rightarrow> s | Some x \<Rightarrow> drop_listener A x s))"

definition pipe_owned :: "'w pipe_state \<Rightarrow> handle multiset" where
  "pipe_owned st = (case st of (l, cs, s) \<Rightarrow> (case l of None \<Rightarrow> {#} | Some x \<Rightarrow> first_owned x) + mset cs)"

definition pipe_ok :: "sid \<Rightarrow> 'w pipe_state \<Rightarrow> bool" where
  "pipe_ok user st \<longleftrightarrow>
     holds user (pipe_owned st) {#} (snd (snd st))
     \<and> (case fst st of None \<Rightarrow> True | Some x \<Rightarrow> terminated (ln_endpoint x) \<and> mutex_content (ln_pending x) = [])"

lemma accept_pending:
  assumes "accept A l s = (s', l', r)"
  shows "mset (mutex_content (ln_pending l')) = mset (mutex_content (ln_pending l))"
proof (cases "ln_first l")
  case (Guarded first)
  have "mset (mutex_content (ln_pending (pending_drop h l2))) = mset (mutex_content (ln_pending l))"
    if "pending_register h (l\<lparr>ln_first := Guarded None\<rparr>) = Inr l2" for h l2
    using pending_drop_register [OF that] by simp
  with assms Guarded show ?thesis by (auto simp: accept_def Let_def split: prod.splits sum.splits)
qed (use assms in \<open>simp add: accept_def\<close>)

lemma mset_remove_nth: "i < length cs \<Longrightarrow> mset cs = add_mset (cs ! i) (mset (take i cs @ drop (Suc i) cs))"
  by (metis id_take_nth_drop mset.simps(2) mset_append union_mset_add_mset_right)

lemma pipe_op_step_ok:
  assumes "pipe_ok user (l, cs, s)" and "token_names A user"
  shows "pipe_ok user (pipe_op_step A op (l, cs, s))"
proof (cases op)
  case DoAccept
  show ?thesis
  proof (cases l)
    case (Some x)
    obtain s1 x1 r where 1: "accept A x s = (s1, x1, r)" by (metis prod.exhaust)
    from assms Some have "holds user (first_owned x + mset cs) {#} s" "terminated (ln_endpoint x)"
      "mutex_content (ln_pending x) = []" by (simp_all add: pipe_ok_def pipe_owned_def)
    with accept_holds [OF 1 _ assms(2)] accept_pending [OF 1] show ?thesis
      by (cases r) (auto simp: DoAccept Some 1 pipe_ok_def pipe_owned_def)
  qed (use assms DoAccept in simp)
next
  case (DoRead i n)
  have "i < length cs \<Longrightarrow> cs ! i \<in># pipe_owned (l, cs, s)" by (simp add: pipe_owned_def)
  with assms DoRead show ?thesis
    by (cases "pipe_read A (cs ! i) n s") (auto simp: pipe_ok_def pipe_owned_def intro: pipe_read_holds)
next
  case (DoWrite i bs)
  have "i < length cs \<Longrightarrow> cs ! i \<in># pipe_owned (l, cs, s)" by (simp add: pipe_owned_def)
  with assms DoWrite show ?thesis
    by (cases "pipe_write A (cs ! i) bs s") (auto simp: pipe_ok_def pipe_owned_def intro: pipe_write_holds)
next
  case (DoCancelIo i)
  have "holds user (pipe_owned (l, cs, s)) {#} (fst (cancel_io A (cs ! i) s))" if "i < length cs"
  proof (cases "cancel_io A (cs ! i) s")
    case (Pair s1 r)
    moreover have "cs ! i \<in># pipe_owned (l, cs, s)" using that by (simp add: pipe_owned_def)
    ultimately show ?thesis
      using assms(1) by (auto simp: cancel_io_def pipe_ok_def intro: cancel_handle_holds holds_flag_store)
  qed
  with assms DoCancelIo show ?thesis by (auto simp: pipe_ok_def pipe_owned_def)
next
  case DoCancelPending
  have "holds user H {#} (fst (cancel_pending A x s))" if "holds user H {#} s" "mutex_content (ln_pending x) = []" for x H
    using that by (cases "ln_pending x") (auto simp: cancel_pending_def Let_def intro: holds_flag_store)
  with assms DoCancelPending show ?thesis by (cases l) (auto simp: pipe_ok_def pipe_owned_def)
next
  case (DropConnection i)
  have "holds user (pipe_owned (l, take i cs @ drop (Suc i) cs, s)) {#} (drop_connection A (cs ! i) s)" if "i < length cs"
    using assms(1) that by (intro holds_drop_connection) (simp add: pipe_ok_def pipe_owned_def mset_remove_nth [OF that])
  with assms DropConnection show ?thesis by (auto simp: pipe_ok_def pipe_owned_def)
next
  case DropListener
  with assms show ?thesis
    by (cases l) (auto simp: pipe_ok_def pipe_owned_def intro: drop_listener_holds)
qed

lemma fold_step_ok:
  "pipe_ok user st \<Longrightarrow> token_names A user \<Longrightarrow> pipe_ok user (fold (pipe_op_step A) ops st)"
proof (induction ops arbitrary: st)
  case (Cons op ops)
  have "pipe_ok user (pipe_op_step A op st)" using Cons.prems by (cases st) (simp only: pipe_op_step_ok)
  with Cons show ?case by simp
qed simp

lemma validate_terminated:
  "validate_endpoint endpoint = Inr u \<Longrightarrow> terminated (encode_utf16 endpoint @ [0])"
  by (auto simp: validate_endpoint_def terminated_def split: if_splits)

lemma pipe_session_ok:
  assumes "holds user {#} {#} s" and "token_names A user"
  shows "pipe_ok user (pipe_session A endpoint ops s)"
proof (cases "validate_endpoint endpoint")
  case (Inl e)
  with assms(1) show ?thesis by (simp add: pipe_session_def pipe_bind_def pipe_ok_def pipe_owned_def)
next
  case (Inr u)
  let ?name = "encode_utf16 endpoint @ [0]"
  have name: "terminated ?name" using Inr by (rule validate_terminated)
  obtain s1 r1 where 1: "create_instance A ?name s = (s1, r1)" by fastforce
  note c = create_instance_holds [OF 1 assms name]
  show ?thesis
  proof (cases r1)
    case (Inl e)
    with c 1 Inr show ?thesis by (simp add: pipe_session_def pipe_bind_def pipe_ok_def pipe_owned_def)
  next
    case r1: (Inr h)
    with c have "holds user {#h#} {#} (flag_store A ListenerFlag False s1)" by (simp add: holds_flag_store)
    with name have "pipe_ok user (Some \<lparr>ln_endpoint = ?name, ln_first = Guarded (Some h), ln_pending = Guarded []\<rparr>, [],
        flag_store A ListenerFlag False s1)"
      by (simp add: pipe_ok_def pipe_owned_def first_owned_def)
    from fold_step_ok [OF this assms(2)] 1 r1 Inr show ?thesis by (simp add: pipe_session_def pipe_bind_def)
  qed
qed

lemma drop_connections_holds:
  "holds user (mset cs) {#} s \<Longrightarrow> holds user {#} {#} (fold (drop_connection A) cs s)"
  by (induction cs arbitrary: s) (auto intro: holds_drop_connection)

lemma pipe_teardown_holds: "pipe_ok user st \<Longrightarrow> holds user {#} {#} (pipe_teardown A st)"
  by (cases st)
    (auto simp: pipe_ok_def pipe_owned_def pipe_teardown_def intro!: drop_connections_holds intro: drop_listener_holds
      split: option.splits)

text \<open>
  The order of the calls of one operation: the event, the start, the cancellation when the flag was
  set, the wait when the start left the operation pending, and the event closed. The steps of
  \<open>io_step\<close> below are these, with what other threads do in between.
\<close>

lemma transfer_calls:
  assumes "transfer A start h s = (s', r)"
  shows "win_calls s' = win_calls s \<and> (\<exists>e. r = Inl e)
    \<or> (\<exists>e requested pending. win_calls s' = win_calls s @ [CreatedEvent e, StartedIo h e pending]
         @ (if requested then [CancelledIo h (Some e)] else []) @ (if pending then [WaitedIo h e] else []) @ [ClosedHandle e])"
proof (cases "pending_io_new A h s")
  case (Pair s1 r1)
  show ?thesis
  proof (cases r1)
    case (Inl e)
    with Pair have "win_calls s1 = win_calls s"
      by (auto simp: pending_io_new_def invoke_def opened_def split: prod.splits option.splits)
    moreover have "s' = s1" "r = Inl e" using assms Pair Inl by (simp_all add: transfer_def)
    ultimately show ?thesis by simp
  next
    case (Inr op)
    have op: "win_calls s1 = win_calls s @ [CreatedEvent (pio_event op)]" "pio_handle op = h" "pio_pending op"
      using Pair Inr by (auto simp: pending_io_new_def invoke_def opened_def split: prod.splits option.splits)
    obtain s2 started k where
      2: "invoke (\<lambda>x. start x h (pio_event op)) (\<lambda>x r. started_io A op x (fst r)) s1 = (s2, started, k)"
      by (metis prod.exhaust)
    define p where "p \<longleftrightarrow> \<not> started \<and> wa_last_error A (win_world s2) = ERROR_IO_PENDING"
    have s2: "win_calls s2 = win_calls s1 @ [StartedIo h (pio_event op) p]"
      using 2 op by (auto simp: invoke_def started_io_def p_def split: prod.splits)
    define s3 where "s3 = take_cancel A (ConnectionFlag h) op s2"
    obtain requested where s3: "win_calls s3 = win_calls s2 @ (if requested then [CancelledIo h (Some (pio_event op))] else [])"
    proof
      show "win_calls s3 = win_calls s2 @ (if snd (invoke (\<lambda>x. wa_flag_swap A x (ConnectionFlag h)) unlogged s2)
          then [CancelledIo h (Some (pio_event op))] else [])"
        using op by (auto simp: s3_def take_cancel_def pending_io_cancel_def cancel_ex_def invoke_def unlogged_def split: prod.splits)
    qed
    obtain s4 op1 r4 where 4: "finish_io A started (start_error A started s2) k op s3 = (s4, op1, r4)" by (metis prod.exhaust)
    have s4: "win_calls s4 = win_calls s3 @ (if p then [WaitedIo h (pio_event op)] else [])"
      "\<not> pio_pending op1" "pio_event op1 = pio_event op"
      using 4 op by (auto simp: finish_io_def start_error_def finish_without_wait_def complete_def overlapped_result_def
          invoke_def p_def split: prod.splits option.splits if_splits)
    have "s' = pending_io_drop A op1 s4" using assms Pair Inr 2 4 by (simp add: transfer_def Let_def s3_def)
    then have "win_calls s' = win_calls s4 @ [ClosedHandle (pio_event op)]"
      using s4 by (simp add: pending_io_drop_def close_handle_def invoke_def)
    with op s2 s3 s4(1) show ?thesis
      by (intro disjI2 exI [of _ "pio_event op"] exI [of _ requested] exI [of _ p]) simp
  qed
qed

section \<open>Which endpoints are valid\<close>

lemma word16_zero: "n < 65536 \<Longrightarrow> (of_nat n :: 16 word) = 0 \<longleftrightarrow> n = 0"
  by (auto simp: word_of_nat_eq_0_iff dest: dvd_imp_le)

lemma byte_nul: "byte_of c = 0 \<longleftrightarrow> CHR 0x00 = c"
proof -
  have "byte_of (CHR 0x00) = 0" by (simp add: byte_of_def)
  then show ?thesis by (metis byte_of_inject)
qed

lemma high_byte: "0x80 \<le> byte_of c \<Longrightarrow> CHR 0x00 \<noteq> c"
  by (auto simp: byte_of_def)

lemma supplementary_bound:
  fixes x y z w :: nat
  assumes "x \<le> 4" and "y \<le> 63" and "z \<le> 63" and "w \<le> 63"
  shows "((x * 64 + y) * 64 + z) * 64 + w - 0x10000 < 0x800 * 0x400"
proof -
  have "((x * 64 + y) * 64 + z) * 64 + w \<le> ((4 * 64 + 63) * 64 + 63) * 64 + 63"
    using assms by (intro add_le_mono mult_le_mono1)
  also have "\<dots> < 0x800 * 0x400" by simp
  finally show ?thesis by (rule less_imp_diff_less)
qed

lemma nul_in_utf16: "utf8_valid s \<Longrightarrow> 0 \<in> set (encode_utf16 s) \<longleftrightarrow> CHR 0x00 \<in> set s"
proof (induction s rule: utf8_valid.induct)
  case (2 a r)
  consider (one) "byte_of a < 0x80" | (two) "in_range 0xC2 0xDF a" | (three) "in_range 0xE0 0xEF a" | (four) "in_range 0xF0 0xF4 a"
    using 2(5) by (auto split: if_splits)
  then show ?case
  proof cases
    case one
    with 2 show ?thesis by (simp add: word16_zero byte_nul)
  next
    case two
    then obtain b r' where r: "r = b # r'" "second_ok a b" "utf8_valid r'"
      using 2(5) by (auto simp: in_range_def split: if_splits list.splits)
    have b: "0x80 \<le> byte_of b" "byte_of b \<le> 0xBF" using two r(2) by (auto simp: second_ok_def in_range_def split: if_splits)
    let ?n = "(byte_of a - 0xC0) * 64 + (byte_of b - 0x80)"
    have "?n < 65536" "?n \<noteq> 0" using two b by (auto simp: in_range_def)
    then have "(of_nat ?n :: 16 word) \<noteq> 0" by (simp only: word16_zero not_False_eq_True)
    moreover have "0 \<in> set (encode_utf16 r') \<longleftrightarrow> CHR 0x00 \<in> set r'" using 2(2) two r by (simp add: in_range_def)
    ultimately show ?thesis using two r b by (simp add: in_range_def high_byte del: of_nat_add of_nat_mult)
  next
    case three
    then obtain b c r' where r: "r = b # c # r'" "second_ok a b" "in_range 0x80 0xBF c" "utf8_valid r'"
      using 2(5) by (auto simp: in_range_def split: if_splits list.splits)
    have b: "0x80 \<le> byte_of b" "byte_of b \<le> 0xBF" "byte_of a = 0xE0 \<Longrightarrow> 0xA0 \<le> byte_of b"
      using three r(2) by (auto simp: second_ok_def in_range_def split: if_splits)
    let ?n = "((byte_of a - 0xE0) * 64 + (byte_of b - 0x80)) * 64 + (byte_of c - 0x80)"
    have "?n < 65536" using three b r(3) by (auto simp: in_range_def)
    moreover have "?n \<noteq> 0" using three b by (cases "byte_of a = 0xE0") (auto simp: in_range_def)
    ultimately have "(of_nat ?n :: 16 word) \<noteq> 0" by (simp only: word16_zero not_False_eq_True)
    moreover have "0 \<in> set (encode_utf16 r') \<longleftrightarrow> CHR 0x00 \<in> set r'" using 2(3) three r by (simp add: in_range_def)
    ultimately show ?thesis using three r b by (simp add: in_range_def high_byte del: of_nat_add of_nat_mult)
  next
    case four
    then obtain b c d r' where r: "r = b # c # d # r'" "second_ok a b" "in_range 0x80 0xBF c" "in_range 0x80 0xBF d" "utf8_valid r'"
      using 2(5) by (auto simp: in_range_def split: if_splits list.splits)
    have b: "0x80 \<le> byte_of b" "byte_of b \<le> 0xBF" "byte_of a = 0xF4 \<Longrightarrow> byte_of b \<le> 0x8F"
      using four r(2) by (auto simp: second_ok_def in_range_def split: if_splits)
    let ?n = "(((byte_of a - 0xF0) * 64 + (byte_of b - 0x80)) * 64 + (byte_of c - 0x80)) * 64 + (byte_of d - 0x80) - 0x10000"
    have "?n < 0x800 * 0x400" using four b(1,2) r(3,4) by (intro supplementary_bound) (auto simp: in_range_def)
    then have "?n div 0x400 < 0x800" by (rule less_mult_imp_div_less)
    moreover have "?n mod 0x400 < 0x400" by simp
    ultimately have u: "0xD800 + ?n div 0x400 < 65536" "0xDC00 + ?n mod 0x400 < 65536" by linarith+
    have "(of_nat (0xD800 + ?n div 0x400) :: 16 word) \<noteq> 0" using word16_zero [OF u(1)] by simp
    moreover have "(of_nat (0xDC00 + ?n mod 0x400) :: 16 word) \<noteq> 0" using word16_zero [OF u(2)] by simp
    moreover have "0 \<in> set (encode_utf16 r') \<longleftrightarrow> CHR 0x00 \<in> set r'"
      using 2(4) four r by (simp add: in_range_def)
    ultimately show ?thesis using four r b by (simp add: in_range_def high_byte Let_def del: of_nat_add)
  qed
qed simp

lemma validate_endpoint_iff:
  assumes "utf8_valid endpoint"
  shows "validate_endpoint endpoint = Inr () \<longleftrightarrow>
    (\<exists>name. endpoint = PIPE_PREFIX @ name \<and> name \<noteq> [] \<and> CHR 0x00 \<notin> set name)"
  using nul_in_utf16 [OF assms]
  by (auto simp: validate_endpoint_def starts_with_iff PIPE_PREFIX_def backslash_def)

section \<open>Cancellation from other threads\<close>

text \<open>
  The operations on one pipe and the calls of \<open>cancel_io\<close> on it, each in the steps other threads can
  see. An operation is prepared when its event exists, started by \<open>ReadFile\<close>, \<open>WriteFile\<close> or
  \<open>ConnectNamedPipe\<close>, waits once it has swapped the flag, and returns when its I/O is complete. A
  cancellation first stores the flag and then calls \<open>CancelIoEx\<close> on everything in flight; the I/O then
  remembers that it was cancelled, and the system completes it. \<open>cancel_pending\<close> and \<open>accept\<close> are the
  same steps on the flag of the listener, a pipe being registered from before the start until after
  the return. \<open>single\<close> says that an operation only begins when no other is under way.
\<close>

datatype overlapped_io = InFlight bool | Completed

datatype io_phase = IoPrepared | IoStarted overlapped_io | IoWaiting overlapped_io | IoReturned

record io_slot =
  sl_flag :: bool
  sl_ops :: "nat \<rightharpoonup> io_phase"
  sl_cancels :: "nat \<rightharpoonup> nat set"
  sl_due :: "nat set"

definition io_slot_new :: io_slot where
  "io_slot_new = \<lparr>sl_flag = False, sl_ops = Map.empty, sl_cancels = Map.empty, sl_due = {}\<rparr>"

fun cancelled_io :: "overlapped_io \<Rightarrow> overlapped_io" where
  "cancelled_io (InFlight c) = InFlight True"
| "cancelled_io Completed = Completed"

text \<open>What \<open>CancelIoEx\<close> without an \<open>OVERLAPPED\<close> does to an operation.\<close>

fun cancelled_phase :: "io_phase \<Rightarrow> io_phase" where
  "cancelled_phase (IoStarted io) = IoStarted (cancelled_io io)"
| "cancelled_phase (IoWaiting io) = IoWaiting (cancelled_io io)"
| "cancelled_phase p = p"

definition cancel_phases :: "(nat \<rightharpoonup> io_phase) \<Rightarrow> nat \<rightharpoonup> io_phase" where
  "cancel_phases ops = (\<lambda>t. map_option cancelled_phase (ops t))"

definition under_way :: "io_slot \<Rightarrow> nat set" where
  "under_way s = {t. \<exists>p. sl_ops s t = Some p \<and> p \<noteq> IoReturned}"

text \<open>
  \<open>sl_cancels\<close> keeps for each cancellation between its two steps the operations that were under way when
  it began; at its end they are due.
\<close>

inductive io_step :: "bool \<Rightarrow> io_slot \<Rightarrow> io_slot \<Rightarrow> bool" for single where
  prepare: "sl_ops s t = None \<Longrightarrow> (single \<Longrightarrow> under_way s = {}) \<Longrightarrow>
    io_step single s (s\<lparr>sl_ops := (sl_ops s)(t \<mapsto> IoPrepared)\<rparr>)"
| start: "sl_ops s t = Some IoPrepared \<Longrightarrow> io = InFlight False \<or> io = Completed \<Longrightarrow>
    io_step single s (s\<lparr>sl_ops := (sl_ops s)(t \<mapsto> IoStarted io)\<rparr>)"
| swap: "sl_ops s t = Some (IoStarted io) \<Longrightarrow>
    io_step single s (s\<lparr>sl_flag := False, sl_ops := (sl_ops s)(t \<mapsto> IoWaiting (if sl_flag s then cancelled_io io else io))\<rparr>)"
| system_started: "sl_ops s t = Some (IoStarted (InFlight c)) \<Longrightarrow>
    io_step single s (s\<lparr>sl_ops := (sl_ops s)(t \<mapsto> IoStarted Completed)\<rparr>)"
| system_waiting: "sl_ops s t = Some (IoWaiting (InFlight c)) \<Longrightarrow>
    io_step single s (s\<lparr>sl_ops := (sl_ops s)(t \<mapsto> IoWaiting Completed)\<rparr>)"
| return: "sl_ops s t = Some (IoWaiting Completed) \<Longrightarrow>
    io_step single s (s\<lparr>sl_ops := (sl_ops s)(t \<mapsto> IoReturned)\<rparr>)"
| store: "sl_cancels s c = None \<Longrightarrow>
    io_step single s (s\<lparr>sl_flag := True, sl_cancels := (sl_cancels s)(c \<mapsto> under_way s)\<rparr>)"
| cancel_all: "sl_cancels s c = Some ts \<Longrightarrow>
    io_step single s (s\<lparr>sl_ops := cancel_phases (sl_ops s),
                       sl_cancels := (sl_cancels s)(c := None), sl_due := sl_due s \<union> ts\<rparr>)"

inductive io_reach :: "bool \<Rightarrow> io_slot \<Rightarrow> bool" for single where
  new: "io_reach single io_slot_new"
| step: "io_reach single s \<Longrightarrow> io_step single s s' \<Longrightarrow> io_reach single s'"

text \<open>
  An operation a cancellation has seen: until it has swapped the flag, the flag is set or its I/O
  will not be waited for; once the cancellation is over, its I/O is not in flight uncancelled.
\<close>

definition io_quiet :: "overlapped_io \<Rightarrow> bool" where
  "io_quiet io \<longleftrightarrow> io \<noteq> InFlight False"

definition seen_ok :: "io_slot \<Rightarrow> nat \<Rightarrow> bool" where
  "seen_ok s t \<longleftrightarrow>
     (case sl_ops s t of
        None \<Rightarrow> False
      | Some IoPrepared \<Rightarrow> sl_flag s
      | Some (IoStarted io) \<Rightarrow> sl_flag s \<or> io_quiet io
      | _ \<Rightarrow> True)"

definition due_ok :: "io_slot \<Rightarrow> nat \<Rightarrow> bool" where
  "due_ok s t \<longleftrightarrow> seen_ok s t \<and> (case sl_ops s t of Some (IoWaiting io) \<Rightarrow> io_quiet io | _ \<Rightarrow> True)"

definition slot_ok :: "io_slot \<Rightarrow> bool" where
  "slot_ok s \<longleftrightarrow>
     (\<forall>t u. t \<in> under_way s \<longrightarrow> u \<in> under_way s \<longrightarrow> t = u)
     \<and> (\<forall>c ts. sl_cancels s c = Some ts \<longrightarrow> (\<forall>t \<in> ts. seen_ok s t))
     \<and> (\<forall>t \<in> sl_due s. due_ok s t)"

lemma quiet_cancelled [simp]: "io_quiet (cancelled_io io)" "io_quiet Completed"
  by (cases io; simp add: io_quiet_def)+

lemma seen_ok_other:
  "sl_ops s' t = sl_ops s t \<Longrightarrow> sl_flag s' = sl_flag s \<or> sl_flag s' \<or> t \<notin> under_way s \<Longrightarrow> seen_ok s t \<Longrightarrow> seen_ok s' t"
  by (auto simp: seen_ok_def under_way_def split: option.splits io_phase.splits)

lemma due_ok_other:
  "sl_ops s' t = sl_ops s t \<Longrightarrow> sl_flag s' = sl_flag s \<or> sl_flag s' \<or> t \<notin> under_way s \<Longrightarrow> due_ok s t \<Longrightarrow> due_ok s' t"
  by (auto simp: due_ok_def intro: seen_ok_other)

lemma slot_okI:
  assumes ok: "slot_ok s" and one: "\<And>u v. u \<in> under_way s' \<Longrightarrow> v \<in> under_way s' \<Longrightarrow> u = v"
    and seen: "\<And>u. seen_ok s u \<Longrightarrow> seen_ok s' u" and due: "\<And>u. due_ok s u \<Longrightarrow> due_ok s' u"
    and same: "sl_cancels s' = sl_cancels s" "sl_due s' = sl_due s"
  shows "slot_ok s'"
proof -
  have "\<forall>c ts. sl_cancels s c = Some ts \<longrightarrow> (\<forall>t \<in> ts. seen_ok s t)" "\<forall>t \<in> sl_due s. due_ok s t"
    using ok by (simp_all add: slot_ok_def)
  then have "\<forall>c ts. sl_cancels s' c = Some ts \<longrightarrow> (\<forall>t \<in> ts. seen_ok s' t)" "\<forall>t \<in> sl_due s'. due_ok s' t"
    unfolding same using seen due by blast+
  moreover have "\<forall>u v. u \<in> under_way s' \<longrightarrow> v \<in> under_way s' \<longrightarrow> u = v" using one by (intro allI impI)
  ultimately show ?thesis by (simp only: slot_ok_def simp_thms)
qed

text \<open>A step of one operation, which others of the slot do not notice.\<close>

lemma slot_ok_op:
  assumes ok: "slot_ok s" and old: "sl_ops s t = Some p" "p \<noteq> IoReturned"
    and new: "s' = s\<lparr>sl_flag := f, sl_ops := (sl_ops s)(t \<mapsto> p')\<rparr>"
    and own: "seen_ok s t \<Longrightarrow> seen_ok s' t" "due_ok s t \<Longrightarrow> due_ok s' t"
  shows "slot_ok s'"
proof -
  have t: "t \<in> under_way s" using old by (simp add: under_way_def)
  have sub: "under_way s' \<subseteq> under_way s" using old new by (auto simp: under_way_def split: if_splits)
  have others: "u \<notin> under_way s" if "u \<noteq> t" for u using ok t that unfolding slot_ok_def by blast
  have keep: "sl_ops s' u = sl_ops s u" if "u \<noteq> t" for u using new that by simp
  have seen: "seen_ok s u \<Longrightarrow> seen_ok s' u" for u
    using own(1) seen_ok_other [OF keep] others by (cases "u = t") blast+
  have due: "due_ok s u \<Longrightarrow> due_ok s' u" for u
    using own(2) due_ok_other [OF keep] others by (cases "u = t") blast+
  have one: "u \<in> under_way s' \<Longrightarrow> v \<in> under_way s' \<Longrightarrow> u = v" for u v
    using ok sub unfolding slot_ok_def by blast
  show ?thesis by (rule slot_okI [OF ok one seen due]) (use new in simp_all)
qed

lemma seen_ok_cancelled:
  "seen_ok s t \<Longrightarrow> seen_ok (s\<lparr>sl_ops := cancel_phases (sl_ops s), sl_cancels := cs, sl_due := d\<rparr>) t
     \<and> due_ok (s\<lparr>sl_ops := cancel_phases (sl_ops s), sl_cancels := cs, sl_due := d\<rparr>) t"
  by (auto simp: seen_ok_def due_ok_def cancel_phases_def split: option.splits io_phase.splits)

lemma under_way_cancelled:
  "under_way (s\<lparr>sl_ops := cancel_phases (sl_ops s), sl_cancels := cs, sl_due := d\<rparr>) = under_way s"
proof -
  have "cancelled_phase p = IoReturned \<longleftrightarrow> p = IoReturned" for p by (cases p) auto
  then show ?thesis by (auto simp: under_way_def cancel_phases_def)
qed

lemma slot_step_ok: "io_step True s s' \<Longrightarrow> slot_ok s \<Longrightarrow> slot_ok s'"
proof (induction rule: io_step.induct)
  case (prepare s t)
  let ?s = "s\<lparr>sl_ops := (sl_ops s)(t \<mapsto> IoPrepared)\<rparr>"
  have way: "under_way ?s \<subseteq> {t}" using prepare by (auto simp: under_way_def split: if_splits)
  have none: "\<not> seen_ok s t" "\<not> due_ok s t" using prepare(1) by (simp_all add: seen_ok_def due_ok_def)
  have keep: "sl_ops ?s u = sl_ops s u" if "u \<noteq> t" for u using that by simp
  have seen: "seen_ok s u \<Longrightarrow> seen_ok ?s u" for u
    using none seen_ok_other [OF keep] by (cases "u = t") simp_all
  have due: "due_ok s u \<Longrightarrow> due_ok ?s u" for u
    using none due_ok_other [OF keep] by (cases "u = t") simp_all
  show ?case by (rule slot_okI [OF prepare(3) _ seen due]) (use way in auto)
next
  case (start s t io)
  show ?case
    by (rule slot_ok_op [OF start(3,1), where f = "sl_flag s" and p' = "IoStarted io"])
      (use start(1,2) in \<open>auto simp: due_ok_def seen_ok_def\<close>)
next
  case (swap s t io)
  show ?case
    by (rule slot_ok_op [OF swap(2,1), where f = False and p' = "IoWaiting (if sl_flag s then cancelled_io io else io)"])
      (use swap(1) in \<open>auto simp: due_ok_def seen_ok_def\<close>)
next
  case (system_started s t c)
  show ?case
    by (rule slot_ok_op [OF system_started(2,1), where f = "sl_flag s" and p' = "IoStarted Completed"])
      (use system_started(1) in \<open>auto simp: due_ok_def seen_ok_def\<close>)
next
  case (system_waiting s t c)
  show ?case
    by (rule slot_ok_op [OF system_waiting(2,1), where f = "sl_flag s" and p' = "IoWaiting Completed"])
      (use system_waiting(1) in \<open>auto simp: due_ok_def seen_ok_def\<close>)
next
  case (return s t)
  show ?case
    by (rule slot_ok_op [OF return(2,1), where f = "sl_flag s" and p' = IoReturned])
      (use return(1) in \<open>auto simp: due_ok_def seen_ok_def\<close>)
next
  case (store s c)
  let ?s = "s\<lparr>sl_flag := True, sl_cancels := (sl_cancels s)(c \<mapsto> under_way s)\<rparr>"
  have way: "under_way ?s = under_way s" by (simp add: under_way_def)
  have "seen_ok s u \<Longrightarrow> seen_ok ?s u" "due_ok s u \<Longrightarrow> due_ok ?s u" "u \<in> under_way s \<Longrightarrow> seen_ok ?s u" for u
    by (auto simp: due_ok_def seen_ok_def under_way_def split: option.splits io_phase.splits)
  with store(2) way show ?case unfolding slot_ok_def by (auto split: if_splits)
next
  case (cancel_all s c ts)
  let ?s = "s\<lparr>sl_ops := cancel_phases (sl_ops s), sl_cancels := (sl_cancels s)(c := None), sl_due := sl_due s \<union> ts\<rparr>"
  have "\<forall>t \<in> ts. seen_ok s t" "\<forall>t \<in> sl_due s. seen_ok s t"
    using cancel_all by (auto simp: slot_ok_def due_ok_def)
  then have "\<forall>t \<in> sl_due ?s. due_ok ?s t" using seen_ok_cancelled by auto
  moreover have "\<forall>d us. sl_cancels ?s d = Some us \<longrightarrow> (\<forall>t \<in> us. seen_ok ?s t)"
    using cancel_all(2) seen_ok_cancelled by (auto simp: slot_ok_def split: if_splits)
  ultimately show ?case using cancel_all(2) by (simp add: slot_ok_def under_way_cancelled)
qed

lemma slot_reach_ok: "io_reach True s \<Longrightarrow> slot_ok s"
proof (induction rule: io_reach.induct)
  case new
  then show ?case by (simp add: slot_ok_def io_slot_new_def under_way_def)
qed (rule slot_step_ok)

section \<open>Properties of the transport\<close>

text \<open>
  C20 (safety). The pipes are private and no resource is lost, whatever the system answers: in a session
  of accepts, reads, writes, cancellations and drops, every call uses a handle that is open, no
  event or pipe is closed under an operation in flight, every pipe is one only the current user can
  open, and when the listener and the connections are gone every handle has been closed once and
  no operation is in flight. Whether a call fails, and where, makes no difference.
\<close>

theorem pipe_handles_returned:
  assumes "token_names A user" and "win_calls s = []"
  shows "replay user (win_calls (pipe_teardown A (pipe_session A endpoint ops s))) ({#}, {#}) = Some ({#}, {#})
    \<and> replay user (win_calls (snd (snd (pipe_session A endpoint ops s)))) ({#}, {#})
        = Some (pipe_owned (pipe_session A endpoint ops s), {#})"
proof -
  have "holds user {#} {#} s" using assms(2) by (simp add: holds_def)
  then have ok: "pipe_ok user (pipe_session A endpoint ops s)" using assms(1) by (rule pipe_session_ok)
  then show ?thesis using pipe_teardown_holds [OF ok, of A] by (simp add: holds_def pipe_ok_def)
qed

text \<open>A system that hands out rising handles and leaves every operation pending.\<close>

definition sample_win :: "nat win_api" where
  "sample_win = \<lparr>wa_open_token = (\<lambda>x. (x + 1, Some x)), wa_token_size = (\<lambda>x h. (x, 44)),
     wa_token_user = (\<lambda>x h n. (x, Some ''me'')), wa_sid_length = (\<lambda>x u. (x, 28)), wa_init_acl = (\<lambda>x n. (x, True)),
     wa_add_ace = (\<lambda>x n m u. (x, True)), wa_init_descriptor = (\<lambda>x. (x, True)), wa_set_dacl = (\<lambda>x d. (x, True)),
     wa_create_pipe = (\<lambda>x r. (x + 1, Some x)), wa_create_event = (\<lambda>x. (x + 1, Some x)),
     wa_connect = (\<lambda>x h e. (x, False)), wa_read = (\<lambda>x h n e. (x, False, 0)), wa_write = (\<lambda>x h bs e. (x, False, 0)),
     wa_overlapped_result = (\<lambda>x h e. (x, Some 5)), wa_cancel = (\<lambda>x h e. (x, True)), wa_disconnect = (\<lambda>x h. x),
     wa_close = (\<lambda>x h. x), wa_last_error = (\<lambda>x. ERROR_IO_PENDING), wa_flag_store = (\<lambda>x f b. x),
     wa_flag_swap = (\<lambda>x f. (x, False))\<rparr>"

definition sample_session :: "nat pipe_state" where
  "sample_session = pipe_session sample_win (PIPE_PREFIX @ ''julie'') [DoAccept, DoRead 0 64]
     \<lparr>win_world = 7, win_calls = []\<rparr>"

lemma sample_win_simps:
  "wa_open_token sample_win x = (x + 1, Some x)" "wa_token_size sample_win x h = (x, 44)"
  "wa_token_user sample_win x h n = (x, Some ''me'')" "wa_sid_length sample_win x u = (x, 28)"
  "wa_init_acl sample_win x n = (x, True)" "wa_add_ace sample_win x n m u = (x, True)"
  "wa_init_descriptor sample_win x = (x, True)" "wa_set_dacl sample_win x d = (x, True)"
  "wa_create_pipe sample_win x r = (x + 1, Some x)" "wa_create_event sample_win x = (x + 1, Some x)"
  "wa_connect sample_win x h e = (x, False)" "wa_overlapped_result sample_win x h e = (x, Some 5)"
  "wa_close sample_win x h = x" "wa_last_error sample_win x = ERROR_IO_PENDING" "wa_flag_store sample_win x f b = x"
  "wa_flag_swap sample_win x f = (x, False)"
  by (simp_all add: sample_win_def)

lemma sample_user:
  "\<exists>cs. current_user sample_win \<lparr>win_world = x, win_calls = calls\<rparr> = (\<lparr>win_world = x + 1, win_calls = cs\<rparr>, Inr [(''me'', GenericAll)])"
  by (simp add: current_user_def token_user_current_def user_dacl_def invoke_def opened_def unlogged_def asked_token_def close_handle_def sample_win_simps)

lemma sample_bound:
  "\<exists>cs. pipe_bind sample_win (PIPE_PREFIX @ ''julie'') \<lparr>win_world = 7, win_calls = []\<rparr>
     = (\<lparr>win_world = 9, win_calls = cs\<rparr>, True,
        Inr \<lparr>ln_endpoint = encode_utf16 (PIPE_PREFIX @ ''julie'') @ [0], ln_first = Guarded (Some 8), ln_pending = Guarded []\<rparr>)"
proof -
  have "validate_endpoint (PIPE_PREFIX @ ''julie'') = Inr ()" by code_simp
  moreover obtain cs where "current_user sample_win \<lparr>win_world = 7, win_calls = []\<rparr>
      = (\<lparr>win_world = 7 + 1, win_calls = cs\<rparr>, Inr [(''me'', GenericAll)])"
    using sample_user by blast
  ultimately show ?thesis
    by (simp add: pipe_bind_def create_instance_def invoke_def opened_def flag_store_def unlogged_def sample_win_simps)
qed

lemma sample_session_owns: "pipe_owned sample_session = {#8#}"
proof -
  obtain cs where b: "pipe_bind sample_win (PIPE_PREFIX @ ''julie'') \<lparr>win_world = 7, win_calls = []\<rparr>
     = (\<lparr>win_world = 9, win_calls = cs\<rparr>, True,
        Inr \<lparr>ln_endpoint = encode_utf16 (PIPE_PREFIX @ ''julie'') @ [0], ln_first = Guarded (Some 8), ln_pending = Guarded []\<rparr>)"
    using sample_bound by blast
  show ?thesis
    unfolding sample_session_def
    by (simp add: pipe_session_def b pipe_owned_def first_owned_def accept_def pending_register_def pending_drop_def
        swap_remove_def connect_pipe_def pending_io_new_def complete_def overlapped_result_def invoke_def opened_def
        started_io_def start_error_def take_cancel_def Let_def sample_win_simps)
qed

theorem pipe_handles_returned_witness:
  "replay ''me'' (win_calls (pipe_teardown sample_win sample_session)) ({#}, {#}) = Some ({#}, {#})
     \<and> replay ''me'' (win_calls (snd (snd sample_session))) ({#}, {#}) = Some ({#8#}, {#})"
proof -
  have "token_names sample_win ''me''" by (simp add: token_names_def sample_win_def)
  from pipe_handles_returned [OF this, of "\<lparr>win_world = 7, win_calls = []\<rparr>" "PIPE_PREFIX @ ''julie''" "[DoAccept, DoRead 0 64]"]
  show ?thesis using sample_session_owns by (simp add: sample_session_def)
qed

text \<open>
  C21 (liveness). Where the operations on a pipe come one after the other, as those of
  \<open>handle_connection\<close> on its connection and of the accept thread on the listener do (\<open>io_reach True\<close>), a
  cancellation is not lost whatever step of the operation it falls on: an operation that was under way
  when \<open>cancel_io\<close> or \<open>cancel_pending\<close> began does not wait, after that call is over, for I/O that nobody
  cancelled. \<open>Connection\<close> is \<open>Clone\<close>, and nothing in its type keeps two operations from running at
  once: then a cancellation can be lost (\<open>shared_flag_can_be_taken\<close>).
\<close>

theorem cancel_is_not_lost:
  assumes "io_reach True s" and "t \<in> sl_due s"
  shows "sl_ops s t \<noteq> Some (IoWaiting (InFlight False))"
  using slot_reach_ok [OF assms(1)] assms(2) by (fastforce simp: slot_ok_def due_ok_def io_quiet_def)

lemma cancel_phases_simps:
  "cancel_phases Map.empty = Map.empty" "cancel_phases (m(t \<mapsto> p)) = (cancel_phases m)(t \<mapsto> cancelled_phase p)"
  by (auto simp: cancel_phases_def)

text \<open>A cancellation that comes before the operation has started, with the flag as its only trace.\<close>

lemma early_cancel_reach:
  "io_reach True \<lparr>sl_flag = False, sl_ops = [7 \<mapsto> IoWaiting (InFlight True)], sl_cancels = Map.empty, sl_due = {7}\<rparr>"
proof -
  have 1: "io_reach True \<lparr>sl_flag = False, sl_ops = [7 \<mapsto> IoPrepared], sl_cancels = Map.empty, sl_due = {}\<rparr>"
    using io_reach.step [OF io_reach.new io_step.prepare [of io_slot_new 7]] by (simp add: io_slot_new_def under_way_def)
  have way: "under_way \<lparr>sl_flag = False, sl_ops = [7 \<mapsto> IoPrepared], sl_cancels = Map.empty, sl_due = {}\<rparr> = {7}"
    by (auto simp: under_way_def)
  have 2: "io_reach True \<lparr>sl_flag = True, sl_ops = [7 \<mapsto> IoPrepared], sl_cancels = [2 \<mapsto> {7}], sl_due = {}\<rparr>"
    using io_reach.step [OF 1 io_step.store [of _ 2]] way by simp
  have 3: "io_reach True \<lparr>sl_flag = True, sl_ops = [7 \<mapsto> IoPrepared], sl_cancels = Map.empty, sl_due = {7}\<rparr>"
    using io_reach.step [OF 2 io_step.cancel_all [of _ 2 "{7}"]] by (simp add: cancel_phases_simps)
  have 4: "io_reach True \<lparr>sl_flag = True, sl_ops = [7 \<mapsto> IoStarted (InFlight False)], sl_cancels = Map.empty, sl_due = {7}\<rparr>"
    using io_reach.step [OF 3 io_step.start [of _ 7 "InFlight False"]] by simp
  show ?thesis using io_reach.step [OF 4 io_step.swap [of _ 7 "InFlight False"]] by simp
qed

theorem cancel_is_not_lost_witness:
  "\<exists>s. io_reach True s \<and> 7 \<in> sl_due s \<and> (\<exists>io. sl_ops s 7 = Some (IoWaiting io)) \<and> sl_ops s 7 \<noteq> Some (IoWaiting (InFlight False))"
proof (intro exI conjI)
  show "sl_ops \<lparr>sl_flag = False, sl_ops = [7 \<mapsto> IoWaiting (InFlight True)], sl_cancels = Map.empty, sl_due = {7}\<rparr> 7
     \<noteq> Some (IoWaiting (InFlight False))"
    by (rule cancel_is_not_lost [OF early_cancel_reach]) simp
qed (rule early_cancel_reach, simp_all)

text \<open>
  The proviso is needed: the flag is one for all operations of a connection, so that of two that run
  at once on clones of it, one can take the flag the other needed.
\<close>

lemma shared_flag_can_be_taken:
  "\<exists>s. io_reach False s \<and> 7 \<in> sl_due s \<and> sl_ops s 7 = Some (IoWaiting (InFlight False))"
proof -
  let ?S = "\<lambda>f ops cs due. \<lparr>sl_flag = f, sl_ops = ops, sl_cancels = cs, sl_due = due\<rparr> :: io_slot"
  have 1: "io_reach False (?S False [7 \<mapsto> IoPrepared] Map.empty {})"
    using io_reach.step [OF io_reach.new io_step.prepare [of io_slot_new 7]] by (simp add: io_slot_new_def)
  have 2: "io_reach False (?S False [7 \<mapsto> IoPrepared, 9 \<mapsto> IoPrepared] Map.empty {})"
    using io_reach.step [OF 1 io_step.prepare [of _ 9]] by simp
  have 3: "io_reach False (?S False [7 \<mapsto> IoPrepared, 9 \<mapsto> IoStarted Completed] Map.empty {})"
    using io_reach.step [OF 2 io_step.start [of _ 9 Completed]] by simp
  have way: "under_way (?S False [7 \<mapsto> IoPrepared, 9 \<mapsto> IoStarted Completed] Map.empty {}) = {7, 9}"
    by (auto simp: under_way_def)
  have 4: "io_reach False (?S True [7 \<mapsto> IoPrepared, 9 \<mapsto> IoStarted Completed] [2 \<mapsto> {7, 9}] {})"
    using io_reach.step [OF 3 io_step.store [of _ 2]] way by simp
  have 5: "io_reach False (?S False [7 \<mapsto> IoPrepared, 9 \<mapsto> IoWaiting Completed] [2 \<mapsto> {7, 9}] {})"
    using io_reach.step [OF 4 io_step.swap [of _ 9 Completed]] by simp
  have 6: "io_reach False (?S False [7 \<mapsto> IoPrepared, 9 \<mapsto> IoWaiting Completed] Map.empty {7, 9})"
    using io_reach.step [OF 5 io_step.cancel_all [of _ 2 "{7, 9}"]] by (simp add: cancel_phases_simps)
  have 7: "io_reach False (?S False [7 \<mapsto> IoStarted (InFlight False), 9 \<mapsto> IoWaiting Completed] Map.empty {7, 9})"
    using io_reach.step [OF 6 io_step.start [of _ 7 "InFlight False"]] by (simp add: fun_upd_twist)
  have 8: "io_reach False (?S False [7 \<mapsto> IoWaiting (InFlight False), 9 \<mapsto> IoWaiting Completed] Map.empty {7, 9})"
    using io_reach.step [OF 7 io_step.swap [of _ 7 "InFlight False"]] by (simp add: fun_upd_twist)
  show ?thesis by (rule exI, rule conjI [OF 8]) simp
qed

end
