(* ===== verification/Spec2Isabelle.thy ===== *)
theory Spec2Isabelle
  imports Text_Fit Broker_Conversation Cache_Processes Cli Stdio_Guard Package_Cli Serve Broker_Start Build_Identity Windows_Pipe
begin

text \<open>
  A verification library for the julie semantic sidecar: a process that turns texts into embedding
  vectors with a pinned llama.cpp model and answers a line-oriented JSON protocol, on its own
  standard input and output or as a broker many clients share through a local socket.

  The parts and how they meet.

  \<^item> A start (\<open>Cli\<close>, src/main.rs) is one of four verbs. \<open>prepare\<close> (\<open>Prepare\<close>, src/prepare.rs) downloads a
    model of the manifest (\<open>Manifest\<close>, src/manifest.rs) into a shared cache, which
    \<open>Cache_Processes\<close> lets many processes use at once. \<open>serve\<close> (\<open>Serve\<close>, the function
    of that name in src/protocol.rs) cleans that cache, loads the model and runs the protocol loop
    (\<open>Protocol\<close>). \<open>broker\<close> (\<open>Broker_Start\<close>, src/broker/mod.rs, lease.rs, watchdog.rs and
    transport/unix.rs) takes its leases, loads, binds its endpoint and then schedules the requests
    of its connections (\<open>Broker\<close>). \<open>Broker_Schedule\<close> runs its scheduler loop against an arbitrary
    schedule of everything else, \<open>Broker_Conversation\<close> follows one client through such a run.
  \<^item> Loading an engine (\<open>Engine_Load\<close>, src/engine.rs) checks the digest of the cached file, loads
    the modules packaged with the executable (\<open>Module_Load\<close>), asks the backend selection
    (\<open>Backend_Select\<close>, src/backend_select.rs) for a device, which measures candidates by loading and
    timing them and remembers its verdict on disk, and loads the weights there.
  \<^item> A loaded engine (\<open>Llama_Engine\<close>) builds its inputs (\<open>Text_Fit\<close>, src/sanitize.rs and
    src/truncate.rs), groups them, encodes the groups, isolates what cannot be encoded and scales
    the vectors (\<open>Encode\<close>).
  \<^item> The broker's engine (\<open>Broker_Engine\<close>, src/broker/engine.rs) wraps an engine so that one whose
    accelerator is exhausted is replaced by one on the CPU; its requests come through the queue of
    \<open>Broker_Queue\<close> (src/broker/queue.rs).
  \<^item> \<open>Health\<close> (src/health.rs) builds the health object from the facts an engine states through the
    interface of \<open>Engine_Trait\<close> (src/engine_trait.rs).
  \<^item> \<open>Stdio_Guard\<close> (src/stdio_guard.rs) keeps what native code prints off the standard output.
  \<^item> \<open>Package_Manifest\<close> (src/package_manifest.rs) creates and verifies the inventory of a release
    package and gives the identity the verdict cache uses; \<open>Package_Cli\<close> is the tool around it
    (src/bin/julie-package-manifest.rs).
  \<^item> \<open>Windows_Pipe\<close> (src/broker/transport/windows.rs) is the broker's transport on Windows: a private
    named pipe, overlapped operations and their cancellation. \<open>Build_Identity\<close> (build.rs and
    build_support.rs) makes the identity of the native build that packages and cached verdicts carry.
  \<^item> \<open>Prelude\<close> holds what they share: results, strings and bytes, hexadecimal, paths, ASCII case;
    \<open>Json\<close> the JSON values and the laws asked of the codec.

  How the code is modelled. A Rust struct is a record and an enum a datatype with the same
  constructors; a function that fails returns a sum whose left side is the error, and an option of
  Rust is an option. Bytes and strings are lists of characters, a string being the bytes of its UTF-8
  form, so that \<open>length\<close> is Rust's \<open>len\<close>. A function that calls foreign code threads an opaque
  state through the calls in the order the source makes them, and takes the foreign operations in
  a record: \<open>llama_api\<close> and \<open>native_api\<close> for llama.cpp, \<open>float_ops\<close> for 32-bit floating point,
  \<open>json_codec\<close>, \<open>store_codec\<close> and \<open>pkg_codec\<close> for serde_json, the digest function for sha2,
  records of answers for the file system, the network and the locks. Where a proof relies on such
  an operation the law is named in the statement (\<open>codec_roundtrip\<close>, \<open>pkg_codec_roundtrip\<close>,
  \<open>fd_os_ok\<close>, \<open>fs_names_ok\<close>, \<open>token_names\<close>), and a witness instantiates it. The concrete shape of every state is
  described where it is declared.

  Loops are recursive functions that end. A reader is the list of the pieces it will deliver, so
  the protocol loop ends with its input; a download is the list of its chunks. There is no fuel
  anywhere. What may wait for ever in the program is a step of a relation instead: the interleaving
  of the broker's threads in \<open>broker_step\<close>, of whole broker processes in \<open>host_step\<close>, of
  the processes that share a cache in \<open>cache_step\<close>, and of an
  operation on a pipe with the threads that cancel it in \<open>io_step\<close>. Where a theorem promises progress
  the interleaving is a list of events (\<open>run_schedule\<close>), and a scheduler move counts as one event
  whatever the engine does in it.

  The lemma groups, by what they show.

  \<^item> The protocol: the loop equals a reference conversation over the frames of the byte stream,
    whatever the chunks; every answer is an envelope of the protocol; every line is refused with
    the code of its defect or is one demand the engine meets; buffering is bounded. \<open>serve\<close> as a
    whole is that conversation with the engine the load gives.
  \<^item> The broker: each waiting connection has its own request queued or served, exactly once, and is
    answered with the result of its own line; a client is answered within 1153 moves of the
    scheduler (a queue of 64 with at most eight interactive requests before a batch makes 576
    dequeues, each with the processing of what it returned, and one request may be in service),
    and each connection has the conversation of a client alone; the queue refines one list per class, and a batch
    request is not starved. Across processes, failures, panics and crashes at most one broker serves under a
    lock and at most one accelerated engine runs under a lock, as long as no broker has that lock file
    as its endpoint; an endpoint stays private until the owner watchdog unlinks it, as long as brokers
    that share it share the service lock and none fails after binding it. The code checks none of
    these conditions, and lemmas beside the properties show what happens without them. A start that
    nothing hinders serves with its locks, its modes and its endpoint, and one under a held lease
    gives way.
  \<^item> The engine: isolating by bisection equals encoding one by one; contexts stay within limits; a
    demotion is final; the engine reports what was loaded, on which device, and from the file that was
    pinned.
  \<^item> The selection: verdicts are honest, replayed from the store, forgotten when they fail and the store can be rewritten; the
    fastest working candidate wins.
  \<^item> The cache: in every state an acquisition passes through, the final name is safe; processes that
    share a cache never break each other's downloads, and the functions of \<open>Prepare\<close> are runs of
    what those processes do step by step; what was acquired is served.
  \<^item> Packages: verification accepts exactly the sound packages; what a patched build is named, it
    accepts, and the name forgets where the sources lay and nothing else.
  \<^item> Windows: every handle is closed once, no operation is abandoned in flight, every pipe is the
    user's own, and a cancellation is not lost while the operations of a pipe come one after the other.
    For that the calls are logged and replayed; the flag
    other threads set belongs to the world, so that the replay covers every moment they may choose.

  The interfaces are locales, each interpreted on the code's definitions: \<open>object_map\<close> in \<open>Json\<close>
  (an insert into an object and what a lookup then gives), \<open>honest_engine\<close> in \<open>Engine_Trait\<close> (what an
  answer of an engine may be, proved of the unready, the llama and the broker's engine),
  \<open>steady_engine\<close> and \<open>demotable_engine\<close> in \<open>Broker_Engine\<close> (an engine a broker can wrap, proved of the
  loaded engine), \<open>class_queue\<close> and \<open>fair_class\<close> in \<open>Broker_Queue\<close> (one list per class, and a bounded
  wait), \<open>leased_engines\<close> in \<open>Broker_Start\<close> (what a loader and a request may do to the lease of an
  engine, proved of \<open>broker_load\<close> and \<open>broker_embed\<close>).

  Not modelled, and why.

  \<^item> llama.cpp, libloading, serde_json, ureq, sha2, fs4, Win32: parameters, as above. Floating point is exact
    only where a lemma says so.
  \<^item> Symbolic links, and a directory that changes between two calls of one operation, except where
    the model has other processes (\<open>Broker_Start\<close>, \<open>Cache_Processes\<close>). In the first \<open>try_acquire\<close> is one
    step, the owner watchdog looks at \<open>endpoint_bound\<close>, unlinks the endpoint and ends the process in separate
    steps, and a return of the main thread drops its leases a step before the process is gone. In the second listing a
    directory is one, and a random temporary name is never used twice. The watchdog of requests copies
    its mark under a lock and judges the copy later; the end of a request sends the reply and takes the
    mark back in one step of the model.
  \<^item> The choice of a transport by the platform (src/broker/transport/mod.rs): \<open>Broker_Start\<close> starts the
    broker on Unix. The bytes a read of a pipe puts into the buffer, which Win32 writes.
  \<^item> Text on the standard error. The text of a package error is a constructor with the data it names.
\<close>

end
